(* ===== verification/Prelude.thy ===== *)
theory Prelude
  imports Main "HOL-Library.Word" "HOL-Library.Signed_Division"
begin

text \<open>
  What every component shares: Go's fixed-width integers, results that carry an error,
  the early-return loop, and the collections of facts the component proofs use.

  An \<open>int\<close> or a \<open>time.Duration\<close> of the source (64-bit platforms) is \<open>64 word\<close>; \<open>sint\<close> reads
  it as a signed number, and \<open>+\<close>, \<open>-\<close> and \<open>*\<close> wrap as Go's do.  A function that can fail
  returns a sum, with the error on the left.
\<close>

named_theorems go_int \<open>reading and bounding 64-bit integers\<close>
named_theorems result_simps \<open>results: Inl is an error, Inr a value\<close>

section \<open>Machine integers\<close>

type_synonym i64 = "64 word"
type_synonym u64 = "64 word"
type_synonym u8 = "8 word"
type_synonym duration = i64

abbreviation millisecond :: int where "millisecond \<equiv> 1000000"
abbreviation second :: int where "second \<equiv> 1000000000"
abbreviation minute :: int where "minute \<equiv> 60000000000"

abbreviation i64_max :: int where "i64_max \<equiv> 9223372036854775807"

text \<open>Go's \<open>/\<close> on signed integers truncates towards zero.\<close>

definition quot64 :: "i64 \<Rightarrow> i64 \<Rightarrow> i64" where
  "quot64 a b = word_of_int (sint a sdiv sint b)"

definition fits64 :: "int \<Rightarrow> bool" where
  "fits64 x \<longleftrightarrow> - (2 ^ 63) \<le> x \<and> x < 2 ^ 63"

lemma fits64_nonneg: "0 \<le> x \<Longrightarrow> x \<le> i64_max \<Longrightarrow> fits64 x"
  by (simp add: fits64_def)

lemma sint_word_of_int64 [go_int]: "fits64 x \<Longrightarrow> sint (word_of_int x :: i64) = x"
  by (simp add: fits64_def sint_word_ariths signed_take_bit_int_eq_self sint_sbintrunc')

lemma fits64_sint [simp, go_int]: "fits64 (sint (w :: i64))"
  using sint_range_size [of w] by (simp add: fits64_def word_size)

lemma sint_add64 [go_int]:
  "fits64 (sint a + sint b) \<Longrightarrow> sint (a + b :: i64) = sint a + sint b"
  using sint_word_of_int64 [of "sint a + sint b"] by simp

lemma sint_mult64 [go_int]:
  "fits64 (sint a * sint b) \<Longrightarrow> sint (a * b :: i64) = sint a * sint b"
  using sint_word_of_int64 [of "sint a * sint b"] by simp

lemma sint_quot64_nonneg [go_int]:
  assumes "0 \<le> sint a" and "0 < sint b"
  shows "sint (quot64 a b) = sint a div sint b"
proof -
  have "sint a div sint b \<le> sint a"
    using assms by (cases "sint b = 1") (auto intro: less_imp_le int_div_less_self simp: le_less)
  moreover have "0 \<le> sint a div sint b"
    using assms by (simp add: pos_imp_zdiv_nonneg_iff)
  ultimately have "fits64 (sint a div sint b)"
    using fits64_sint [of a] by (auto simp: fits64_def)
  then show ?thesis
    using assms by (simp add: quot64_def sint_word_of_int64 signed_divide_int_def sgn_if)
qed

section \<open>Results\<close>

fun is_ok :: "'e + 'a \<Rightarrow> bool" where
  "is_ok (Inl _) = False"
| "is_ok (Inr _) = True"

lemma is_ok_iff [result_simps]: "is_ok r \<longleftrightarrow> (\<exists>x. r = Inr x)"
  by (cases r) auto

lemma not_is_ok_iff [result_simps]: "\<not> is_ok r \<longleftrightarrow> (\<exists>e. r = Inl e)"
  by (cases r) auto

text \<open>
  A \<open>for\<close> loop over a slice whose body updates local state and may return an error: the first
  error ends it.
\<close>

fun for_each :: "('s \<Rightarrow> 'a \<Rightarrow> 'e + 's) \<Rightarrow> 's \<Rightarrow> 'a list \<Rightarrow> 'e + 's" where
  "for_each body s [] = Inr s"
| "for_each body s (x # xs) =
     (case body s x of Inl e \<Rightarrow> Inl e | Inr s' \<Rightarrow> for_each body s' xs)"

lemma for_each_append [result_simps]:
  "for_each body s (xs @ ys) =
     (case for_each body s xs of Inl e \<Rightarrow> Inl e | Inr s' \<Rightarrow> for_each body s' ys)"
  by (induction xs arbitrary: s) (auto split: sum.splits)

lemma for_each_invariant:
  assumes "for_each body s xs = Inr s'" and "P s"
    and "\<And>s x t. x \<in> set xs \<Longrightarrow> P s \<Longrightarrow> body s x = Inr t \<Longrightarrow> P t"
  shows "P s'"
  using assms
proof (induction xs arbitrary: s)
  case (Cons x xs)
  then obtain t where t: "body s x = Inr t" "for_each body t xs = Inr s'"
    by (auto split: sum.splits)
  then have "P t" using Cons.prems(2,3) by (meson list.set_intros(1))
  with t(2) show ?case using Cons.IH Cons.prems(3) by (meson list.set_intros(2))
qed simp

text \<open>A loop with no state: it succeeds exactly when every element passes.\<close>

lemma for_each_unit [result_simps]:
  "for_each (\<lambda>_. f) () xs = Inr () \<longleftrightarrow> (\<forall>x \<in> set xs. f x = Inr ())"
  by (induction xs) (auto split: sum.splits)

lemma for_each_unit_ok: "is_ok (for_each (\<lambda>_. f) () xs) \<longleftrightarrow> (\<forall>x \<in> set xs. is_ok (f x))"
  by (induction xs) (auto split: sum.splits)

section \<open>Indexed lists\<close>

lemma enumerate_set_nth: "(i, x) \<in> set (enumerate n xs) \<Longrightarrow> n \<le> i \<and> i < n + length xs \<and> x = xs ! (i - n)"
  by (auto simp: in_set_enumerate_eq)

lemma ball_enumerate:
  "(\<forall>x \<in> set (enumerate k xs). P (snd x)) \<longleftrightarrow> (\<forall>x \<in> set xs. P x)"
proof -
  have "set xs = snd ` set (enumerate k xs)" by (metis map_snd_enumerate set_map)
  then show ?thesis by auto
qed

lemma find_Some_in: "find P xs = Some x \<Longrightarrow> x \<in> set xs \<and> P x"
  by (auto simp: find_Some_iff)

end
