(* ===== verification/Go_Strings.thy ===== *)
theory Go_Strings
  imports Prelude
begin

text \<open>
  The part of Go's \<open>strings\<close>, \<open>strconv\<close> and \<open>fmt\<close> packages that the prober uses.  A Go string is
  a sequence of bytes, and so is Isabelle's \<open>string\<close> (a \<open>char\<close> is 8 bits).

  \<open>TrimSpace\<close> and \<open>Fields\<close> work on UTF-8 runes: \<open>space_runes\<close> lists the encodings of the code
  points that \<open>unicode.IsSpace\<close> accepts.  UTF-8 is self-synchronising, so testing for one of these
  encodings at either end of the string is the same as decoding the first or the last rune there.
  \<open>ToUpper\<close> is given on ASCII letters only: the code upper-cases to look for the bytes of
  \<open>Y/N\<close> and \<open>[Y/N]\<close>, and the only other runes whose upper case is ASCII are those of I and S.
\<close>

named_theorems go_strings \<open>facts on string functions used by every component\<close>

section \<open>Character classes\<close>

definition is_digit :: "char \<Rightarrow> bool" where
  "is_digit c \<longleftrightarrow> 48 \<le> (of_char c :: nat) \<and> (of_char c :: nat) \<le> 57"

definition is_upper :: "char \<Rightarrow> bool" where
  "is_upper c \<longleftrightarrow> 65 \<le> (of_char c :: nat) \<and> (of_char c :: nat) \<le> 90"

definition is_lower :: "char \<Rightarrow> bool" where
  "is_lower c \<longleftrightarrow> 97 \<le> (of_char c :: nat) \<and> (of_char c :: nat) \<le> 122"

text \<open>The class \<open>\s\<close> of Go's regexp package.\<close>

definition is_space :: "char \<Rightarrow> bool" where
  "is_space c \<longleftrightarrow> c \<in> set [CHR 0x09, CHR 0x0A, CHR 0x0C, CHR 0x0D, CHR '' '']"

lemmas char_class_defs = is_digit_def is_upper_def is_lower_def is_space_def

section \<open>Prefixes, suffixes and searching\<close>

fun strip_prefix :: "string \<Rightarrow> string \<Rightarrow> string option" where
  "strip_prefix [] s = Some s"
| "strip_prefix (w # ws) [] = None"
| "strip_prefix (w # ws) (x # xs) = (if w = x then strip_prefix ws xs else None)"

lemma strip_prefix_Some [go_strings]: "strip_prefix w s = Some t \<longleftrightarrow> s = w @ t"
  by (induction w s rule: strip_prefix.induct) auto

lemma strip_prefix_append [simp]: "strip_prefix w (w @ t) = Some t"
  by (simp add: strip_prefix_Some)

definition has_prefix :: "string \<Rightarrow> string \<Rightarrow> bool" where
  "has_prefix s w \<longleftrightarrow> strip_prefix w s \<noteq> None"

definition has_suffix :: "string \<Rightarrow> string \<Rightarrow> bool" where
  "has_suffix s w \<longleftrightarrow> strip_prefix (rev w) (rev s) \<noteq> None"

definition trim_suffix :: "string \<Rightarrow> string \<Rightarrow> string" where
  "trim_suffix s w = (if has_suffix s w then take (length s - length w) s else s)"

lemma has_prefix_iff [go_strings]: "has_prefix s w \<longleftrightarrow> (\<exists>t. s = w @ t)"
  by (auto simp: has_prefix_def strip_prefix_Some)

lemma has_suffix_iff [go_strings]: "has_suffix s w \<longleftrightarrow> (\<exists>t. s = t @ w)"
  unfolding has_suffix_def
  by (simp add: strip_prefix_Some) (metis rev_append rev_rev_ident)

lemma trim_suffix_append [simp]: "trim_suffix (t @ w) w = t"
  by (auto simp: trim_suffix_def has_suffix_iff)

text \<open>
  \<open>index_tail s w\<close> is \<open>s[strings.Index(s, w):]\<close>, the text from the first occurrence of \<open>w\<close> on,
  and \<open>None\<close> where \<open>Index\<close> returns -1.
\<close>

fun index_tail :: "string \<Rightarrow> string \<Rightarrow> string option" where
  "index_tail s w =
     (if has_prefix s w then Some s
      else case s of [] \<Rightarrow> None | x # xs \<Rightarrow> index_tail xs w)"

declare index_tail.simps [simp del]

definition contains :: "string \<Rightarrow> string \<Rightarrow> bool" where
  "contains s w \<longleftrightarrow> index_tail s w \<noteq> None"

lemma index_tail_None_iff: "index_tail s w = None \<longleftrightarrow> (\<nexists>p t. s = p @ w @ t)"
proof (induction s)
  case Nil
  then show ?case by (auto simp: index_tail.simps [of "[]"] has_prefix_iff)
next
  case (Cons x xs)
  have "(\<exists>p t. x # xs = p @ w @ t) \<longleftrightarrow> (\<exists>t. x # xs = w @ t) \<or> (\<exists>p t. xs = p @ w @ t)"
    by (metis append_Cons append_Nil neq_Nil_conv list.inject)
  with Cons.IH show ?case by (auto simp: index_tail.simps [of "x # xs"] has_prefix_iff)
qed

lemma contains_iff [go_strings]: "contains s w \<longleftrightarrow> (\<exists>p t. s = p @ w @ t)"
  using index_tail_None_iff [of s w] by (simp add: contains_def)

lemma index_tail_Some: "index_tail s w = Some u \<Longrightarrow> (\<exists>p. s = p @ u) \<and> has_prefix u w"
proof (induction s)
  case (Cons x xs)
  then show ?case
    by (fastforce simp: index_tail.simps [of "x # xs"] split: if_splits intro: exI [of _ "x # _"])
qed (auto simp: index_tail.simps [of "[]"] split: if_splits)

lemma index_tail_prefix [simp]: "index_tail (w @ t) w = Some (w @ t)"
  by (subst index_tail.simps) (simp add: has_prefix_iff)

section \<open>Splitting, joining and trimming\<close>

fun split_on :: "char \<Rightarrow> string \<Rightarrow> string list" where
  "split_on c [] = [[]]"
| "split_on c (x # xs) =
     (if x = c then [] # split_on c xs
      else case split_on c xs of [] \<Rightarrow> [[x]] | l # ls \<Rightarrow> (x # l) # ls)"

fun join_with :: "string \<Rightarrow> string list \<Rightarrow> string" where
  "join_with sep [] = []"
| "join_with sep [l] = l"
| "join_with sep (l # ls) = l @ sep @ join_with sep ls"

lemma split_on_nonempty [simp]: "split_on c s \<noteq> []"
  by (induction s) (auto split: list.splits)

lemma join_split [go_strings]: "join_with [c] (split_on c s) = s"
proof (induction s)
  case (Cons x xs)
  obtain l ls where ls: "split_on c xs = l # ls" by (cases "split_on c xs") auto
  with Cons show ?case by (cases ls) auto
qed simp

lemma split_on_no_sep: "l \<in> set (split_on c s) \<Longrightarrow> c \<notin> set l"
  by (induction s arbitrary: l) (auto split: list.splits if_splits)

lemma split_on_append_sep: "c \<notin> set l \<Longrightarrow> split_on c (l @ c # t) = l # split_on c t"
  by (induction l) auto

text \<open>\<open>TrimRight\<close> with an ASCII cutset, and \<open>ReplaceAll(s, c, "")\<close> of one byte.\<close>

definition trim_right :: "char list \<Rightarrow> string \<Rightarrow> string" where
  "trim_right cs s = rev (dropWhile (\<lambda>c. c \<in> set cs) (rev s))"

definition remove_char :: "char \<Rightarrow> string \<Rightarrow> string" where
  "remove_char c s = filter (\<lambda>x. x \<noteq> c) s"

lemma trim_right_prefix: "\<exists>z. s = trim_right cs s @ z \<and> set z \<subseteq> set cs"
proof -
  have "rev s = takeWhile (\<lambda>c. c \<in> set cs) (rev s) @ dropWhile (\<lambda>c. c \<in> set cs) (rev s)" by simp
  then have "s = trim_right cs s @ rev (takeWhile (\<lambda>c. c \<in> set cs) (rev s))"
    unfolding trim_right_def by (metis rev_append rev_rev_ident)
  then show ?thesis by (fastforce dest: set_takeWhileD)
qed

lemma trim_right_id: "s = [] \<or> last s \<notin> set cs \<Longrightarrow> trim_right cs s = s"
  by (cases s rule: rev_cases) (auto simp: trim_right_def)

lemma trim_right_append_cut: "set z \<subseteq> set cs \<Longrightarrow> trim_right cs (s @ z) = trim_right cs s"
  unfolding trim_right_def rev_append by (subst dropWhile_append2) auto

text \<open>The UTF-8 encodings of the code points with the property White_Space.\<close>

definition space_runes :: "string list" where
  "space_runes =
     [[CHR 0x09], [CHR 0x0A], [CHR 0x0B], [CHR 0x0C], [CHR 0x0D], [CHR '' ''],
      [CHR 0xC2, CHR 0x85], [CHR 0xC2, CHR 0xA0], [CHR 0xE1, CHR 0x9A, CHR 0x80],
      [CHR 0xE2, CHR 0x80, CHR 0x80], [CHR 0xE2, CHR 0x80, CHR 0x81], [CHR 0xE2, CHR 0x80, CHR 0x82],
      [CHR 0xE2, CHR 0x80, CHR 0x83], [CHR 0xE2, CHR 0x80, CHR 0x84], [CHR 0xE2, CHR 0x80, CHR 0x85],
      [CHR 0xE2, CHR 0x80, CHR 0x86], [CHR 0xE2, CHR 0x80, CHR 0x87], [CHR 0xE2, CHR 0x80, CHR 0x88],
      [CHR 0xE2, CHR 0x80, CHR 0x89], [CHR 0xE2, CHR 0x80, CHR 0x8A], [CHR 0xE2, CHR 0x80, CHR 0xA8],
      [CHR 0xE2, CHR 0x80, CHR 0xA9], [CHR 0xE2, CHR 0x80, CHR 0xAF], [CHR 0xE2, CHR 0x81, CHR 0x9F],
      [CHR 0xE3, CHR 0x80, CHR 0x80]]"

text \<open>The first of the given words that starts the string is dropped.\<close>

fun drop_first :: "string list \<Rightarrow> string \<Rightarrow> string option" where
  "drop_first [] s = None"
| "drop_first (w # ws) s = (case strip_prefix w s of Some t \<Rightarrow> Some t | None \<Rightarrow> drop_first ws s)"

lemma drop_first_shorter:
  "[] \<notin> set ws \<Longrightarrow> drop_first ws s = Some t \<Longrightarrow> length t < length s"
  by (induction ws) (auto simp: strip_prefix_Some split: option.splits)

lemma space_runes_nonempty: "[] \<notin> set space_runes" "[] \<notin> set (map rev space_runes)"
  by (simp_all add: space_runes_def)

function trim_words :: "string list \<Rightarrow> string \<Rightarrow> string" where
  "trim_words ws s =
     (if [] \<in> set ws then s
      else case drop_first ws s of Some t \<Rightarrow> trim_words ws t | None \<Rightarrow> s)"
  by pat_completeness auto
termination
  by (relation "measure (\<lambda>(ws, s). length s)") (auto dest: drop_first_shorter)

declare trim_words.simps [simp del]

definition trim_space :: "string \<Rightarrow> string" where
  "trim_space s = rev (trim_words (map rev space_runes) (rev (trim_words space_runes s)))"

text \<open>\<open>strings.Fields\<close>: the maximal runs without white space.\<close>

function fields_from :: "string \<Rightarrow> string \<Rightarrow> string list" where
  "fields_from cur s =
     (case drop_first space_runes s of
        Some t \<Rightarrow> (if cur = [] then fields_from [] t else cur # fields_from [] t)
      | None \<Rightarrow> (case s of [] \<Rightarrow> (if cur = [] then [] else [cur])
                        | x # xs \<Rightarrow> fields_from (cur @ [x]) xs))"
  by pat_completeness auto
termination
  by (relation "measure (\<lambda>(cur, s). length s)")
     (auto dest: drop_first_shorter [OF space_runes_nonempty(1)])

declare fields_from.simps [simp del]

definition str_fields :: "string \<Rightarrow> string list" where
  "str_fields s = fields_from [] s"

definition to_upper :: "string \<Rightarrow> string" where
  "to_upper s = map (\<lambda>c. if is_lower c then char_of ((of_char c :: nat) - 32) else c) s"

section \<open>Printable words\<close>

text \<open>Printable ASCII without the blank: no rune of \<open>space_runes\<close> starts or ends there.\<close>

definition plain_char :: "char \<Rightarrow> bool" where
  "plain_char c \<longleftrightarrow> 33 \<le> (of_char c :: nat) \<and> (of_char c :: nat) \<le> 126"

definition plain_word :: "string \<Rightarrow> bool" where
  "plain_word w \<longleftrightarrow> w \<noteq> [] \<and> list_all plain_char w"

lemma plain_char_neq: "plain_char c \<Longrightarrow> \<not> plain_char d \<Longrightarrow> d \<noteq> c \<and> c \<noteq> d"
  by auto

lemma not_plain_space [simp]:
  "\<not> plain_char (CHR 0x09)" "\<not> plain_char (CHR 0x0A)" "\<not> plain_char (CHR 0x0D)" "\<not> plain_char (CHR '' '')"
  by (simp_all add: plain_char_def)

lemma drop_first_no_start:
  "\<forall>w \<in> set ws. w \<noteq> [] \<and> hd w \<noteq> c \<Longrightarrow> drop_first ws (c # s) = None"
  by (induction ws) (auto simp: neq_Nil_conv split: option.splits)

lemma space_runes_hd_not_plain: "w \<in> set space_runes \<Longrightarrow> w \<noteq> [] \<and> \<not> plain_char (hd w)"
  by (auto simp: space_runes_def plain_char_def)

lemma space_runes_last_not_plain: "w \<in> set (map rev space_runes) \<Longrightarrow> w \<noteq> [] \<and> \<not> plain_char (hd w)"
  by (auto simp: space_runes_def plain_char_def)

lemma drop_first_plain [simp]:
  assumes "plain_char c"
  shows "drop_first space_runes (c # s) = None" "drop_first (map rev space_runes) (c # s) = None"
  by (rule drop_first_no_start, use assms space_runes_hd_not_plain in blast)
     (rule drop_first_no_start, use assms space_runes_last_not_plain in blast)

lemma strip_prefix_Nil_right [simp]: "w \<noteq> [] \<Longrightarrow> strip_prefix w [] = None"
  by (cases w) auto

lemma drop_first_Nil [simp]: "[] \<notin> set ws \<Longrightarrow> drop_first ws [] = None"
  by (induction ws) auto

lemma drop_first_blank [simp]: "drop_first space_runes (CHR '' '' # s) = Some s"
  by (simp add: space_runes_def)

lemma trim_space_plain_ends:
  assumes "s \<noteq> []" and "plain_char (hd s)" and "plain_char (last s)"
  shows "trim_space s = s"
proof -
  obtain c cs where s: "s = c # cs" using assms(1) by (cases s) auto
  have "trim_words space_runes s = s"
    using assms(2) by (simp add: s trim_words.simps [of space_runes])
  moreover obtain d ds where r: "rev s = d # ds" and "plain_char d"
    using assms(1,3) by (metis hd_rev list.collapse rev_is_Nil_conv)
  moreover from r have "rev (d # ds) = s" by (metis rev_rev_ident)
  ultimately show ?thesis
    by (simp add: trim_space_def r trim_words.simps [of "map rev space_runes"])
qed

lemma drop_first_blank_rev:
  "drop_first space_runes (CHR 0x0A # s) = Some s" "drop_first (map rev space_runes) (CHR '' '' # s) = Some s"
  "drop_first (map rev space_runes) (CHR 0x0A # s) = Some s"
  by (simp_all add: space_runes_def)

lemma trim_words_blanks:
  assumes "ws = space_runes \<or> ws = map rev space_runes" and "set p \<subseteq> {CHR '' '', CHR 0x0A}"
  shows "trim_words ws (p @ s) = trim_words ws s"
  using assms(2)
proof (induction p)
  case (Cons c p)
  then have "drop_first ws (c # p @ s) = Some (p @ s)" using assms(1) drop_first_blank_rev by auto
  moreover have "[] \<notin> set ws" using assms(1) space_runes_nonempty by auto
  ultimately show ?case using Cons by (subst trim_words.simps) simp
qed simp

text \<open>Blank lines and indentation around a text are trimmed, and nothing else.\<close>

lemma trim_space_blanks:
  assumes "s \<noteq> []" and "plain_char (hd s)" and "plain_char (last s)"
    and "set p \<subseteq> {CHR '' '', CHR 0x0A}" and "set q \<subseteq> {CHR '' '', CHR 0x0A}"
  shows "trim_space (p @ s @ q) = s"
proof -
  obtain c cs where s: "s = c # cs" using assms(1) by (cases s) auto
  have "trim_words space_runes (s @ q) = s @ q"
    using assms(2) by (simp add: s trim_words.simps [of space_runes])
  then have "trim_words space_runes (p @ s @ q) = s @ q" using assms(4) by (simp add: trim_words_blanks)
  moreover obtain d ds where r: "rev s = d # ds" and "plain_char d"
    using assms(1,3) by (metis hd_rev list.collapse rev_is_Nil_conv)
  moreover from r have "rev (d # ds) = s" by (metis rev_rev_ident)
  moreover have "trim_words (map rev space_runes) (rev q @ d # ds) = d # ds"
  proof -
    have "trim_words (map rev space_runes) (rev q @ d # ds) = trim_words (map rev space_runes) (d # ds)"
      using assms(5) by (intro trim_words_blanks) simp_all
    also have "\<dots> = d # ds" using \<open>plain_char d\<close> by (simp add: trim_words.simps [of "map rev space_runes"])
    finally show ?thesis .
  qed
  ultimately show ?thesis by (simp add: trim_space_def r)
qed

lemma trim_space_Nil [simp]: "trim_space [] = []"
  by (simp add: trim_space_def trim_words.simps space_runes_nonempty)

lemma fields_from_plain:
  "list_all plain_char w \<Longrightarrow> fields_from cur (w @ s) = fields_from (cur @ w) s"
proof (induction w arbitrary: cur)
  case (Cons c w)
  then show ?case by (subst fields_from.simps) simp
qed simp

lemma fields_from_Nil [simp]: "fields_from cur [] = (if cur = [] then [] else [cur])"
  by (subst fields_from.simps) (simp add: space_runes_nonempty)

lemma fields_from_blank: "fields_from cur (CHR '' '' # s) = (if cur = [] then [] else [cur]) @ fields_from [] s"
  by (subst fields_from.simps) simp

lemma str_fields_words [go_strings]:
  "list_all plain_word ws \<Longrightarrow> str_fields (join_with '' '' ws) = ws"
proof (induction ws)
  case (Cons l ls)
  then have l: "list_all plain_char l" "l \<noteq> []" by (auto simp: plain_word_def)
  show ?case
  proof (cases ls)
    case Nil
    with l show ?thesis using fields_from_plain [of l "[]" "[]"] by (simp add: str_fields_def)
  next
    case (Cons l' ls')
    have "fields_from [] (l @ CHR '' '' # s) = l # fields_from [] s" for s
      using l by (simp add: fields_from_plain fields_from_blank)
    with Cons Cons.IH Cons.prems show ?thesis by (simp add: str_fields_def)
  qed
qed (simp add: str_fields_def)

section \<open>Decimal numbers\<close>

definition digit_char :: "nat \<Rightarrow> char" where
  "digit_char d = char_of (48 + d)"

definition digit_val :: "char \<Rightarrow> nat" where
  "digit_val c = of_char c - 48"

fun show_nat :: "nat \<Rightarrow> string" where
  "show_nat n = (if n < 10 then [digit_char n] else show_nat (n div 10) @ [digit_char (n mod 10)])"

declare show_nat.simps [simp del]

text \<open>\<open>strconv.Itoa\<close> and the verb \<open>%d\<close>.\<close>

definition show_int :: "int \<Rightarrow> string" where
  "show_int i = (if i < 0 then ''-'' @ show_nat (nat (- i)) else show_nat (nat i))"

definition itoa :: "i64 \<Rightarrow> string" where
  "itoa w = show_int (sint w)"

definition dec_val :: "string \<Rightarrow> nat" where
  "dec_val s = foldl (\<lambda>n c. 10 * n + digit_val c) 0 s"

text \<open>
  \<open>strconv.Atoi\<close> on a string of digits, its error ignored: a number that does not fit is
  clamped to the largest \<open>int\<close>.
\<close>

definition atoi_digits :: "string \<Rightarrow> i64" where
  "atoi_digits s = word_of_int (min (int (dec_val s)) i64_max)"

lemma digit_char_props [simp]:
  "d < 10 \<Longrightarrow> is_digit (digit_char d)" "d < 10 \<Longrightarrow> digit_val (digit_char d) = d"
  by (simp_all add: is_digit_def digit_char_def digit_val_def)

lemma show_nat_digits: "list_all is_digit (show_nat n)"
proof (induction n rule: show_nat.induct)
  case (1 n)
  then show ?case by (subst show_nat.simps) simp
qed

lemma show_nat_nonempty [simp]: "show_nat n \<noteq> []"
  by (subst show_nat.simps) simp

lemma dec_val_show_nat [simp]: "dec_val (show_nat n) = n"
proof (induction n rule: show_nat.induct)
  case (1 n)
  then show ?case by (subst show_nat.simps) (simp add: dec_val_def)
qed

lemma atoi_show_nat [go_strings]: "int n \<le> i64_max \<Longrightarrow> atoi_digits (show_nat n) = word_of_int (int n)"
  by (simp add: atoi_digits_def)

lemma is_digit_plain: "is_digit c \<Longrightarrow> plain_char c"
  by (simp add: is_digit_def plain_char_def)

lemma plain_word_show_nat [simp]: "plain_word (show_nat n)"
  using show_nat_digits [of n] by (auto simp: plain_word_def list_all_iff is_digit_plain)

lemma plain_word_show_int [simp]: "plain_word (show_int i)"
  using plain_word_show_nat by (auto simp: show_int_def plain_word_def) (simp add: plain_char_def)

lemma plain_word_itoa [simp]: "plain_word (itoa w)"
  by (simp add: itoa_def)

end
