(* ===== verification/Go_Regexp.thy ===== *)
theory Go_Regexp
  imports Go_Strings
begin

text \<open>
  Go's \<open>regexp\<close> package for the patterns of the prober: literals, character classes, greedy
  repetition of a class, sequence, alternative, capture groups and the end anchor.  A match is
  leftmost-first: the leftmost position where the pattern matches, and there the first match in the
  priority order of a backtracking search.  \<open>rx_run r s\<close> lists the matches of \<open>r\<close> at the start of
  \<open>s\<close> in that order, each as the captured texts and the rest of \<open>s\<close>.

  The classes of the patterns contain either ASCII characters only or every character outside
  ASCII, so matching bytes is matching runes.
\<close>

named_theorems rx_mem \<open>the set of matches of a pattern\<close>
named_theorems rx_greedy \<open>the preferred match of a pattern\<close>

datatype rx =
    Lit string
  | Cls "char \<Rightarrow> bool"
  | Many "char \<Rightarrow> bool"
  | Seq rx rx
  | Alt rx rx
  | Cap rx
  | Emp
  | Eot

type_synonym rx_match = "string list \<times> string"

abbreviation Plus :: "(char \<Rightarrow> bool) \<Rightarrow> rx" where "Plus p \<equiv> Seq (Cls p) (Many p)"
abbreviation Opt :: "(char \<Rightarrow> bool) \<Rightarrow> rx" where "Opt p \<equiv> Alt (Cls p) Emp"

fun rx_seq :: "rx list \<Rightarrow> rx" where
  "rx_seq [] = Emp"
| "rx_seq [r] = r"
| "rx_seq (r # rs) = Seq r (rx_seq rs)"

text \<open>The rests after matching \<open>p*\<close>, the longest match first.\<close>

fun many_rests :: "(char \<Rightarrow> bool) \<Rightarrow> string \<Rightarrow> string list" where
  "many_rests p [] = [[]]"
| "many_rests p (x # xs) = (if p x then many_rests p xs @ [x # xs] else [x # xs])"

fun rx_run :: "rx \<Rightarrow> string \<Rightarrow> rx_match list" where
  "rx_run (Lit w) s = (case strip_prefix w s of None \<Rightarrow> [] | Some t \<Rightarrow> [([], t)])"
| "rx_run (Cls p) s = (case s of [] \<Rightarrow> [] | x # xs \<Rightarrow> if p x then [([], xs)] else [])"
| "rx_run (Many p) s = map (Pair []) (many_rests p s)"
| "rx_run (Seq a b) s =
     concat (map (\<lambda>(cs, t). map (\<lambda>(ds, u). (cs @ ds, u)) (rx_run b t)) (rx_run a s))"
| "rx_run (Alt a b) s = rx_run a s @ rx_run b s"
| "rx_run (Cap r) s = map (\<lambda>(cs, t). (take (length s - length t) s # cs, t)) (rx_run r s)"
| "rx_run Emp s = [([], s)]"
| "rx_run Eot s = (if s = [] then [([], [])] else [])"

definition rx_first :: "rx \<Rightarrow> string \<Rightarrow> rx_match option" where
  "rx_first r s = (case rx_run r s of [] \<Rightarrow> None | m # _ \<Rightarrow> Some m)"

text \<open>The leftmost match: the text before it, its captures, the text after it.\<close>

fun rx_find :: "rx \<Rightarrow> string \<Rightarrow> (string \<times> string list \<times> string) option" where
  "rx_find r [] = map_option (\<lambda>(cs, t). ([], cs, t)) (rx_first r [])"
| "rx_find r (x # xs) =
     (case rx_first r (x # xs) of
        Some (cs, t) \<Rightarrow> Some ([], cs, t)
      | None \<Rightarrow> map_option (\<lambda>(p, m). (x # p, m)) (rx_find r xs))"

text \<open>
  \<open>FindAllStringSubmatch(s, -1)\<close> and \<open>ReplaceAllString(s, "")\<close> for patterns that do not match the
  empty string: successive leftmost matches, each search starting where the last match ended.
\<close>

function rx_find_all :: "rx \<Rightarrow> string \<Rightarrow> string list list" where
  "rx_find_all r s =
     (case rx_find r s of
        None \<Rightarrow> []
      | Some (p, cs, t) \<Rightarrow> if length t < length s then cs # rx_find_all r t else [cs])"
  by pat_completeness auto
termination
  by (relation "measure (\<lambda>(r, s). length s)") auto

function rx_delete_all :: "rx \<Rightarrow> string \<Rightarrow> string" where
  "rx_delete_all r s =
     (case rx_find r s of
        None \<Rightarrow> s
      | Some (p, cs, t) \<Rightarrow> if length t < length s then p @ rx_delete_all r t else s)"
  by pat_completeness auto
termination
  by (relation "measure (\<lambda>(r, s). length s)") auto

declare rx_find_all.simps [simp del] rx_delete_all.simps [simp del]

section \<open>The set of matches\<close>

lemma many_rests_suffix: "t \<in> set (many_rests p s) \<Longrightarrow> \<exists>w. list_all p w \<and> s = w @ t"
proof (induction s)
  case (Cons x xs)
  then consider "p x" "t \<in> set (many_rests p xs)" | "t = x # xs" by (auto split: if_splits)
  then show ?case
  proof cases
    case 1
    with Cons.IH obtain w where "list_all p w" "xs = w @ t" by blast
    with 1 show ?thesis by (intro exI [of _ "x # w"]) simp
  qed (auto intro: exI [of _ "[]"])
qed simp

lemma many_rests_append: "list_all p w \<Longrightarrow> t \<in> set (many_rests p (w @ t))"
  by (induction w) (auto, cases t, auto)

lemma mem_many_rests: "t \<in> set (many_rests p s) \<longleftrightarrow> (\<exists>w. list_all p w \<and> s = w @ t)"
  using many_rests_suffix many_rests_append by blast

lemma mem_Lit [rx_mem]: "(cs, t) \<in> set (rx_run (Lit w) s) \<longleftrightarrow> cs = [] \<and> s = w @ t"
  by (cases "strip_prefix w s") (auto simp: strip_prefix_Some)

lemma mem_Cls [rx_mem]: "(cs, t) \<in> set (rx_run (Cls p) s) \<longleftrightarrow> cs = [] \<and> (\<exists>c. p c \<and> s = c # t)"
  by (auto split: list.splits)

lemma mem_Many [rx_mem]:
  "(cs, t) \<in> set (rx_run (Many p) s) \<longleftrightarrow> cs = [] \<and> (\<exists>w. list_all p w \<and> s = w @ t)"
  by (auto simp: mem_many_rests)

lemma mem_Seq [rx_mem]:
  "(cs, t) \<in> set (rx_run (Seq a b) s) \<longleftrightarrow>
     (\<exists>as bs u. cs = as @ bs \<and> (as, u) \<in> set (rx_run a s) \<and> (bs, t) \<in> set (rx_run b u))"
  by force

lemma mem_Alt [rx_mem]:
  "(cs, t) \<in> set (rx_run (Alt a b) s) \<longleftrightarrow> (cs, t) \<in> set (rx_run a s) \<or> (cs, t) \<in> set (rx_run b s)"
  by simp

lemma mem_Cap_raw:
  "(cs, t) \<in> set (rx_run (Cap r) s) \<longleftrightarrow>
     (\<exists>ds. cs = take (length s - length t) s # ds \<and> (ds, t) \<in> set (rx_run r s))"
  (is "_ \<longleftrightarrow> (\<exists>ds. _ \<and> _ \<in> ?A)")
proof -
  have "(cs, t) \<in> (\<lambda>(ds, u). (take (length s - length u) s # ds, u)) ` ?A \<longleftrightarrow>
        (\<exists>(ds, u) \<in> ?A. cs = take (length s - length u) s # ds \<and> t = u)"
    unfolding image_iff by (rule bex_cong [OF refl]) auto
  then show ?thesis by (simp add: Bex_def split_beta) blast
qed

lemma rx_run_suffix: "(cs, t) \<in> set (rx_run r s) \<Longrightarrow> \<exists>w. s = w @ t"
proof (induction r arbitrary: s cs t)
  case (Seq a b)
  then obtain as bs u where "(as, u) \<in> set (rx_run a s)" "(bs, t) \<in> set (rx_run b u)"
    by (auto simp only: mem_Seq)
  with Seq.IH show ?case by (metis append.assoc)
next
  case (Cap r)
  then show ?case by (auto simp only: mem_Cap_raw)
next
  case (Lit w)
  then show ?case by (auto simp only: mem_Lit)
qed (auto simp: mem_many_rests split: list.splits if_splits)

lemma mem_Cap [rx_mem]:
  "(cs, t) \<in> set (rx_run (Cap r) s) \<longleftrightarrow>
     (\<exists>w ds. cs = w # ds \<and> s = w @ t \<and> (ds, t) \<in> set (rx_run r s))"
  (is "?l \<longleftrightarrow> ?r")
proof
  assume ?l
  then obtain ds where ds: "cs = take (length s - length t) s # ds" "(ds, t) \<in> set (rx_run r s)"
    unfolding mem_Cap_raw by blast
  then obtain w where "s = w @ t" using rx_run_suffix by blast
  with ds show ?r by simp
next
  assume ?r
  then show ?l unfolding mem_Cap_raw by auto
qed

lemma mem_Emp [rx_mem]: "(cs, t) \<in> set (rx_run Emp s) \<longleftrightarrow> cs = [] \<and> t = s"
  by auto

lemma mem_Eot [rx_mem]: "(cs, t) \<in> set (rx_run Eot s) \<longleftrightarrow> cs = [] \<and> t = [] \<and> s = []"
  by auto

lemma mem_Plus:
  "(cs, t) \<in> set (rx_run (Plus p) s) \<longleftrightarrow> cs = [] \<and> (\<exists>w. w \<noteq> [] \<and> list_all p w \<and> s = w @ t)"
  (is "_ \<longleftrightarrow> ?r")
proof
  assume "(cs, t) \<in> set (rx_run (Plus p) s)"
  then show ?r unfolding mem_Seq mem_Cls mem_Many
    by (metis append_Cons append_Nil list.distinct(1) list.pred_inject(2))
next
  assume ?r
  then show "(cs, t) \<in> set (rx_run (Plus p) s)" unfolding mem_Seq mem_Cls mem_Many
    by (auto simp: neq_Nil_conv)
qed

text \<open>A sequence that starts with a literal, a repetition or a captured repetition.\<close>

lemma mem_Lit_Seq [rx_mem]:
  "(cs, t) \<in> set (rx_run (Seq (Lit w) b) s) \<longleftrightarrow> (\<exists>u. s = w @ u \<and> (cs, t) \<in> set (rx_run b u))"
  unfolding mem_Seq mem_Lit by auto

lemma mem_Many_Seq [rx_mem]:
  "(cs, t) \<in> set (rx_run (Seq (Many p) b) s) \<longleftrightarrow>
     (\<exists>w u. list_all p w \<and> s = w @ u \<and> (cs, t) \<in> set (rx_run b u))"
  unfolding mem_Seq mem_Many by auto

lemma mem_Plus_Seq [rx_mem]:
  "(cs, t) \<in> set (rx_run (Seq (Plus p) b) s) \<longleftrightarrow>
     (\<exists>w u. w \<noteq> [] \<and> list_all p w \<and> s = w @ u \<and> (cs, t) \<in> set (rx_run b u))"
  unfolding mem_Seq [of _ _ "Plus p"] mem_Plus by auto

lemma mem_Cap_Plus_Seq [rx_mem]:
  "(cs, t) \<in> set (rx_run (Seq (Cap (Plus p)) b) s) \<longleftrightarrow>
     (\<exists>w u ds. cs = w # ds \<and> w \<noteq> [] \<and> list_all p w \<and> s = w @ u \<and> (ds, t) \<in> set (rx_run b u))"
  (is "?l \<longleftrightarrow> ?r")
proof
  assume ?l
  then show ?r unfolding mem_Seq [of _ _ "Cap (Plus p)"] mem_Cap mem_Plus by auto
next
  assume ?r
  then obtain w u ds where m: "cs = [w] @ ds" "w \<noteq> []" "list_all p w" "s = w @ u" "(ds, t) \<in> set (rx_run b u)"
    by auto
  then have "([w], u) \<in> set (rx_run (Cap (Plus p)) s)" unfolding mem_Cap mem_Plus by auto
  with m show ?l unfolding mem_Seq [of _ _ "Cap (Plus p)"] by blast
qed

lemma rx_first_None: "rx_first r s = None \<longleftrightarrow> (\<forall>cs t. (cs, t) \<notin> set (rx_run r s))"
  by (cases "rx_run r s") (auto simp: rx_first_def)

lemma rx_first_mem: "rx_first r s = Some (cs, t) \<Longrightarrow> (cs, t) \<in> set (rx_run r s)"
  by (cases "rx_run r s") (auto simp: rx_first_def)

section \<open>The preferred match\<close>

lemma first_Lit [rx_greedy]: "rx_first (Lit w) (w @ t) = Some ([], t)"
  by (simp add: rx_first_def)

lemma first_Many [rx_greedy]:
  "list_all p w \<Longrightarrow> t = [] \<or> \<not> p (hd t) \<Longrightarrow> rx_first (Many p) (w @ t) = Some ([], t)"
proof (induction w)
  case Nil
  then show ?case by (cases t) (simp_all add: rx_first_def)
next
  case (Cons x w)
  then obtain ts where "many_rests p (w @ t) = t # ts"
    by (cases "many_rests p (w @ t)") (auto simp: rx_first_def)
  with Cons.prems show ?case by (simp add: rx_first_def)
qed

lemma first_Seq [rx_greedy]:
  assumes "rx_first a s = Some (as, u)" and "rx_first b u = Some (bs, t)"
  shows "rx_first (Seq a b) s = Some (as @ bs, t)"
proof -
  obtain ms where "rx_run a s = (as, u) # ms" using assms(1)
    by (cases "rx_run a s") (auto simp: rx_first_def)
  moreover obtain ns where "rx_run b u = (bs, t) # ns" using assms(2)
    by (cases "rx_run b u") (auto simp: rx_first_def)
  ultimately show ?thesis by (simp add: rx_first_def)
qed

lemma first_Cls [rx_greedy]: "p c \<Longrightarrow> rx_first (Cls p) (c # t) = Some ([], t)"
  by (simp add: rx_first_def)

lemma first_Plus [rx_greedy]:
  assumes "w \<noteq> []" "list_all p w" "t = [] \<or> \<not> p (hd t)"
  shows "rx_first (Plus p) (w @ t) = Some ([], t)"
proof -
  obtain c v where "w = c # v" using assms(1) by (cases w) auto
  with assms(2,3) show ?thesis
    using first_Seq [OF first_Cls [of p c "v @ t"] first_Many [of p v t]] by simp
qed

lemma first_Cap [rx_greedy]:
  "rx_first r (w @ t) = Some (cs, t) \<Longrightarrow> rx_first (Cap r) (w @ t) = Some (w # cs, t)"
  by (cases "rx_run r (w @ t)") (auto simp: rx_first_def)

lemma first_Alt1 [rx_greedy]: "rx_first a s = Some m \<Longrightarrow> rx_first (Alt a b) s = Some m"
  by (cases "rx_run a s") (auto simp: rx_first_def)

lemma first_Alt2 [rx_greedy]: "rx_run a s = [] \<Longrightarrow> rx_first (Alt a b) s = rx_first b s"
  by (simp add: rx_first_def)

lemma first_Lit_Seq [rx_greedy]:
  "rx_first b t = Some m \<Longrightarrow> rx_first (Seq (Lit w) b) (w @ t) = Some m"
  by (cases m) (use first_Seq [OF first_Lit [of w t]] in fastforce)

lemma first_Many_Seq [rx_greedy]:
  "list_all p w \<Longrightarrow> t = [] \<or> \<not> p (hd t) \<Longrightarrow> rx_first b t = Some m \<Longrightarrow>
   rx_first (Seq (Many p) b) (w @ t) = Some m"
  by (cases m) (use first_Seq [OF first_Many [of p w t]] in fastforce)

lemma first_Plus_Seq [rx_greedy]:
  "w \<noteq> [] \<Longrightarrow> list_all p w \<Longrightarrow> t = [] \<or> \<not> p (hd t) \<Longrightarrow> rx_first b t = Some m \<Longrightarrow>
   rx_first (Seq (Plus p) b) (w @ t) = Some m"
  by (cases m) (use first_Seq [OF first_Plus [of w p t]] in fastforce)

lemma first_Cap_Plus_Seq [rx_greedy]:
  "w \<noteq> [] \<Longrightarrow> list_all p w \<Longrightarrow> t = [] \<or> \<not> p (hd t) \<Longrightarrow> rx_first b t = Some (ds, u) \<Longrightarrow>
   rx_first (Seq (Cap (Plus p)) b) (w @ t) = Some (w # ds, u)"
  using first_Seq [OF first_Cap [OF first_Plus [of w p t]]] by fastforce

section \<open>Leftmost search\<close>

lemma rx_find_here: "rx_first r s = Some (cs, t) \<Longrightarrow> rx_find r s = Some ([], cs, t)"
  by (cases s) auto

lemma rx_find_skip:
  "(\<And>u v. pre = u @ v \<Longrightarrow> v \<noteq> [] \<Longrightarrow> rx_first r (v @ s) = None) \<Longrightarrow>
   rx_find r (pre @ s) = map_option (\<lambda>(p, m). (pre @ p, m)) (rx_find r s)"
proof (induction pre)
  case Nil
  then show ?case by (cases "rx_find r s") auto
next
  case (Cons x pre)
  have "rx_find r (pre @ s) = map_option (\<lambda>(p, m). (pre @ p, m)) (rx_find r s)"
    using Cons.prems [of "x # _"] by (intro Cons.IH) auto
  moreover have "rx_first r (x # pre @ s) = None" using Cons.prems [of "[]" "x # pre"] by simp
  ultimately show ?case by (auto simp: option.map_comp comp_def case_prod_unfold)
qed

lemma rx_find_None_iff: "rx_find r s = None \<longleftrightarrow> (\<forall>u v. s = u @ v \<longrightarrow> rx_first r v = None)"
proof (induction s)
  case (Cons x xs)
  have "(\<forall>u v. x # xs = u @ v \<longrightarrow> rx_first r v = None) \<longleftrightarrow>
        rx_first r (x # xs) = None \<and> (\<forall>u v. xs = u @ v \<longrightarrow> rx_first r v = None)"
    by (auto simp: Cons_eq_append_conv)
  with Cons.IH show ?case by (auto split: option.splits)
qed auto

lemma rx_find_SomeD:
  "rx_find r s = Some (p, cs, t) \<Longrightarrow> \<exists>w. s = p @ w @ t \<and> rx_first r (w @ t) = Some (cs, t)"
proof (induction s arbitrary: p)
  case (Cons x xs)
  show ?case
  proof (cases "rx_first r (x # xs)")
    case None
    with Cons.prems obtain q where q: "p = x # q" "rx_find r xs = Some (q, cs, t)" by auto
    then show ?thesis using Cons.IH [OF q(2)] by auto
  next
    case (Some m)
    with Cons.prems have m: "rx_first r (x # xs) = Some (cs, t)" "p = []" by (auto split: prod.splits)
    then obtain w where "x # xs = w @ t" using rx_run_suffix [OF rx_first_mem [OF m(1)]] by blast
    with m show ?thesis by auto
  qed
next
  case Nil
  then have m: "rx_first r [] = Some (cs, t)" "p = []" by auto
  then show ?case using rx_run_suffix [OF rx_first_mem [OF m(1)]] by simp
qed

text \<open>
  A pattern whose every match starts with the character \<open>c\<close> is not found in text without it.
\<close>

lemma rx_find_skip_char:
  assumes "\<And>x xs. x \<noteq> c \<Longrightarrow> rx_first r (x # xs) = None" and "c \<notin> set pre"
  shows "rx_find r (pre @ s) = map_option (\<lambda>(p, m). (pre @ p, m)) (rx_find r s)"
proof (rule rx_find_skip)
  fix u v assume "pre = u @ v" "v \<noteq> []"
  then show "rx_first r (v @ s) = None" using assms by (cases v) auto
qed

lemma rx_find_all_cons:
  assumes "rx_find r s = Some (p, cs, t)" and "p = [] \<Longrightarrow> t \<noteq> s"
  shows "rx_find_all r s = cs # rx_find_all r t"
proof -
  obtain w where "s = p @ w @ t" using rx_find_SomeD [OF assms(1)] by blast
  with assms(2) have "length t < length s" by (cases p; cases w) auto
  with assms(1) show ?thesis by (subst rx_find_all.simps) simp
qed

lemma rx_find_all_none: "rx_find r s = None \<Longrightarrow> rx_find_all r s = []"
  by (subst rx_find_all.simps) simp

lemma rx_find_all_skip:
  assumes "rx_find r (pre @ s) = map_option (\<lambda>(p, m). (pre @ p, m)) (rx_find r s)"
    and "\<And>p cs t. rx_find r s = Some (p, cs, t) \<Longrightarrow> length t < length s"
  shows "rx_find_all r (pre @ s) = rx_find_all r s"
  using assms by (cases "rx_find r s")
    (auto simp: rx_find_all.simps [of r "pre @ s"] rx_find_all.simps [of r s] dest: assms(2))

lemma rx_delete_all_none: "rx_find r s = None \<Longrightarrow> rx_delete_all r s = s"
  by (subst rx_delete_all.simps) simp

text \<open>Patterns that start with a literal: their matches are not empty.\<close>

lemma first_Lit_shorter: "rx_first (Lit w) s = Some (cs, t) \<Longrightarrow> w \<noteq> [] \<Longrightarrow> length t < length s"
  by (auto dest!: rx_first_mem simp: mem_Lit simp del: rx_run.simps)

lemma rx_run_length: "(cs, t) \<in> set (rx_run r s) \<Longrightarrow> length t \<le> length s"
  by (auto dest: rx_run_suffix)

lemma first_Lit_Seq_shorter:
  assumes "rx_first (Seq (Lit w) b) s = Some (cs, t)" and "w \<noteq> []"
  shows "length t < length s"
proof -
  obtain u where "s = w @ u" "(cs, t) \<in> set (rx_run b u)"
    using rx_first_mem [OF assms(1)] unfolding mem_Lit_Seq by blast
  then have "length t \<le> length u" "s = w @ u" by (simp_all add: rx_run_length)
  with assms(2) show ?thesis by (cases w) auto
qed

lemma rx_find_all_skip_None:
  assumes "\<And>u v. pre = u @ v \<Longrightarrow> v \<noteq> [] \<Longrightarrow> rx_first r (v @ s) = None"
    and "\<And>v cs t. rx_first r v = Some (cs, t) \<Longrightarrow> length t < length v"
  shows "rx_find_all r (pre @ s) = rx_find_all r s"
proof (rule rx_find_all_skip [OF rx_find_skip])
  fix p cs t assume "rx_find r s = Some (p, cs, t)"
  then show "length t < length s" using assms(2) by (fastforce dest: rx_find_SomeD)
qed (rule assms(1))

lemma rx_find_all_here:
  assumes "rx_first r s = Some (cs, t)" and "length t < length s"
  shows "rx_find_all r s = cs # rx_find_all r t"
  using rx_find_all_cons [OF rx_find_here [OF assms(1)]] assms(2) by auto

end
