(* ===== verification/Go_Net.thy ===== *)
theory Go_Net
  imports Go_Strings
begin

text \<open>
  The part of Go's \<open>net\<close> package that the prober uses: \<open>ParseIP\<close>, \<open>IP.To4\<close> and \<open>IP.String\<close>.  An
  address is the list of its bytes: 16, as \<open>ParseIP\<close> returns them (an IPv4 address in its
  IPv4-in-IPv6 form), or the 4 bytes of an IPv4 address, as the resolver may.  \<open>ParseIP\<close> refuses
  zones, so a percent sign makes every text invalid.
\<close>

type_synonym ip = "nat list"

definition is_hex :: "char \<Rightarrow> bool" where
  "is_hex c \<longleftrightarrow> is_digit c \<or> (let n = (of_char c :: nat) in (97 \<le> n \<and> n \<le> 102) \<or> (65 \<le> n \<and> n \<le> 70))"

definition hex_digit_val :: "char \<Rightarrow> nat" where
  "hex_digit_val c =
     (let n = of_char c in if is_digit c then n - 48 else if 97 \<le> n then n - 87 else n - 55)"

definition hex_val :: "string \<Rightarrow> nat" where
  "hex_val s = foldl (\<lambda>n c. 16 * n + hex_digit_val c) 0 s"

section \<open>Parsing\<close>

text \<open>The decimal fields read so far, the value of the current field and its number of digits.\<close>

fun v4_fields :: "nat list \<Rightarrow> nat \<Rightarrow> nat \<Rightarrow> string \<Rightarrow> nat list option" where
  "v4_fields fs val dig [] = (if length fs < 3 then None else Some (fs @ [val]))"
| "v4_fields fs val dig (c # cs) =
     (if is_digit c then
        (if dig = 1 \<and> val = 0 then None
         else let v = 10 * val + digit_val c in
           if 255 < v then None else v4_fields fs v (Suc dig) cs)
      else if c = CHR ''.'' then
        (if dig = 0 \<or> cs = [] then None
         else if length fs = 3 then None
         else v4_fields (fs @ [val]) 0 0 cs)
      else None)"

text \<open>The bytes read so far and the position of the ellipsis among them.\<close>

function v6_loop :: "nat list \<Rightarrow> nat option \<Rightarrow> string \<Rightarrow> (nat list \<times> nat option) option" where
  "v6_loop bs ell s =
     (if 16 \<le> length bs then (if s = [] then Some (bs, ell) else None)
      else let hx = takeWhile is_hex s; bs' = bs @ [hex_val hx div 256, hex_val hx mod 256] in
        if hx = [] \<or> 4 < length hx then None
        else case dropWhile is_hex s of
          [] \<Rightarrow> Some (bs', ell)
        | c # t \<Rightarrow>
            if c = CHR ''.'' then
              (if ell = None \<and> length bs \<noteq> 12 \<or> 16 < length bs + 4 then None
               else map_option (\<lambda>fs. (bs @ fs, ell)) (v4_fields [] 0 0 s))
            else if c \<noteq> CHR '':'' then None
            else case t of
              [] \<Rightarrow> None
            | d # u \<Rightarrow>
                if d = CHR '':'' then
                  (if ell \<noteq> None then None
                   else if u = [] then Some (bs', Some (length bs'))
                   else v6_loop bs' (Some (length bs')) u)
                else v6_loop bs' ell t)"
  by pat_completeness auto
termination
proof (relation "measure (\<lambda>(bs, ell, s). length s)")
  fix bs :: "nat list" and ell :: "nat option" and s hx bs' c t d u
  assume "dropWhile is_hex s = c # t" "t = d # u"
  then have "length (c # t) \<le> length s" by (metis length_dropWhile_le)
  then show "((bs', Some (length bs'), u), (bs, ell, s)) \<in> measure (\<lambda>(bs, ell, s). length s)"
    and "((bs', ell, t), (bs, ell, s)) \<in> measure (\<lambda>(bs, ell, s). length s)"
    using \<open>t = d # u\<close> by simp_all
qed simp

declare v6_loop.simps [simp del]

fun v6_expand :: "nat list \<times> nat option \<Rightarrow> ip option" where
  "v6_expand (bs, ell) =
     (if length bs < 16 then
        (case ell of None \<Rightarrow> None
         | Some e \<Rightarrow> Some (take e bs @ replicate (16 - length bs) 0 @ drop e bs))
      else if ell \<noteq> None then None else Some bs)"

definition parse_ipv6 :: "string \<Rightarrow> ip option" where
  "parse_ipv6 s =
     (if CHR ''%'' \<in> set s then None
      else case strip_prefix ''::'' s of
        Some [] \<Rightarrow> Some (replicate 16 0)
      | Some t \<Rightarrow> Option.bind (v6_loop [] (Some 0) t) v6_expand
      | None \<Rightarrow> Option.bind (v6_loop [] None s) v6_expand)"

definition v4_prefix :: "nat list" where
  "v4_prefix = [0, 0, 0, 0, 0, 0, 0, 0, 0, 0, 255, 255]"

definition parse_ip :: "string \<Rightarrow> ip option" where
  "parse_ip s =
     (case find (\<lambda>c. c \<in> set ''.:%'') s of
        None \<Rightarrow> None
      | Some c \<Rightarrow>
          if c = CHR ''.'' then map_option (\<lambda>fs. v4_prefix @ fs) (v4_fields [] 0 0 s)
          else if c = CHR '':'' then parse_ipv6 s
          else None)"

section \<open>Families and printing\<close>

definition to4 :: "ip \<Rightarrow> nat list option" where
  "to4 a =
     (if length a = 4 then Some a
      else if length a = 16 \<and> take 12 a = v4_prefix then Some (drop 12 a) else None)"

definition hex_char :: "nat \<Rightarrow> char" where
  "hex_char d = char_of (if d < 10 then 48 + d else 87 + d)"

fun show_hex :: "nat \<Rightarrow> string" where
  "show_hex n = (if n < 16 then [hex_char n] else show_hex (n div 16) @ [hex_char (n mod 16)])"

declare show_hex.simps [simp del]

fun groups :: "nat list \<Rightarrow> nat list" where
  "groups (a # b # bs) = (256 * a + b) # groups bs"
| "groups _ = []"

text \<open>The first longest run of at least two zero groups: its start and length, length 0 for none.\<close>

fun zero_run :: "nat \<Rightarrow> nat list \<Rightarrow> nat \<times> nat \<Rightarrow> nat \<times> nat" where
  "zero_run i [] best = best"
| "zero_run i (x # xs) best =
     (let l = length (takeWhile (\<lambda>g. g = 0) (x # xs)) in
      zero_run (Suc i) xs (if 2 \<le> l \<and> snd best < l then (i, l) else best))"

definition v6_string :: "nat list \<Rightarrow> string" where
  "v6_string gs =
     (let (st, len) = zero_run 0 gs (0, 0); colons = join_with '':'' in
      if len = 0 then colons (map show_hex gs)
      else colons (map show_hex (take st gs)) @ ''::'' @ colons (map show_hex (drop (st + len) gs)))"

definition ip_string :: "ip \<Rightarrow> string" where
  "ip_string a =
     (case to4 a of
        Some fs \<Rightarrow> join_with ''.'' (map show_nat fs)
      | None \<Rightarrow> v6_string (groups a))"

text \<open>Evaluating \<open>ParseIP\<close> and \<open>To4\<close> on a literal.\<close>

lemmas parse_ip_eval =
  parse_ip_def parse_ipv6_def v6_loop.simps is_digit_def is_hex_def digit_val_def hex_val_def
  hex_digit_val_def to4_def v4_prefix_def Let_def

section \<open>The characters of an address\<close>

definition ip_char :: "char \<Rightarrow> bool" where
  "ip_char c \<longleftrightarrow> is_hex c \<or> c = CHR ''.'' \<or> c = CHR '':''"

lemma ip_char_plain: "ip_char c \<Longrightarrow> plain_char c"
  by (auto simp: ip_char_def is_hex_def is_digit_def plain_char_def Let_def)

lemma v4_fields_chars: "v4_fields fs val dig s = Some r \<Longrightarrow> list_all ip_char s"
  by (induction fs val dig s rule: v4_fields.induct)
     (auto simp: ip_char_def is_hex_def Let_def split: if_splits)

lemma v4_fields_length: "v4_fields fs val dig s = Some r \<Longrightarrow> length fs \<le> 3 \<Longrightarrow> length r = 4"
  by (induction fs val dig s rule: v4_fields.induct) (auto simp: Let_def split: if_splits)

lemma hex_prefix_chars: "list_all ip_char (takeWhile is_hex s)"
  by (auto simp: list_all_iff ip_char_def dest: set_takeWhileD)

lemma v6_loop_chars: "v6_loop bs ell s = Some r \<Longrightarrow> list_all ip_char s"
proof (induction bs ell s rule: v6_loop.induct)
  case (1 bs ell s)
  define hx where "hx = takeWhile is_hex s"
  have s: "s = hx @ dropWhile is_hex s" by (simp add: hx_def)
  have hx: "list_all ip_char hx" unfolding hx_def by (rule hex_prefix_chars)
  have colon: "ip_char (CHR '':'')" by (simp add: ip_char_def)
  show ?case
  proof (cases "16 \<le> length bs")
    case True
    with "1.prems" show ?thesis by (subst (asm) v6_loop.simps) (simp split: if_splits)
  next
    case False
    note unf = "1.prems" [unfolded v6_loop.simps [of bs ell s] Let_def, folded hx_def]
    show ?thesis
    proof (cases "dropWhile is_hex s")
      case Nil
      with s hx show ?thesis by simp
    next
      case (Cons c t)
      from unf False have ok: "\<not> (hx = [] \<or> 4 < length hx)" by (auto split: if_splits)
      show ?thesis
      proof (cases "c = CHR ''.''")
        case True
        with unf False ok Cons show ?thesis by (auto split: if_splits dest: v4_fields_chars)
      next
        case dot: False
        with unf False ok Cons obtain d u where c: "c = CHR '':''" and t: "t = d # u"
          by (auto split: if_splits list.splits)
        have "list_all ip_char t"
        proof (cases "d = CHR '':''")
          case True
          have "u = [] \<or> list_all ip_char u"
            using "1.IH"(1) [OF False refl refl _ Cons dot _ t True] unf False ok Cons dot c t True
            unfolding hx_def by (auto split: if_splits)
          with t True colon show ?thesis by auto
        next
          case False
          then show ?thesis
            using "1.IH"(2) [OF \<open>\<not> 16 \<le> length bs\<close> refl refl _ Cons dot _ t False] unf
              \<open>\<not> 16 \<le> length bs\<close> ok Cons dot c t unfolding hx_def by (auto split: if_splits)
        qed
        with s hx Cons c colon show ?thesis by (metis list_all_append list.pred_inject(2))
      qed
    qed
  qed
qed

lemma parse_ip_chars: "parse_ip s = Some a \<Longrightarrow> list_all ip_char s \<and> s \<noteq> []"
proof -
  assume a: "parse_ip s = Some a"
  then have "s \<noteq> []" by (auto simp: parse_ip_def)
  moreover have "list_all ip_char s"
  proof (cases "strip_prefix ''::'' s")
    case None
    with a show ?thesis
      by (auto simp: parse_ip_def parse_ipv6_def v4_fields_chars bind_eq_Some_conv v6_loop_chars
               split: option.splits if_splits)
  next
    case (Some t)
    then have s: "s = '':'' @ '':'' @ t" by (simp add: strip_prefix_Some)
    have "list_all ip_char t"
    proof (cases t)
      case (Cons x xs)
      with a s obtain r where "v6_loop [] (Some 0) t = Some r"
        by (auto simp: parse_ip_def parse_ipv6_def bind_eq_Some_conv split: if_splits)
      then show ?thesis by (rule v6_loop_chars)
    qed simp
    with s show ?thesis by (auto simp: ip_char_def)
  qed
  ultimately show ?thesis by simp
qed

lemma parse_ip_plain: "parse_ip s = Some a \<Longrightarrow> plain_word s"
  using parse_ip_chars [of s a] by (auto simp: plain_word_def list_all_iff ip_char_plain)

lemma plain_join:
  "list_all (list_all plain_char) ws \<Longrightarrow> list_all plain_char sep \<Longrightarrow> list_all plain_char (join_with sep ws)"
  by (induction sep ws rule: join_with.induct) auto

lemma show_hex_chars: "list_all plain_char (show_hex n)"
proof (induction n rule: show_hex.induct)
  case (1 n)
  have "plain_char (hex_char d)" if "d < 16" for d
    using that by (auto simp: hex_char_def plain_char_def)
  with 1 show ?case by (subst show_hex.simps) simp
qed

lemma colon_join_plain: "list_all plain_char (join_with '':'' (map show_hex gs))"
  using show_hex_chars
  by (intro plain_join) (auto simp: list_all_iff, simp_all add: plain_char_def)

lemma v6_string_plain: "list_all plain_char (v6_string gs)"
  using colon_join_plain by (simp add: v6_string_def Let_def case_prod_unfold) (simp add: plain_char_def)

lemma ip_string_chars: "list_all plain_char (ip_string a)"
proof (cases "to4 a")
  case (Some fs)
  have "list_all plain_char (join_with ''.'' (map show_nat fs))"
    by (rule plain_join)
       (use plain_word_show_nat in \<open>auto simp: list_all_iff plain_word_def\<close>, simp add: plain_char_def)
  with Some show ?thesis by (simp add: ip_string_def)
qed (simp add: ip_string_def v6_string_plain)

section \<open>The length of an address\<close>

lemma v6_loop_length:
  "v6_loop bs ell s = Some (bs', ell') \<Longrightarrow> even (length bs) \<Longrightarrow> length bs \<le> 16 \<Longrightarrow> length bs' \<le> 16"
proof (induction bs ell s rule: v6_loop.induct)
  case (1 bs ell s)
  have step: "length bs + 2 \<le> 16" if "\<not> 16 \<le> length bs"
    using that "1.prems"(2) by presburger
  show ?case
  proof (cases "16 \<le> length bs")
    case True
    with "1.prems" show ?thesis by (simp add: v6_loop.simps [of bs] split: if_splits)
  next
    case False
    note unf = "1.prems"(1) [unfolded v6_loop.simps [of bs ell s] Let_def]
    show ?thesis
    proof (cases "dropWhile is_hex s")
      case Nil
      show ?thesis using unf [unfolded Nil] False step by (auto split: if_splits)
    next
      case (Cons c t)
      show ?thesis
      proof (cases "c = CHR ''.''")
        case True
        with unf False Cons show ?thesis by (auto split: if_splits dest: v4_fields_length)
      next
        case dot: False
        with unf False Cons obtain d u where c: "c = CHR '':''" "t = d # u" "\<not> (takeWhile is_hex s = [] \<or> 4 < length (takeWhile is_hex s))"
          by (auto split: if_splits list.splits)
        note IH = "1.IH"(1) [OF False refl refl c(3) Cons dot _ c(2)] "1.IH"(2) [OF False refl refl c(3) Cons dot _ c(2)]
        show ?thesis
          using IH unf False Cons dot c step "1.prems"(2) by (auto split: if_splits)
      qed
    qed
  qed
qed

lemma parse_ip_length: "parse_ip s = Some a \<Longrightarrow> length a = 16"
  by (auto simp: parse_ip_def parse_ipv6_def v4_prefix_def bind_eq_Some_conv
        split: option.splits if_splits list.splits dest: v4_fields_length)
     (use v6_loop_length [of "[]"] in fastforce)+

lemma groups_length: "length bs = 16 \<Longrightarrow> groups bs \<noteq> []"
  by (cases bs rule: groups.cases) auto

lemma join_nonempty: "ws \<noteq> [] \<Longrightarrow> hd ws \<noteq> [] \<Longrightarrow> join_with sep ws \<noteq> []"
  by (cases ws; cases "tl ws") auto

lemma show_hex_nonempty [simp]: "show_hex n \<noteq> []"
  by (subst show_hex.simps) simp

lemma ip_string_plain: "length a = 4 \<or> length a = 16 \<Longrightarrow> plain_word (ip_string a)"
proof -
  assume a: "length a = 4 \<or> length a = 16"
  have "ip_string a \<noteq> []"
  proof (cases "to4 a")
    case (Some fs)
    with a have "length fs = 4" by (auto simp: to4_def split: if_splits)
    then have "fs \<noteq> []" by auto
    then have "join_with ''.'' (map show_nat fs) \<noteq> []" by (intro join_nonempty) (simp_all add: hd_map)
    with Some show ?thesis by (simp add: ip_string_def)
  next
    case None
    then have "length a = 16" using a by (auto simp: to4_def)
    then have "groups a \<noteq> []" by (rule groups_length)
    with None show ?thesis by (auto simp: ip_string_def v6_string_def Let_def hd_map join_nonempty split: prod.splits)
  qed
  then show ?thesis using ip_string_chars by (simp add: plain_word_def)
qed

end
