(* ===== verification/Huawei.thy ===== *)
theory Huawei
  imports Go_Regexp
begin

text \<open>
  remote/huawei.go: the ping command for a VRP router, how long it may take, and the reading of
  its output.  An error of \<open>ParseOutput\<close> wraps \<open>ErrParse\<close> and is one of three cases.
\<close>

section \<open>Data\<close>

record job =
  j_target :: string
  j_ipv6 :: bool
  j_source :: string
  j_count :: i64
  j_packet_interval :: duration
  j_timeout :: duration
  j_size :: i64
  j_tos :: u8
  j_vpn_instance :: string

record reply =
  rp_seq :: i64
  rp_rtt :: duration
  rp_ttl :: i64

record result =
  rs_sent :: i64
  rs_replies :: "reply list"
  rs_timeouts :: nat

section \<open>The command\<close>

text \<open>\<open>Duration.Milliseconds\<close>.\<close>

definition milliseconds :: "duration \<Rightarrow> i64" where
  "milliseconds d = quot64 d 1000000"

definition build_command :: "job \<Rightarrow> string" where
  "build_command j =
     (let family = (if j_ipv6 j then ''ping ipv6'' else ''ping'');
          tos_flag = (if j_ipv6 j then ''-tc'' else ''-tos'');
          vpn6 = (if j_vpn_instance j \<noteq> [] \<and> j_ipv6 j
                  then ''vpn-instance '' @ j_vpn_instance j @ '' '' else []);
          vpn4 = (if j_vpn_instance j \<noteq> [] \<and> \<not> j_ipv6 j
                  then ''-vpn-instance '' @ j_vpn_instance j @ '' '' else [])
      in family @ '' '' @ vpn4 @ ''-c '' @ itoa (j_count j) @
         '' -m '' @ itoa (milliseconds (j_packet_interval j)) @
         '' -t '' @ itoa (milliseconds (j_timeout j)) @
         '' -s '' @ itoa (j_size j) @ '' '' @ tos_flag @ '' '' @ show_int (uint (j_tos j)) @
         '' -a '' @ j_source j @ '' '' @ vpn6 @ j_target j)"

definition command_deadline :: "job \<Rightarrow> duration" where
  "command_deadline j = j_count j * (j_timeout j + j_packet_interval j) + 5 * 1000000000"

section \<open>The output\<close>

definition reply_re :: rx where
  "reply_re = rx_seq
     [Lit ''Sequence='', Cap (Plus is_digit), Plus is_space,
      Alt (Lit ''ttl'') (Lit ''hop limit''), Lit ''='', Cap (Plus is_digit), Plus is_space,
      Lit ''time'', Many is_space, Lit ''='', Many is_space, Cap (Plus is_digit),
      Many is_space, Lit ''ms'']"

definition sent_re :: rx where
  "sent_re = rx_seq [Cap (Plus is_digit), Plus is_space, Lit ''packet(s)'', Plus is_space, Lit ''transmitted'']"

definition received_re :: rx where
  "received_re = rx_seq [Cap (Plus is_digit), Plus is_space, Lit ''packet(s)'', Plus is_space, Lit ''received'']"

definition timeout_re :: rx where
  "timeout_re = Lit ''Request time out''"

datatype parse_error =
    NoSentCount string
  | NoReceivedCount string
  | ReplyCountMismatch i64 nat

text \<open>The first line that is not blank, trimmed.\<close>

definition first_line :: "string \<Rightarrow> string" where
  "first_line s =
     (case find (\<lambda>l. l \<noteq> []) (map trim_space (split_on (CHR 0x0A) s)) of
        Some l \<Rightarrow> l
      | None \<Rightarrow> ''(empty output)'')"

definition reply_of :: "string list \<Rightarrow> reply" where
  "reply_of r =
     \<lparr>rp_seq = atoi_digits (r ! 0), rp_rtt = atoi_digits (r ! 2) * 1000000, rp_ttl = atoi_digits (r ! 1)\<rparr>"

definition parse_output :: "string \<Rightarrow> parse_error + result" where
  "parse_output out =
     (case rx_find sent_re out of
        None \<Rightarrow> Inl (NoSentCount (first_line out))
      | Some (_, m, _) \<Rightarrow>
          let replies = map reply_of (rx_find_all reply_re out);
              res = \<lparr>rs_sent = atoi_digits (hd m), rs_replies = replies,
                     rs_timeouts = length (rx_find_all timeout_re out)\<rparr>
          in case rx_find received_re out of
            None \<Rightarrow> Inl (NoReceivedCount (first_line out))
          | Some (_, rm, _) \<Rightarrow>
              let received = atoi_digits (hd rm) in
              if sint received \<noteq> int (length replies)
              then Inl (ReplyCountMismatch received (length replies))
              else Inr res)"

end
