(* ===== verification/Targets.thy ===== *)
theory Targets
  imports Config Huawei
begin

text \<open>
  remote/targets.go and the \<open>Target\<close> of remote/scheduler.go: the resolution of a host, the
  expansion of a target group into one target per host and link, and the credentials of a router.
  DNS and the file system are parameters.
\<close>

section \<open>Targets\<close>

record target =
  t_host :: string
  t_link :: string
  t_interval :: duration
  t_labels :: "(string \<times> string) list"
  t_job :: job
  t_sent :: u64
  t_pending :: bool

text \<open>\<open>Target.AddSent\<close>: the conversion to \<open>uint64\<close> and the addition both wrap.\<close>

definition add_sent :: "target \<Rightarrow> i64 \<Rightarrow> target" where
  "add_sent t n = t\<lparr>t_sent := t_sent t + n\<rparr>"

section \<open>Resolution\<close>

datatype 'e resolve_error = NotIPv4 string | NotIPv6 string | LookupFailed 'e | NoAddress

text \<open>
  \<open>lookup network host\<close> is \<open>net.DefaultResolver.LookupIP\<close>; an empty answer would make the code
  panic, which is the error \<open>NoAddress\<close>.
\<close>

definition resolve :: "(string \<Rightarrow> string \<Rightarrow> 'e + ip list) \<Rightarrow> string \<Rightarrow> string \<Rightarrow> 'e resolve_error + ip" where
  "resolve lookup host network =
     (case parse_ip host of
        Some a \<Rightarrow>
          if network = ''ip4'' \<and> to4 a = None then Inl (NotIPv4 host)
          else if network = ''ip6'' \<and> to4 a \<noteq> None then Inl (NotIPv6 host)
          else Inr a
      | None \<Rightarrow>
          (case lookup network host of
             Inl e \<Rightarrow> Inl (LookupFailed e)
           | Inr ips \<Rightarrow>
               case (if network = ''ip'' then find (\<lambda>a. to4 a \<noteq> None) ips else None) of
                 Some a \<Rightarrow> Inr a
               | None \<Rightarrow> (case ips of [] \<Rightarrow> Inl NoAddress | a # _ \<Rightarrow> Inr a)))"

section \<open>Expansion of a target group\<close>

datatype 'e build_error = ResolveFailed string 'e | NoUsableLink string string

text \<open>The target of one host and link; a link without a source of the host's family has none.\<close>

definition link_target :: "target_group \<Rightarrow> string \<Rightarrow> ip \<Rightarrow> link \<Rightarrow> target option" where
  "link_target tg host a l =
     (let v6 = (to4 a = None); src = (if v6 then ln_source6 l else ln_source l) in
      if src = [] then None
      else Some \<lparr>t_host = host, t_link = ln_name l, t_interval = tg_interval tg, t_labels = tg_labels tg,
        t_job = \<lparr>j_target = ip_string a, j_ipv6 = v6, j_source = src, j_count = tg_count tg,
          j_packet_interval = tg_packet_interval tg, j_timeout = tg_timeout tg, j_size = tg_size tg,
          j_tos = tg_tos tg, j_vpn_instance = ln_vpn_instance l\<rparr>,
        t_sent = 0, t_pending = False\<rparr>)"

definition build_host ::
  "(string \<Rightarrow> string \<Rightarrow> 'e + ip) \<Rightarrow> target_group \<Rightarrow> router \<Rightarrow> target list \<Rightarrow> string
     \<Rightarrow> 'e build_error + target list" where
  "build_host res tg r targets host =
     (case res host (tg_network tg) of
        Inl e \<Rightarrow> Inl (ResolveFailed host e)
      | Inr a \<Rightarrow>
          let targets' = targets @ List.map_filter (link_target tg host a) (select_links r (tg_links tg))
          in if length targets' = length targets then Inl (NoUsableLink host (rt_name r))
             else Inr targets')"

definition build_targets ::
  "target_group \<Rightarrow> router \<Rightarrow> (string \<Rightarrow> string \<Rightarrow> 'e + ip) \<Rightarrow> 'e build_error + target list" where
  "build_targets tg r res = for_each (build_host res tg r) [] (tg_hosts tg)"

section \<open>Credentials\<close>

record ssh_config =
  sh_address :: string
  sh_username :: string
  sh_password :: string
  sh_private_key :: string
  sh_known_hosts_file :: string
  sh_insecure_skip_host_key :: bool
  sh_dial_timeout :: duration

datatype 'e dialer_error = ReadPasswordFile 'e | ReadPrivateKeyFile 'e

text \<open>\<open>NewSSHDialer\<close>: the configuration that the dialer it returns passes to \<open>Dial\<close>.\<close>

definition new_ssh_dialer :: "(string \<Rightarrow> 'e + string) \<Rightarrow> router \<Rightarrow> 'e dialer_error + ssh_config" where
  "new_ssh_dialer read_file r =
     (let cfg = \<lparr>sh_address = rt_address r, sh_username = rt_username r, sh_password = [],
            sh_private_key = [], sh_known_hosts_file = rt_known_hosts r,
            sh_insecure_skip_host_key = rt_insecure_skip_host_key r, sh_dial_timeout = 10 * 1000000000\<rparr>;
          with_key = (\<lambda>cfg. if rt_private_key_file r = [] then Inr cfg
            else case read_file (rt_private_key_file r) of
              Inl e \<Rightarrow> Inl (ReadPrivateKeyFile e)
            | Inr b \<Rightarrow> Inr (cfg\<lparr>sh_private_key := b\<rparr>))
      in if rt_password_file r = [] then with_key cfg
         else case read_file (rt_password_file r) of
           Inl e \<Rightarrow> Inl (ReadPasswordFile e)
         | Inr b \<Rightarrow> with_key (cfg\<lparr>sh_password := trim_right [CHR 0x0D, CHR 0x0A] b\<rparr>))"

end
