(* ===== verification/Collector.thy ===== *)
theory Collector
  imports Targets
begin

text \<open>
  collector.go: the metric vectors, the label values of a series, the recorder of remote results
  and the collector with the handlers it installs on the local pingers.

  The Prometheus client library is outside the model: a vector is a name for the object the
  library made, and every call on it is logged in order with its arguments.  A duration that the
  code passes on as seconds in floating point is logged as the duration; \<open>'f\<close> is the type of
  floating-point numbers.
\<close>

section \<open>Vectors and calls\<close>

datatype family = ResponseDuration | ResponseTtl | Duplicates | RecvErrors | SendErrors | Requests

text \<open>The family of a vector and the number of the object among all that were made.\<close>

type_synonym vec = "family \<times> nat"

datatype 'f call =
    NewVec vec "string list"
  | NewDesc vec "string list"
  | NewHistogram vec "string list" "'f list" 'f
  | Register vec
  | Unregister vec
  | Reset vec
  | Series vec "string list"
  | Observe vec "string list" duration
  | SetGauge vec "string list" i64
  | Increment vec "string list"

text \<open>
  The package variables of collector.go, where \<open>None\<close> is nil, with the calls that were made and the
  rule of the client library for label names, which is a parameter.
\<close>

record 'f metrics =
  mt_valid :: "string \<Rightarrow> bool"
  mt_next :: nat
  mt_ttl :: "vec option"
  mt_duplicates :: "vec option"
  mt_recv_errors :: "vec option"
  mt_send_errors :: "vec option"
  mt_calls :: "'f call list"

definition empty_metrics :: "(string \<Rightarrow> bool) \<Rightarrow> 'f metrics" where
  "empty_metrics valid = \<lparr>mt_valid = valid, mt_next = 0, mt_ttl = None, mt_duplicates = None, mt_recv_errors = None,
     mt_send_errors = None, mt_calls = []\<rparr>"

definition emit :: "'f call list \<Rightarrow> 'f metrics \<Rightarrow> 'f metrics" where
  "emit cs m = m\<lparr>mt_calls := mt_calls m @ cs\<rparr>"

section \<open>Calls that the client library accepts\<close>

text \<open>
  What the library documents.  A metric is registered only while none of its family is, and every
  series is addressed with as many values as its vector has label names; \<open>A\<close> gives the number of
  label names of each vector, \<open>R\<close> the registered ones.
\<close>

fun calls_fit :: "(vec \<rightharpoonup> nat) \<Rightarrow> vec set \<Rightarrow> 'f call list \<Rightarrow> bool" where
  "calls_fit A R [] = True"
| "calls_fit A R (NewVec v ns # cs) = calls_fit (A(v \<mapsto> length ns)) R cs"
| "calls_fit A R (NewDesc v ns # cs) = calls_fit A R cs"
| "calls_fit A R (NewHistogram v ns _ _ # cs) = calls_fit (A(v \<mapsto> length ns)) R cs"
| "calls_fit A R (Register v # cs) \<longleftrightarrow> fst v \<notin> fst ` R \<and> calls_fit A (insert v R) cs"
| "calls_fit A R (Unregister v # cs) = calls_fit A (R - {v}) cs"
| "calls_fit A R (Reset v # cs) \<longleftrightarrow> v \<in> dom A \<and> calls_fit A R cs"
| "calls_fit A R (Series v vals # cs) \<longleftrightarrow> A v = Some (length vals) \<and> calls_fit A R cs"
| "calls_fit A R (Observe v vals _ # cs) \<longleftrightarrow> A v = Some (length vals) \<and> calls_fit A R cs"
| "calls_fit A R (SetGauge v vals _ # cs) \<longleftrightarrow> A v = Some (length vals) \<and> calls_fit A R cs"
| "calls_fit A R (Increment v vals # cs) \<longleftrightarrow> A v = Some (length vals) \<and> calls_fit A R cs"

fun arities :: "(vec \<rightharpoonup> nat) \<Rightarrow> 'f call list \<Rightarrow> (vec \<rightharpoonup> nat)" where
  "arities A [] = A"
| "arities A (NewVec v ns # cs) = arities (A(v \<mapsto> length ns)) cs"
| "arities A (NewHistogram v ns _ _ # cs) = arities (A(v \<mapsto> length ns)) cs"
| "arities A (_ # cs) = arities A cs"

fun registry :: "vec set \<Rightarrow> 'f call list \<Rightarrow> vec set" where
  "registry R [] = R"
| "registry R (Register v # cs) = registry (insert v R) cs"
| "registry R (Unregister v # cs) = registry (R - {v}) cs"
| "registry R (_ # cs) = registry R cs"

text \<open>
  The label names of a family are those of the first metric of it that was registered, for the life
  of the process: unregistering does not free them, and a metric with other label names, in whatever
  order, is refused.  So is one with a name twice or one the library does not allow.  \<open>L\<close> gives the
  label names of each metric that was made, \<open>D\<close> those fixed for a family.
\<close>

definition accepts_labels :: "(string \<Rightarrow> bool) \<Rightarrow> (family \<rightharpoonup> string list) \<Rightarrow> family \<Rightarrow> string list \<Rightarrow> bool" where
  "accepts_labels valid D f ns \<longleftrightarrow>
     distinct ns \<and> list_all valid ns \<and> (case D f of None \<Rightarrow> True | Some old \<Rightarrow> set old = set ns)"

definition fix_labels :: "(vec \<rightharpoonup> string list) \<Rightarrow> (family \<rightharpoonup> string list) \<Rightarrow> vec \<Rightarrow> (family \<rightharpoonup> string list)" where
  "fix_labels L D v = (case D (fst v) of None \<Rightarrow> D(fst v := L v) | Some _ \<Rightarrow> D)"

fun labels_fit ::
  "(string \<Rightarrow> bool) \<Rightarrow> (vec \<rightharpoonup> string list) \<Rightarrow> (family \<rightharpoonup> string list) \<Rightarrow> 'f call list \<Rightarrow> bool" where
  "labels_fit valid L D [] = True"
| "labels_fit valid L D (NewVec v ns # cs) = labels_fit valid (L(v \<mapsto> ns)) D cs"
| "labels_fit valid L D (NewDesc v ns # cs) = labels_fit valid (L(v \<mapsto> ns)) D cs"
| "labels_fit valid L D (NewHistogram v ns _ _ # cs) = labels_fit valid (L(v \<mapsto> ns)) D cs"
| "labels_fit valid L D (Register v # cs) \<longleftrightarrow>
     (case L v of None \<Rightarrow> False | Some ns \<Rightarrow> accepts_labels valid D (fst v) ns) \<and>
     labels_fit valid L (fix_labels L D v) cs"
| "labels_fit valid L D (_ # cs) = labels_fit valid L D cs"

fun made_labels :: "(vec \<rightharpoonup> string list) \<Rightarrow> 'f call list \<Rightarrow> (vec \<rightharpoonup> string list)" where
  "made_labels L [] = L"
| "made_labels L (NewVec v ns # cs) = made_labels (L(v \<mapsto> ns)) cs"
| "made_labels L (NewDesc v ns # cs) = made_labels (L(v \<mapsto> ns)) cs"
| "made_labels L (NewHistogram v ns _ _ # cs) = made_labels (L(v \<mapsto> ns)) cs"
| "made_labels L (_ # cs) = made_labels L cs"

fun fixed_labels ::
  "(vec \<rightharpoonup> string list) \<Rightarrow> (family \<rightharpoonup> string list) \<Rightarrow> 'f call list \<Rightarrow> (family \<rightharpoonup> string list)" where
  "fixed_labels L D [] = D"
| "fixed_labels L D (NewVec v ns # cs) = fixed_labels (L(v \<mapsto> ns)) D cs"
| "fixed_labels L D (NewDesc v ns # cs) = fixed_labels (L(v \<mapsto> ns)) D cs"
| "fixed_labels L D (NewHistogram v ns _ _ # cs) = fixed_labels (L(v \<mapsto> ns)) D cs"
| "fixed_labels L D (Register v # cs) = fixed_labels L (fix_labels L D v) cs"
| "fixed_labels L D (_ # cs) = fixed_labels L D cs"

text \<open>No call was refused.  The code makes calls whose refusal is a panic, so otherwise it panicked.\<close>

definition log_ok :: "'f metrics \<Rightarrow> bool" where
  "log_ok m \<longleftrightarrow>
     calls_fit Map.empty {} (mt_calls m) \<and> labels_fit (mt_valid m) Map.empty Map.empty (mt_calls m)"

section \<open>Making the vectors\<close>

text \<open>\<open>promauto\<close> makes a vector and registers it; \<open>prometheus.New...\<close> only makes it.\<close>

definition unregister_if :: "vec option \<Rightarrow> 'f metrics \<Rightarrow> 'f metrics" where
  "unregister_if v m = (case v of None \<Rightarrow> m | Some v \<Rightarrow> emit [Unregister v] m)"

definition init_metrics ::
  "string list \<Rightarrow> 'f list \<Rightarrow> 'f \<Rightarrow> 'f metrics \<Rightarrow> vec \<times> 'f metrics" where
  "init_metrics label_names buckets factor m =
     (let m = unregister_if (mt_ttl m) m;
          m = unregister_if (mt_duplicates m) m;
          m = unregister_if (mt_recv_errors m) m;
          m = unregister_if (mt_send_errors m) m;
          n = mt_next m;
          ttl = (ResponseTtl, n); dup = (Duplicates, n + 1);
          recv = (RecvErrors, n + 2); send = (SendErrors, n + 3); hist = (ResponseDuration, n + 4);
          m = emit [NewVec ttl label_names, Register ttl] (m\<lparr>mt_ttl := Some ttl\<rparr>);
          m = emit [NewVec dup label_names, Register dup] (m\<lparr>mt_duplicates := Some dup\<rparr>);
          m = emit [NewVec recv [], Register recv] (m\<lparr>mt_recv_errors := Some recv\<rparr>);
          m = emit [NewVec send label_names, Register send] (m\<lparr>mt_send_errors := Some send\<rparr>);
          m = emit [NewHistogram hist label_names buckets factor] (m\<lparr>mt_next := n + 5\<rparr>)
      in (hist, m))"

section \<open>Local probes\<close>

text \<open>What the code sets on and reads from a \<open>probing.Pinger\<close>; the address once it is resolved.\<close>

record pinger =
  pg_addr :: string
  pg_ip :: string
  pg_interval :: duration
  pg_network :: string
  pg_size :: i64
  pg_tos :: u8
  pg_source :: string
  pg_privileged :: bool

record probe =
  pr_pinger :: pinger
  pr_labels :: "(string \<times> string) list"

record packet =
  pk_ip :: string
  pk_rtt :: duration
  pk_ttl :: i64

section \<open>Label values\<close>

definition label_values :: "string list \<Rightarrow> (string \<rightharpoonup> string) \<Rightarrow> (string \<rightharpoonup> string) \<Rightarrow> string list" where
  "label_values names base custom =
     map (\<lambda>k. case base k of Some v \<Rightarrow> v | None \<Rightarrow> (case custom k of Some v \<Rightarrow> v | None \<Rightarrow> [])) names"

definition base_labels :: "string \<Rightarrow> string \<Rightarrow> string \<Rightarrow> u8 \<Rightarrow> string \<Rightarrow> (string \<rightharpoonup> string)" where
  "base_labels ip host source tos link =
     [''ip'' \<mapsto> ip, ''host'' \<mapsto> host, ''source'' \<mapsto> source, ''tos'' \<mapsto> show_int (uint tos), ''link'' \<mapsto> link]"

definition build_label_values :: "string list \<Rightarrow> probe \<Rightarrow> string \<Rightarrow> string list" where
  "build_label_values names pr override =
     (let p = pr_pinger pr; ip = (if override = [] then pg_ip p else override) in
      label_values names (base_labels ip (pg_addr p) (pg_source p) (pg_tos p) []) (map_of (pr_labels pr)))"

definition remote_label_values :: "string list \<Rightarrow> target \<Rightarrow> string list" where
  "remote_label_values names t =
     label_values names
       (base_labels (j_target (t_job t)) (t_host t) (j_source (t_job t)) (j_tos (t_job t)) (t_link t))
       (map_of (t_labels t))"

section \<open>Recording remote results\<close>

record recorder =
  rc_names :: "string list"
  rc_hist :: vec
  rc_ttl :: "vec option"

definition new_remote_recorder :: "string list \<Rightarrow> vec \<Rightarrow> 'f metrics \<Rightarrow> recorder" where
  "new_remote_recorder names hist m = \<lparr>rc_names = names, rc_hist = hist, rc_ttl = mt_ttl m\<rparr>"

text \<open>A call on a nil vector would panic; it is \<open>None\<close>.\<close>

definition record_result :: "recorder \<Rightarrow> target \<Rightarrow> result \<Rightarrow> 'f metrics \<Rightarrow> 'f metrics option" where
  "record_result r t res m =
     (let vals = remote_label_values (rc_names r) t;
          m = emit (map (\<lambda>rep. Observe (rc_hist r) vals (rp_rtt rep)) (rs_replies res)) m;
          n = length (rs_replies res)
      in if 0 < n then
           (case rc_ttl r of
              None \<Rightarrow> None
            | Some ttl \<Rightarrow> Some (emit [SetGauge ttl vals (rp_ttl (rs_replies res ! (n - 1)))] m))
         else Some m)"

section \<open>The collector\<close>

text \<open>
  \<open>cl_id\<close> names the collector object, \<open>cl_hist\<close> is the histogram that the handlers of its probes
  captured.
\<close>

record collector =
  cl_id :: vec
  cl_names :: "string list"
  cl_remote :: "target list"
  cl_probes :: "probe list"
  cl_hist :: vec

text \<open>The handlers read the package variables when they run.\<close>

definition on_recv :: "collector \<Rightarrow> probe \<Rightarrow> packet \<Rightarrow> 'f metrics \<Rightarrow> 'f metrics option" where
  "on_recv c p pkt m =
     (let vals = build_label_values (cl_names c) p (pk_ip pkt);
          m = emit [Observe (cl_hist c) vals (pk_rtt pkt)] m
      in map_option (\<lambda>ttl. emit [SetGauge ttl vals (pk_ttl pkt)] m) (mt_ttl m))"

definition on_duplicate_recv :: "collector \<Rightarrow> probe \<Rightarrow> packet \<Rightarrow> 'f metrics \<Rightarrow> 'f metrics option" where
  "on_duplicate_recv c p pkt m =
     map_option (\<lambda>v. emit [Increment v (build_label_values (cl_names c) p (pk_ip pkt))] m) (mt_duplicates m)"

text \<open>\<open>Some b\<close> is a network error that says whether it is a timeout, \<open>None\<close> any other.\<close>

definition on_recv_error :: "bool option \<Rightarrow> 'f metrics \<Rightarrow> 'f metrics option" where
  "on_recv_error neterr m =
     (if neterr = Some True then Some m
      else map_option (\<lambda>v. emit [Increment v []] m) (mt_recv_errors m))"

definition on_send_error :: "collector \<Rightarrow> probe \<Rightarrow> packet \<Rightarrow> 'f metrics \<Rightarrow> 'f metrics option" where
  "on_send_error c p pkt m =
     map_option (\<lambda>v. emit [Increment v (build_label_values (cl_names c) p (pk_ip pkt))] m) (mt_send_errors m)"

text \<open>\<open>updateProbes\<close>: everything is reset, then every series is made with its initial value.\<close>

definition update_probes :: "string list \<Rightarrow> probe list \<Rightarrow> target list \<Rightarrow> vec \<Rightarrow> 'f metrics \<Rightarrow> 'f metrics option" where
  "update_probes names probes remote hist m =
     (case (mt_duplicates m, mt_ttl m, mt_send_errors m) of
        (Some dup, Some ttl, Some send) \<Rightarrow>
          Some (emit
            ([Reset dup, Reset hist, Reset ttl, Reset send] @
             concat (map (\<lambda>pr. let vals = build_label_values names pr [] in
                 [Series dup vals, Series hist vals, Series ttl vals, Series send vals]) probes) @
             concat (map (\<lambda>t. let vals = remote_label_values names t in
                 [Series hist vals, Series ttl vals]) remote)) m)
      | _ \<Rightarrow> None)"

definition new_collector ::
  "probe list \<Rightarrow> target list \<Rightarrow> string list \<Rightarrow> vec \<Rightarrow> 'f metrics \<Rightarrow> (collector \<times> 'f metrics) option" where
  "new_collector probes remote names hist m =
     (let id = (Requests, mt_next m);
          c = \<lparr>cl_id = id, cl_names = names, cl_remote = remote, cl_probes = probes, cl_hist = hist\<rparr>;
          m = emit [NewDesc id names] (m\<lparr>mt_next := mt_next m + 1\<rparr>)
      in map_option (Pair c) (update_probes names probes remote hist m))"

text \<open>
  \<open>Collect\<close>: one counter per probe and per remote target.  \<open>stats p\<close> is \<open>Statistics\<close> of a pinger,
  its address and the packets it sent; \<open>sent i\<close> is the counter of the \<open>i\<close>-th remote target, which
  the collector shares with the target's scheduler.
\<close>

definition collect ::
  "(pinger \<Rightarrow> string \<times> i64) \<Rightarrow> (nat \<Rightarrow> u64) \<Rightarrow> collector \<Rightarrow> (64 word \<times> string list) list" where
  "collect stats sent c =
     map (\<lambda>pr. let (ip, n) = stats (pr_pinger pr) in (n, build_label_values (cl_names c) pr ip)) (cl_probes c) @
     map (\<lambda>(i, t). (sent i, remote_label_values (cl_names c) t)) (enumerate 0 (cl_remote c))"

definition describe :: "collector \<Rightarrow> string list list" where
  "describe c = [cl_names c]"

end
