(* ===== verification/Runner.thy ===== *)
theory Runner
  imports Targets
begin

text \<open>
  The interface between the scheduler and a router shell (remote/scheduler.go, \<open>Runner\<close>), and
  \<open>runJob\<close>, which runs one ping on it.  The locale \<open>runner\<close> states what the scheduler relies on:
  whether a shell is still usable can be read off the error of \<open>Run\<close>.
\<close>

datatype reason = ReasonConnect | ReasonTimeout | ReasonParse

text \<open>
  What \<open>runJob\<close> does with the answer of \<open>Run\<close>: the error it counts, the result it adds to the
  target and hands to the recorder, and whether the shell can be used again.
\<close>

record job_outcome =
  jo_error :: "reason option"
  jo_result :: "result option"
  jo_reuse :: bool

definition run_job ::
  "('err \<Rightarrow> bool) \<Rightarrow> ('err \<Rightarrow> bool) \<Rightarrow> 'err + string \<Rightarrow> job_outcome" where
  "run_job is_timeout is_closed answer =
     (case answer of
        Inl e \<Rightarrow>
          if is_timeout e
          then \<lparr>jo_error = Some ReasonTimeout, jo_result = None, jo_reuse = \<not> is_closed e\<rparr>
          else \<lparr>jo_error = Some ReasonConnect, jo_result = None, jo_reuse = False\<rparr>
      | Inr out \<Rightarrow>
          (case parse_output out of
             Inl _ \<Rightarrow> \<lparr>jo_error = Some ReasonParse, jo_result = None, jo_reuse = True\<rparr>
           | Inr res \<Rightarrow> \<lparr>jo_error = None, jo_result = Some res, jo_reuse = True\<rparr>))"

lemma run_job_error_xor_result:
  "jo_error (run_job tm cl answer) = None \<longleftrightarrow> jo_result (run_job tm cl answer) \<noteq> None"
  by (auto simp: run_job_def split: sum.splits)

locale runner =
  fixes runs :: "'r \<Rightarrow> string \<Rightarrow> duration \<Rightarrow> 'err + string \<Rightarrow> 'r \<Rightarrow> bool"
    and is_open :: "'r \<Rightarrow> bool"
    and is_timeout :: "'err \<Rightarrow> bool"
    and is_closed :: "'err \<Rightarrow> bool"
  assumes runs_ok: "is_open r \<Longrightarrow> runs r cmd d (Inr out) r' \<Longrightarrow> is_open r'"
    and runs_timeout: "is_open r \<Longrightarrow> runs r cmd d (Inl e) r' \<Longrightarrow> is_timeout e \<Longrightarrow> is_open r' \<longleftrightarrow> \<not> is_closed e"
    and runs_failed: "is_open r \<Longrightarrow> runs r cmd d (Inl e) r' \<Longrightarrow> \<not> is_timeout e \<Longrightarrow> \<not> is_open r'"
    and runs_total: "is_open r \<Longrightarrow> \<exists>answer r'. runs r cmd d answer r'"
begin

lemma reuse_iff_open:
  "is_open r \<Longrightarrow> runs r cmd d answer r' \<Longrightarrow> jo_reuse (run_job is_timeout is_closed answer) \<longleftrightarrow> is_open r'"
proof (cases answer)
  case (Inl e)
  assume r: "is_open r" "runs r cmd d answer r'"
  show ?thesis
    using runs_timeout [OF r(1), of cmd d e r'] runs_failed [OF r(1), of cmd d e r'] r(2) Inl
    by (cases "is_timeout e") (simp_all add: run_job_def)
next
  case (Inr out)
  assume "is_open r" "runs r cmd d answer r'"
  then have "is_open r'" using Inr runs_ok by blast
  with Inr show ?thesis by (simp add: run_job_def split: sum.split)
qed

text \<open>A worker that replaces its shell whenever it is told to never runs a job on a dead one.\<close>

fun serves :: "'r \<Rightarrow> (string \<times> duration) list \<Rightarrow> ('err + string) list \<Rightarrow> 'r \<Rightarrow> bool" where
  "serves r [] [] r' \<longleftrightarrow> r' = r"
| "serves r ((cmd, d) # jobs) (a # as) r' \<longleftrightarrow>
     (\<exists>r1. runs r cmd d a r1 \<and> jo_reuse (run_job is_timeout is_closed a) \<and> serves r1 jobs as r')"
| "serves r _ _ r' \<longleftrightarrow> False"

lemma serves_open: "is_open r \<Longrightarrow> serves r jobs answers r' \<Longrightarrow> is_open r'"
proof (induction r jobs answers r' rule: serves.induct)
  case (2 r cmd d jobs a as r')
  then obtain r1 where "runs r cmd d a r1" "jo_reuse (run_job is_timeout is_closed a)" "serves r1 jobs as r'"
    by auto
  with 2 show ?case using reuse_iff_open by blast
qed auto

end

end
