(* ===== verification/Scheduler.thy ===== *)
theory Scheduler
  imports Runner
begin

text \<open>
  remote/scheduler.go: one goroutine per target that queues it on a timer, and one per session
  that dials the router, takes targets off the queue and pings them.

  The goroutines are program counters in one state, and \<open>step\<close> interleaves their atomic
  operations: a receive, a send, a compare-and-swap, a call of the dialer or of the shell.  Time is
  not in the state: a timer may fire at any step, so every schedule of the clock is covered.  What
  dialing yields and what a shell answers are parameters.
\<close>

section \<open>Metrics\<close>

text \<open>
  The package variables of remote/metrics.go: three vectors that live as long as the program, with
  their names and the names of their labels.
\<close>

datatype remote_vec = SessionsUp | RemoteErrors | JobsSkipped

fun remote_vec_name :: "remote_vec \<Rightarrow> string" where
  "remote_vec_name SessionsUp = ''smokeping_remote_sessions_up''"
| "remote_vec_name RemoteErrors = ''smokeping_remote_errors_total''"
| "remote_vec_name JobsSkipped = ''smokeping_remote_jobs_skipped_total''"

fun remote_vec_labels :: "remote_vec \<Rightarrow> string list" where
  "remote_vec_labels SessionsUp = [''router'']"
| "remote_vec_labels RemoteErrors = [''router'', ''reason'']"
| "remote_vec_labels JobsSkipped = [''router'']"

fun reason_text :: "reason \<Rightarrow> string" where
  "reason_text ReasonConnect = ''connect''"
| "reason_text ReasonTimeout = ''timeout''"
| "reason_text ReasonParse = ''parse''"

section \<open>State\<close>

datatype ctx = NoContext | Active | Cancelled

text \<open>
  The goroutine \<open>schedule\<close> of a target: waiting for its first timer, in \<open>enqueue\<close> before and after
  the compare-and-swap, and in the loop on the ticker.
\<close>

datatype timer = Waiting duration | Firing | Claimed | Ticking | TimerDone

text \<open>
  The goroutine \<open>worker\<close> of a session: dialing, in the pause after a failed dial, in the select on
  the queue, holding a target before the check of the context, in \<open>runJob\<close> during \<open>Run\<close>, at the
  end of \<open>runJob\<close> with its answer, closing a lost shell, and in the deferred close.
\<close>

datatype 'r worker =
    Dialing duration
  | BackingOff duration
  | Idle 'r
  | Dequeued 'r nat
  | Running 'r nat
  | Returning 'r nat bool
  | Dropping 'r
  | Exiting 'r
  | WorkerDone

text \<open>
  The counters are those of remote/metrics.go for this router, counted from the start of this
  scheduler.  \<open>sd_series\<close> lists the calls of \<open>WithLabelValues\<close> on its vectors, each of which makes the
  series if there is none, and \<open>sd_records\<close> the calls of \<open>Recorder.Record\<close>.
\<close>

record 'r sched =
  sd_router :: string
  sd_sessions :: i64
  sd_targets :: "target list"
  sd_cap :: nat
  sd_queue :: "nat list"
  sd_min_backoff :: duration
  sd_max_backoff :: duration
  sd_ctx :: ctx
  sd_workers :: "'r worker list"
  sd_timers :: "timer list"
  sd_up :: int
  sd_errors :: "reason \<Rightarrow> nat"
  sd_skipped :: nat
  sd_series :: "(remote_vec \<times> string list) list"
  sd_records :: "(nat \<times> result) list"

definition new_scheduler :: "string \<Rightarrow> i64 \<Rightarrow> target list \<Rightarrow> 'r sched" where
  "new_scheduler router sessions targets =
     \<lparr>sd_router = router, sd_sessions = sessions, sd_targets = targets,
      sd_cap = max (length targets) 1, sd_queue = [],
      sd_min_backoff = 1000000000, sd_max_backoff = 30 * 1000000000,
      sd_ctx = NoContext, sd_workers = [], sd_timers = [],
      sd_up = 0, sd_errors = (\<lambda>_. 0), sd_skipped = 0, sd_series = [], sd_records = []\<rparr>"

text \<open>The delay of the first ping of target \<open>i\<close> of \<open>n\<close>.\<close>

definition splay_offset :: "duration \<Rightarrow> nat \<Rightarrow> nat \<Rightarrow> duration" where
  "splay_offset interval i n = quot64 (interval * of_nat i) (of_nat n)"

definition start :: "'r sched \<Rightarrow> 'r sched" where
  "start s = s\<lparr>sd_ctx := Active,
     sd_series := sd_series s @ [(SessionsUp, [sd_router s])] @
       map (\<lambda>e. (RemoteErrors, [sd_router s, reason_text e])) [ReasonConnect, ReasonTimeout, ReasonParse] @
       [(JobsSkipped, [sd_router s])],
     sd_workers := sd_workers s @ replicate (nat (sint (sd_sessions s))) (Dialing (sd_min_backoff s)),
     sd_timers := sd_timers s @
       map (\<lambda>(i, t). Waiting (splay_offset (t_interval t) i (length (sd_targets s))))
         (enumerate 0 (sd_targets s))\<rparr>"

text \<open>\<open>Stop\<close> cancels the context if there is one, and returns once every goroutine is done.\<close>

definition cancel :: "'r sched \<Rightarrow> 'r sched" where
  "cancel s = (if sd_ctx s = NoContext then s else s\<lparr>sd_ctx := Cancelled\<rparr>)"

definition stopped :: "'r sched \<Rightarrow> bool" where
  "stopped s \<longleftrightarrow> list_all (\<lambda>w. w = WorkerDone) (sd_workers s) \<and> list_all (\<lambda>t. t = TimerDone) (sd_timers s)"

section \<open>Operations\<close>

definition set_timer :: "nat \<Rightarrow> timer \<Rightarrow> 'r sched \<Rightarrow> 'r sched" where
  "set_timer i p s = s\<lparr>sd_timers := (sd_timers s)[i := p]\<rparr>"

definition set_worker :: "nat \<Rightarrow> 'r worker \<Rightarrow> 'r sched \<Rightarrow> 'r sched" where
  "set_worker w p s = s\<lparr>sd_workers := (sd_workers s)[w := p]\<rparr>"

definition set_pending :: "nat \<Rightarrow> bool \<Rightarrow> 'r sched \<Rightarrow> 'r sched" where
  "set_pending i b s = s\<lparr>sd_targets := (sd_targets s)[i := (sd_targets s ! i)\<lparr>t_pending := b\<rparr>]\<rparr>"

definition count_error :: "reason \<Rightarrow> 'r sched \<Rightarrow> 'r sched" where
  "count_error e s = s\<lparr>sd_errors := (sd_errors s)(e := Suc (sd_errors s e)),
     sd_series := sd_series s @ [(RemoteErrors, [sd_router s, reason_text e])]\<rparr>"

definition count_skip :: "'r sched \<Rightarrow> 'r sched" where
  "count_skip s = s\<lparr>sd_skipped := Suc (sd_skipped s),
     sd_series := sd_series s @ [(JobsSkipped, [sd_router s])]\<rparr>"

definition add_up :: "int \<Rightarrow> 'r sched \<Rightarrow> 'r sched" where
  "add_up k s = s\<lparr>sd_up := sd_up s + k, sd_series := sd_series s @ [(SessionsUp, [sd_router s])]\<rparr>"

text \<open>\<open>enqueue\<close>: the compare-and-swap, then the send that does not block.\<close>

definition enqueue_claim :: "nat \<Rightarrow> 'r sched \<Rightarrow> 'r sched" where
  "enqueue_claim i s =
     (if t_pending (sd_targets s ! i) then set_timer i Ticking (count_skip s)
      else set_timer i Claimed (set_pending i True s))"

definition enqueue_send :: "nat \<Rightarrow> 'r sched \<Rightarrow> 'r sched" where
  "enqueue_send i s =
     set_timer i Ticking
       (if length (sd_queue s) < sd_cap s then s\<lparr>sd_queue := sd_queue s @ [i]\<rparr>
        else count_skip (set_pending i False s))"

text \<open>Go's \<open>min(backoff*2, s.maxBackoff)\<close>.\<close>

definition next_backoff :: "duration \<Rightarrow> duration \<Rightarrow> duration" where
  "next_backoff b mx = (if sint mx < sint (b * 2) then mx else b * 2)"

text \<open>What \<open>runJob\<close> does between the answer of \<open>Run\<close> and its return.\<close>

definition record_outcome :: "nat \<Rightarrow> job_outcome \<Rightarrow> 'r sched \<Rightarrow> 'r sched" where
  "record_outcome i jo s =
     (let s = (case jo_error jo of None \<Rightarrow> s | Some e \<Rightarrow> count_error e s) in
      case jo_result jo of
        None \<Rightarrow> s
      | Some res \<Rightarrow> s\<lparr>sd_targets := (sd_targets s)[i := add_sent (sd_targets s ! i) (rs_sent res)],
                     sd_records := sd_records s @ [(i, res)]\<rparr>)"

section \<open>Steps\<close>

datatype 'e action =
    TimerFires nat | TimerQuits nat | Claims nat | Sends nat
  | DialFails nat | DialOpens nat | BackoffEnds nat | BackoffQuits nat
  | Dequeues nat | IdleQuits nat | Starts nat | DropsTarget nat
  | Answers nat nat "'e + string" | Releases nat | Closes nat | Exits nat
  | Cancels

text \<open>
  \<open>opens r\<close>: dialing may yield the shell \<open>r\<close>.  \<open>runs r cmd d a r'\<close>: on \<open>r\<close>, \<open>Run\<close> may answer \<open>a\<close>
  and leave \<open>r'\<close>.
\<close>

inductive step ::
  "('r \<Rightarrow> bool) \<Rightarrow> ('r \<Rightarrow> string \<Rightarrow> duration \<Rightarrow> 'e + string \<Rightarrow> 'r \<Rightarrow> bool) \<Rightarrow> ('e \<Rightarrow> bool) \<Rightarrow> ('e \<Rightarrow> bool) \<Rightarrow>
   'r sched \<Rightarrow> 'e action \<Rightarrow> 'r sched \<Rightarrow> bool"
  for opens runs is_timeout is_closed where
  first_timer: "step opens runs is_timeout is_closed s (TimerFires i) (set_timer i Firing s)"
    if "i < length (sd_timers s)" "sd_timers s ! i = Waiting d"
| ticker: "step opens runs is_timeout is_closed s (TimerFires i) (set_timer i Firing s)"
    if "i < length (sd_timers s)" "sd_timers s ! i = Ticking"
| first_timer_done: "step opens runs is_timeout is_closed s (TimerQuits i) (set_timer i TimerDone s)"
    if "i < length (sd_timers s)" "sd_timers s ! i = Waiting d" "sd_ctx s = Cancelled"
| ticker_done: "step opens runs is_timeout is_closed s (TimerQuits i) (set_timer i TimerDone s)"
    if "i < length (sd_timers s)" "sd_timers s ! i = Ticking" "sd_ctx s = Cancelled"
| claim: "step opens runs is_timeout is_closed s (Claims i) (enqueue_claim i s)"
    if "i < length (sd_timers s)" "sd_timers s ! i = Firing"
| send: "step opens runs is_timeout is_closed s (Sends i) (enqueue_send i s)"
    if "i < length (sd_timers s)" "sd_timers s ! i = Claimed"
| dial_fails: "step opens runs is_timeout is_closed s (DialFails w)
      (set_worker w (BackingOff b) (count_error ReasonConnect s))"
    if "w < length (sd_workers s)" "sd_workers s ! w = Dialing b"
| dial_opens: "step opens runs is_timeout is_closed s (DialOpens w) (set_worker w (Idle r) (add_up 1 s))"
    if "w < length (sd_workers s)" "sd_workers s ! w = Dialing b" "opens r"
| backoff_ends: "step opens runs is_timeout is_closed s (BackoffEnds w)
      (set_worker w (Dialing (next_backoff b (sd_max_backoff s))) s)"
    if "w < length (sd_workers s)" "sd_workers s ! w = BackingOff b"
| backoff_quits: "step opens runs is_timeout is_closed s (BackoffQuits w) (set_worker w WorkerDone s)"
    if "w < length (sd_workers s)" "sd_workers s ! w = BackingOff b" "sd_ctx s = Cancelled"
| dequeue: "step opens runs is_timeout is_closed s (Dequeues w) (set_worker w (Dequeued r i) (s\<lparr>sd_queue := q\<rparr>))"
    if "w < length (sd_workers s)" "sd_workers s ! w = Idle r" "sd_queue s = i # q"
| idle_quits: "step opens runs is_timeout is_closed s (IdleQuits w) (set_worker w (Exiting r) s)"
    if "w < length (sd_workers s)" "sd_workers s ! w = Idle r" "sd_ctx s = Cancelled"
| job_starts: "step opens runs is_timeout is_closed s (Starts w) (set_worker w (Running r i) s)"
    if "w < length (sd_workers s)" "sd_workers s ! w = Dequeued r i" "sd_ctx s \<noteq> Cancelled"
| job_dropped: "step opens runs is_timeout is_closed s (DropsTarget w)
      (set_worker w (Exiting r) (set_pending i False s))"
    if "w < length (sd_workers s)" "sd_workers s ! w = Dequeued r i" "sd_ctx s = Cancelled"
| job_answers: "step opens runs is_timeout is_closed s (Answers w i a)
      (set_worker w (Returning r' i (jo_reuse (run_job is_timeout is_closed a)))
        (record_outcome i (run_job is_timeout is_closed a) s))"
    if "w < length (sd_workers s)" "sd_workers s ! w = Running r i"
       "runs r (build_command (t_job (sd_targets s ! i))) (command_deadline (t_job (sd_targets s ! i))) a r'"
| job_returns: "step opens runs is_timeout is_closed s (Releases w)
      (set_worker w (if ok then Idle r else Dropping r) (set_pending i False s))"
    if "w < length (sd_workers s)" "sd_workers s ! w = Returning r i ok"
| shell_dropped: "step opens runs is_timeout is_closed s (Closes w)
      (set_worker w (Dialing (sd_min_backoff s)) (add_up (- 1) s))"
    if "w < length (sd_workers s)" "sd_workers s ! w = Dropping r"
| worker_exits: "step opens runs is_timeout is_closed s (Exits w) (set_worker w WorkerDone (add_up (- 1) s))"
    if "w < length (sd_workers s)" "sd_workers s ! w = Exiting r"
| cancelled: "step opens runs is_timeout is_closed s Cancels (cancel s)"

inductive steps ::
  "('r \<Rightarrow> bool) \<Rightarrow> ('r \<Rightarrow> string \<Rightarrow> duration \<Rightarrow> 'e + string \<Rightarrow> 'r \<Rightarrow> bool) \<Rightarrow> ('e \<Rightarrow> bool) \<Rightarrow> ('e \<Rightarrow> bool) \<Rightarrow>
   'r sched \<Rightarrow> 'e action list \<Rightarrow> 'r sched \<Rightarrow> bool"
  for opens runs is_timeout is_closed where
  steps_Nil: "steps opens runs is_timeout is_closed s [] s"
| steps_snoc: "steps opens runs is_timeout is_closed s as s' \<Longrightarrow> step opens runs is_timeout is_closed s' a s'' \<Longrightarrow>
    steps opens runs is_timeout is_closed s (as @ [a]) s''"

end
