(* ===== verification/Session.thy ===== *)
theory Session
  imports Targets
begin

text \<open>
  remote/session.go: the interactive VRP shell that runs one command at a time.

  The ssh library, the router and the clock are the environment of a session: what it sees are
  the results of its receives, as a list of events in the order the session's \<open>select\<close>
  statements take them.  \<open>Chunk\<close> is output of the router, \<open>ChanClosed\<close> the closed channel (it
  stays closed) and \<open>TimerFired\<close> the timer of the current wait.  A wait with no event left is
  still blocked: the result is \<open>None\<close>.  Everything the session does to its environment is logged.
\<close>

section \<open>State and environment\<close>

datatype recv = Chunk string | ChanClosed | TimerFired

datatype effect = Wrote string | StartedTimer duration | ClosedShell

record session =
  ss_buf :: string
  ss_prompt :: string
  ss_closed :: bool
  ss_log :: "effect list"

definition login_timeout :: duration where "login_timeout = 15 * 1000000000"
definition setup_timeout :: duration where "setup_timeout = 10 * 1000000000"
definition ctrl_c_timeout :: duration where "ctrl_c_timeout = 3 * 1000000000"

lemmas timeout_defs = login_timeout_def setup_timeout_def ctrl_c_timeout_def

definition log_effect :: "effect \<Rightarrow> session \<Rightarrow> session" where
  "log_effect e s = s\<lparr>ss_log := ss_log s @ [e]\<rparr>"

text \<open>\<open>Close\<close>, guarded by a \<open>sync.Once\<close>.\<close>

definition close_session :: "session \<Rightarrow> session" where
  "close_session s = (if ss_closed s then s else log_effect ClosedShell (s\<lparr>ss_closed := True\<rparr>))"

text \<open>
  \<open>readLoop\<close>: each read gives bytes and maybe an error; an error ends the loop, which closes the
  channel.  A read loop that has not seen an error yet leaves the channel open.
\<close>

fun read_loop :: "(string \<times> bool) list \<Rightarrow> recv list" where
  "read_loop [] = []"
| "read_loop ((b, failed) # reads) =
     (if b = [] then [] else [Chunk b]) @ (if failed then [ChanClosed] else read_loop reads)"

section \<open>Reading the screen\<close>

definition ansi_param :: "char \<Rightarrow> bool" where
  "ansi_param c \<longleftrightarrow> is_digit c \<or> c = CHR '';'' \<or> c = CHR ''?''"

definition ansi_re :: rx where
  "ansi_re = rx_seq [Lit [CHR 0x1B, CHR ''[''], Many ansi_param, Cls (\<lambda>c. is_upper c \<or> is_lower c)]"

definition prompt_body :: "char \<Rightarrow> bool" where
  "prompt_body c \<longleftrightarrow> \<not> is_space c \<and> c \<notin> set ''<>[]''"

definition prompt_re :: rx where
  "prompt_re = rx_seq
     [Cap (rx_seq [Cls (\<lambda>c. c \<in> set ''<[''), Opt (\<lambda>c. c \<in> set ''~*''), Plus prompt_body,
        Cls (\<lambda>c. c \<in> set ''>]'')]),
      Many is_space, Eot]"

definition screen_text :: "string \<Rightarrow> string" where
  "screen_text b = remove_char (CHR 0x0D) (rx_delete_all ansi_re b)"

abbreviation session_text :: "session \<Rightarrow> string" where
  "session_text s \<equiv> screen_text (ss_buf s)"

datatype login_error = InteractiveQuestion string | ClosedDuringLogin | NoPromptAfterLogin

text \<open>One look of \<open>learnPrompt\<close> at the text: an error, a prompt, or nothing yet.\<close>

definition login_verdict :: "string \<Rightarrow> (login_error + string) option" where
  "login_verdict t =
     (if has_suffix (to_upper (trim_right [CHR '' '', CHR 0x09, CHR 0x0D, CHR 0x0A, CHR '':''] t)) ''[Y/N]''
      then Some (Inl (InteractiveQuestion (trim_space t)))
      else case rx_find prompt_re t of
        None \<Rightarrow> None
      | Some (_, m, _) \<Rightarrow>
          if contains (to_upper (hd m)) ''Y/N'' then Some (Inl (InteractiveQuestion (trim_space t)))
          else Some (Inr (hd m)))"

fun learn_prompt_loop ::
  "session \<Rightarrow> recv list \<Rightarrow> ((login_error + unit) \<times> session \<times> recv list) option" where
  "learn_prompt_loop s evs =
     (case login_verdict (session_text s) of
        Some (Inl e) \<Rightarrow> Some (Inl e, s, evs)
      | Some (Inr p) \<Rightarrow> Some (Inr (), s\<lparr>ss_prompt := p, ss_buf := []\<rparr>, evs)
      | None \<Rightarrow>
          (case evs of
             [] \<Rightarrow> None
           | ChanClosed # _ \<Rightarrow> Some (Inl ClosedDuringLogin, s, evs)
           | TimerFired # rest \<Rightarrow> Some (Inl NoPromptAfterLogin, s, rest)
           | Chunk c # rest \<Rightarrow> learn_prompt_loop (s\<lparr>ss_buf := ss_buf s @ c\<rparr>) rest))"

declare learn_prompt_loop.simps [simp del]

definition learn_prompt ::
  "session \<Rightarrow> recv list \<Rightarrow> ((login_error + unit) \<times> session \<times> recv list) option" where
  "learn_prompt s evs = learn_prompt_loop (log_effect (StartedTimer login_timeout) s) evs"

section \<open>Running a command\<close>

text \<open>
  \<open>drain\<close>: \<open>ready\<close> chunks are in the channel when it looks; it drops them and stops early when
  the channel is closed.
\<close>

fun drop_ready :: "nat \<Rightarrow> recv list \<Rightarrow> recv list" where
  "drop_ready (Suc n) (Chunk c # evs) = drop_ready n evs"
| "drop_ready n evs = evs"

definition drain :: "nat \<Rightarrow> session \<Rightarrow> recv list \<Rightarrow> session \<times> recv list" where
  "drain ready s evs = (s\<lparr>ss_buf := []\<rparr>, drop_ready ready evs)"

datatype wait_error = WaitTimeout | WaitClosed

text \<open>What \<open>waitPrompt\<close> sees in the text: the output before the prompt, once the prompt is back.\<close>

definition prompt_seen :: "string \<Rightarrow> string \<Rightarrow> string \<Rightarrow> string option" where
  "prompt_seen prompt anchor t =
     (case (if anchor = [] then Some t else index_tail t anchor) of
        None \<Rightarrow> None
      | Some search \<Rightarrow>
          let trimmed = trim_right [CHR '' '', CHR 0x0A] search in
          if has_suffix trimmed prompt then Some (trim_suffix trimmed prompt) else None)"

fun wait_prompt_loop ::
  "string \<Rightarrow> session \<Rightarrow> recv list \<Rightarrow> ((wait_error + string) \<times> session \<times> recv list) option" where
  "wait_prompt_loop anchor s evs =
     (case prompt_seen (ss_prompt s) anchor (session_text s) of
        Some out \<Rightarrow> Some (Inr out, s\<lparr>ss_buf := []\<rparr>, evs)
      | None \<Rightarrow>
          (case evs of
             [] \<Rightarrow> None
           | ChanClosed # _ \<Rightarrow> Some (Inl WaitClosed, s, evs)
           | TimerFired # rest \<Rightarrow> Some (Inl WaitTimeout, s, rest)
           | Chunk c # rest \<Rightarrow> wait_prompt_loop anchor (s\<lparr>ss_buf := ss_buf s @ c\<rparr>) rest))"

declare wait_prompt_loop.simps [simp del]

definition wait_prompt ::
  "duration \<Rightarrow> string \<Rightarrow> session \<Rightarrow> recv list \<Rightarrow> ((wait_error + string) \<times> session \<times> recv list) option" where
  "wait_prompt timeout anchor s evs = wait_prompt_loop anchor (log_effect (StartedTimer timeout) s) evs"

definition last_token :: "string \<Rightarrow> string" where
  "last_token cmd = (let fs = str_fields cmd in if fs = [] then cmd else last fs)"

definition clean_output :: "string \<Rightarrow> string \<Rightarrow> string" where
  "clean_output out anchor =
     (let lines = split_on (CHR 0x0A) out;
          lines = (if lines \<noteq> [] \<and> contains (hd lines) anchor then tl lines else lines)
      in trim_space (join_with [CHR 0x0A] lines))"

text \<open>The errors of \<open>Run\<close>, by what they wrap.\<close>

datatype run_error = Timeout | TimeoutClosed | Closed | WriteClosed

fun is_timeout :: "run_error \<Rightarrow> bool" where
  "is_timeout Timeout = True" | "is_timeout TimeoutClosed = True" | "is_timeout _ = False"

fun is_closed :: "run_error \<Rightarrow> bool" where
  "is_closed Timeout = False" | "is_closed _ = True"

definition ctrl_c :: string where "ctrl_c = [CHR 0x03]"

text \<open>
  \<open>Run\<close>: \<open>write_ok\<close> says whether writing the command succeeds, \<open>ready\<close> how many chunks \<open>drain\<close>
  finds.
\<close>

definition run ::
  "bool \<Rightarrow> nat \<Rightarrow> string \<Rightarrow> duration \<Rightarrow> session \<Rightarrow> recv list
     \<Rightarrow> ((run_error + string) \<times> session \<times> recv list) option" where
  "run write_ok ready cmd timeout s evs =
     (let (s1, evs1) = drain ready s evs;
          s2 = log_effect (Wrote (cmd @ [CHR 0x0A])) s1;
          anchor = last_token cmd
      in if \<not> write_ok then Some (Inl WriteClosed, close_session s2, evs1)
         else case wait_prompt timeout anchor s2 evs1 of
           None \<Rightarrow> None
         | Some (Inr out, s3, evs3) \<Rightarrow> Some (Inr (clean_output out anchor), s3, evs3)
         | Some (Inl WaitTimeout, s3, evs3) \<Rightarrow>
             (case wait_prompt ctrl_c_timeout [] (log_effect (Wrote ctrl_c) s3) evs3 of
                None \<Rightarrow> None
              | Some (Inl _, s4, evs4) \<Rightarrow> Some (Inl TimeoutClosed, close_session s4, evs4)
              | Some (Inr _, s4, evs4) \<Rightarrow> Some (Inl Timeout, s4, evs4))
         | Some (Inl WaitClosed, s3, evs3) \<Rightarrow> Some (Inl Closed, close_session s3, evs3))"

section \<open>Logging in\<close>

datatype ('k, 'p) dial_error =
    NoKnownHosts | LoadKnownHosts 'k | ParsePrivateKey 'p | NoCredential
  | DialFailed | HandshakeFailed | OpenSession | OpenPipe | RequestPty | StartShell
  | LoginFailed login_error | DisablePaging run_error

text \<open>The time allowed for the connection, and for the connection and the login together.\<close>

definition dial_timeout :: "ssh_config \<Rightarrow> duration" where
  "dial_timeout cfg = (if sh_dial_timeout cfg = 0 then 10 * 1000000000 else sh_dial_timeout cfg)"

definition handshake_deadline :: "ssh_config \<Rightarrow> duration" where
  "handshake_deadline cfg = dial_timeout cfg + login_timeout"

text \<open>\<open>None\<close> is the callback that accepts every key, \<open>Some cb\<close> the one loaded from the file.\<close>

definition host_key_callback ::
  "(string \<Rightarrow> 'k + 'cb) \<Rightarrow> ssh_config \<Rightarrow> ('k, 'p) dial_error + 'cb option" where
  "host_key_callback known_hosts cfg =
     (if sh_insecure_skip_host_key cfg then Inr None
      else if sh_known_hosts_file cfg = [] then Inl NoKnownHosts
      else case known_hosts (sh_known_hosts_file cfg) of
        Inl e \<Rightarrow> Inl (LoadKnownHosts e)
      | Inr cb \<Rightarrow> Inr (Some cb))"

datatype 's auth_method = PublicKeys 's | Password string | KeyboardInteractive string

definition auth_methods ::
  "(string \<Rightarrow> 'p + 's) \<Rightarrow> ssh_config \<Rightarrow> ('k, 'p) dial_error + 's auth_method list" where
  "auth_methods parse_key cfg =
     (case (if sh_private_key cfg = [] then Inr []
            else case parse_key (sh_private_key cfg) of
              Inl e \<Rightarrow> Inl (ParsePrivateKey e)
            | Inr signer \<Rightarrow> Inr [PublicKeys signer]) of
        Inl e \<Rightarrow> Inl e
      | Inr auth \<Rightarrow>
          let auth = auth @ (if sh_password cfg = [] then []
                else [Password (sh_password cfg), KeyboardInteractive (sh_password cfg)])
          in if auth = [] then Inl NoCredential else Inr auth)"

text \<open>The challenge of the keyboard-interactive method: every question gets the password.\<close>

definition keyboard_answers :: "string \<Rightarrow> string list \<Rightarrow> string list" where
  "keyboard_answers password questions = map (\<lambda>_. password) questions"

text \<open>
  \<open>startShell\<close>: \<open>setup\<close> is the first of its ssh requests that fails, if any.  The paging command
  is written with the given success and number of ready chunks.  A failure after the session
  exists carries the closed session.
\<close>

definition new_session :: session where
  "new_session = \<lparr>ss_buf = [], ss_prompt = [], ss_closed = False, ss_log = []\<rparr>"

type_synonym ('k, 'p) shell_result = "(('k, 'p) dial_error \<times> session option) + session"

definition start_shell ::
  "('k, 'p) dial_error option \<Rightarrow> bool \<Rightarrow> nat \<Rightarrow> recv list \<Rightarrow> (('k, 'p) shell_result \<times> recv list) option" where
  "start_shell setup write_ok ready evs =
     (case setup of
        Some e \<Rightarrow> Some (Inl (e, None), evs)
      | None \<Rightarrow>
          (case learn_prompt new_session evs of
             None \<Rightarrow> None
           | Some (Inl e, s, evs1) \<Rightarrow> Some (Inl (LoginFailed e, Some (close_session s)), evs1)
           | Some (Inr _, s, evs1) \<Rightarrow>
               (case run write_ok ready ''screen-length 0 temporary'' setup_timeout s evs1 of
                  None \<Rightarrow> None
                | Some (Inl e, s', evs2) \<Rightarrow> Some (Inl (DisablePaging e, Some (close_session s')), evs2)
                | Some (Inr _, s', evs2) \<Rightarrow> Some (Inr s', evs2))))"

text \<open>
  What \<open>Dial\<close> does to the connection, in order: it connects, lets a cancelled context close it, sets a
  deadline from now (\<open>None\<close> removes it), shakes hands with the user, the check of the host key (\<open>None\<close> is
  none) and the ways to log in, closes the connection or the client on it, and disarms the context.
\<close>

datatype ('cb, 's) dial_effect =
    Connects string duration
  | Guards
  | SetsDeadline "duration option"
  | Handshakes string "'cb option" "'s auth_method list" duration
  | ClosesConn
  | ClosesClient
  | Disarms

text \<open>
  \<open>Dial\<close>: the checks before the network is touched, then the connection, the handshake and the shell.
  \<open>reachable\<close> and \<open>handshake_ok\<close> say how the first two end; a context that is cancelled meanwhile closes the
  connection, so it is a handshake, a request or a shell that fails.
\<close>

definition dial ::
  "(string \<Rightarrow> 'k + 'cb) \<Rightarrow> (string \<Rightarrow> 'p + 's) \<Rightarrow> bool \<Rightarrow> bool \<Rightarrow> ('k, 'p) dial_error option \<Rightarrow> bool \<Rightarrow> nat
     \<Rightarrow> ssh_config \<Rightarrow> recv list \<Rightarrow> (('k, 'p) shell_result \<times> ('cb, 's) dial_effect list \<times> recv list) option" where
  "dial known_hosts parse_key reachable handshake_ok setup write_ok ready cfg evs =
     (case host_key_callback known_hosts cfg of
        Inl e \<Rightarrow> Some (Inl (e, None), [], evs)
      | Inr cb \<Rightarrow>
          (case auth_methods parse_key cfg of
             Inl e \<Rightarrow> Some (Inl (e, None), [], evs)
           | Inr auth \<Rightarrow>
               let connect = Connects (sh_address cfg) (dial_timeout cfg);
                   shake = [connect, Guards, SetsDeadline (Some (handshake_deadline cfg)),
                     Handshakes (sh_username cfg) cb auth (dial_timeout cfg)]
               in if \<not> reachable then Some (Inl (DialFailed, None), [connect], evs)
                  else if \<not> handshake_ok then Some (Inl (HandshakeFailed, None), shake @ [ClosesConn, Disarms], evs)
                  else case start_shell setup write_ok ready evs of
                    None \<Rightarrow> None
                  | Some (Inl e, evs') \<Rightarrow> Some (Inl e, shake @ [ClosesClient, Disarms], evs')
                  | Some (Inr s, evs') \<Rightarrow> Some (Inr s, shake @ [SetsDeadline None, Disarms], evs')))"

end
