(* ===== verification/Prober.thy ===== *)
theory Prober
  imports Collector Scheduler Session "HOL-Library.List_Lexorder" "HOL-Library.Char_ord"
begin

text \<open>
  main.go: the preparation of local pingers and remote schedulers from a configuration, starting
  and stopping them, and the two sequences that tie everything together: startup and reload.

  The file system, DNS, the pinger library, the clock and what the metrics client allows as a label
  name are the record \<open>env\<close> of one startup or reload.  What the program does to its parts is a log of
  events in program order: the calls on the metrics client, and the starts and stops of pingers and
  schedulers.

  A refused call on the metrics client and a call on a nil vector panic, and no code recovers: the
  process ends.  An operation that panics is \<open>None\<close>.
\<close>

section \<open>Command line\<close>

definition host_list_set :: "string list \<Rightarrow> string \<Rightarrow> string + string list" where
  "host_list_set h value = (if value = [] then Inl value else Inr (h @ [value]))"

definition valid_packet_size :: "i64 \<Rightarrow> bool" where
  "valid_packet_size n \<longleftrightarrow> \<not> (sint n < 24 \<or> 65535 < sint n)"

definition parse_buckets :: "(string \<Rightarrow> 'n + 'f) \<Rightarrow> string \<Rightarrow> 'n + 'f list" where
  "parse_buckets parse_float buckets =
     for_each (\<lambda>bs s. case parse_float s of Inl e \<Rightarrow> Inl e | Inr b \<Rightarrow> Inr (bs @ [b])) [] (split_on (CHR '','') buckets)"

definition base_label_names :: "string list" where
  "base_label_names = [''ip'', ''host'', ''source'', ''tos'', ''link'']"

text \<open>\<open>slices.Sort\<close> of the keys of a map: sorted, each once.\<close>

definition build_label_names :: "config \<Rightarrow> string list" where
  "build_label_names c =
     base_label_names @
     sort (remdups (filter (\<lambda>k. k \<notin> set base_label_names)
       (concat (map (\<lambda>tg. map fst (tg_labels tg)) (cf_targets c)))))"

section \<open>State\<close>

record remote_prober =
  rm_sched :: "session sched"
  rm_dial :: ssh_config
  rm_recorder :: recorder

text \<open>\<open>sp_running\<close> says that there is an error group; \<open>None\<close> is a nil slice of probes.\<close>

record smoke_pingers =
  sp_started :: "probe list option"
  sp_prepared :: "probe list option"
  sp_started_remote :: "remote_prober list"
  sp_prepared_remote :: "remote_prober list"
  sp_running :: bool
  sp_max_interval :: duration

definition no_pingers :: smoke_pingers where
  "no_pingers = \<lparr>sp_started = None, sp_prepared = None, sp_started_remote = [], sp_prepared_remote = [],
     sp_running = False, sp_max_interval = 0\<rparr>"

datatype 'f event =
    Call "'f call"
  | PingerRuns pinger
  | PingerStopped pinger
  | PingersWaited
  | Slept duration
  | SchedulerStarted remote_prober
  | SchedulerStopped remote_prober

definition slice :: "'a list option \<Rightarrow> 'a list" where
  "slice xs = (case xs of None \<Rightarrow> [] | Some xs \<Rightarrow> xs)"

definition size_of_prepared :: "smoke_pingers \<Rightarrow> nat" where
  "size_of_prepared s =
     length (slice (sp_prepared s)) + sum_list (map (\<lambda>r. length (sd_targets (rm_sched r))) (sp_prepared_remote s))"

definition remote_targets :: "smoke_pingers \<Rightarrow> target list" where
  "remote_targets s = concat (map (\<lambda>r. sd_targets (rm_sched r)) (sp_started_remote s))"

section \<open>Preparing\<close>

datatype ('p, 'd, 'o) prepare_error =
    PingerUnresolved 'p
  | BadPacketSize i64
  | BadGroup string "'d resolve_error build_error"
  | BadCredentials string "'o dialer_error"

text \<open>
  \<open>en_resolve_pinger n\<close> is the answer to the \<open>n\<close>-th resolution of a preparation: DNS need not give the
  same answer twice.
\<close>

record ('p, 'd, 'o, 'y, 'file, 't) env =
  en_open :: "string \<Rightarrow> 'o + 'file"
  en_decode :: "'file \<Rightarrow> 'y + config"
  en_now :: 't
  en_lookup :: "string \<Rightarrow> string \<Rightarrow> 'd + ip list"
  en_read_file :: "string \<Rightarrow> 'o + string"
  en_new_pinger :: "string \<Rightarrow> pinger"
  en_resolve_pinger :: "nat \<Rightarrow> pinger \<Rightarrow> 'p + pinger"
  en_valid_label :: "string \<Rightarrow> bool"

record flags =
  fl_config_file :: string
  fl_interval :: duration
  fl_privileged :: bool
  fl_size :: i64
  fl_tos :: u8
  fl_hosts :: "string list"

text \<open>A host of the command line: the address is resolved before the pinger is set up.\<close>

definition prepare_host ::
  "('p, 'd, 'o, 'y, 'file, 't) env \<Rightarrow> flags \<Rightarrow> probe list \<Rightarrow> string \<Rightarrow> ('p, 'd, 'o) prepare_error + probe list" where
  "prepare_host e fl probes host =
     (case en_resolve_pinger e (length probes) (en_new_pinger e host) of
        Inl x \<Rightarrow> Inl (PingerUnresolved x)
      | Inr p \<Rightarrow> Inr (probes @
          [\<lparr>pr_pinger = p\<lparr>pg_interval := fl_interval fl, pg_privileged := fl_privileged fl,
              pg_size := fl_size fl, pg_tos := fl_tos fl\<rparr>, pr_labels = []\<rparr>]))"

text \<open>A host of a group: the pinger is set up, then resolved.\<close>

definition group_pinger :: "target_group \<Rightarrow> duration \<Rightarrow> pinger \<Rightarrow> pinger" where
  "group_pinger tg interval p =
     (let p = p\<lparr>pg_interval := interval, pg_network := tg_network tg, pg_size := tg_size tg,
            pg_tos := tg_tos tg, pg_source := tg_source tg\<rparr>
      in if tg_protocol tg = ''icmp'' then p\<lparr>pg_privileged := True\<rparr> else p)"

definition prepare_group_host ::
  "('p, 'd, 'o, 'y, 'file, 't) env \<Rightarrow> target_group \<Rightarrow> duration \<Rightarrow> probe list \<Rightarrow> string
     \<Rightarrow> ('p, 'd, 'o) prepare_error + probe list" where
  "prepare_group_host e tg interval probes host =
     (case en_resolve_pinger e (length probes) (group_pinger tg interval (en_new_pinger e host)) of
        Inl x \<Rightarrow> Inl (PingerUnresolved x)
      | Inr p \<Rightarrow> Inr (probes @ [\<lparr>pr_pinger = p, pr_labels = tg_labels tg\<rparr>]))"

record preparation =
  pp_probes :: "probe list"
  pp_max_interval :: duration
  pp_remote :: "string \<Rightarrow> target list"

text \<open>The remote part of a group: its targets, and the interval of its local pingers.\<close>

definition prepare_remote ::
  "('p, 'd, 'o, 'y, 'file, 't) env \<Rightarrow> config \<Rightarrow> preparation \<Rightarrow> target_group
     \<Rightarrow> ('p, 'd, 'o) prepare_error + preparation \<times> duration" where
  "prepare_remote e c pp tg =
     (if tg_router tg = [] then Inr (pp, tg_interval tg)
      else
        let r = fst (find_router c (tg_router tg)) in
        case build_targets tg r (resolve (en_lookup e)) of
          Inl x \<Rightarrow> Inl (BadGroup (rt_name r) x)
        | Inr ts \<Rightarrow>
            Inr (pp\<lparr>pp_remote := (pp_remote pp)(rt_name r := pp_remote pp (rt_name r) @ ts)\<rparr>, tg_local_interval tg))"

definition prepare_group ::
  "('p, 'd, 'o, 'y, 'file, 't) env \<Rightarrow> config \<Rightarrow> preparation \<Rightarrow> target_group
     \<Rightarrow> ('p, 'd, 'o) prepare_error + preparation" where
  "prepare_group e c pp tg =
     (if \<not> valid_packet_size (tg_size tg) then Inl (BadPacketSize (tg_size tg))
      else case prepare_remote e c pp tg of
        Inl x \<Rightarrow> Inl x
      | Inr (pp1, interval) \<Rightarrow>
          let pp2 = (if sint (pp_max_interval pp1) < sint interval then pp1\<lparr>pp_max_interval := interval\<rparr> else pp1) in
          case for_each (prepare_group_host e tg interval) (pp_probes pp2) (tg_hosts tg) of
            Inl x \<Rightarrow> Inl x
          | Inr probes \<Rightarrow> Inr (pp2\<lparr>pp_probes := probes\<rparr>))"

definition prepare_router ::
  "('p, 'd, 'o, 'y, 'file, 't) env \<Rightarrow> recorder \<Rightarrow> (string \<Rightarrow> target list) \<Rightarrow> remote_prober list \<Rightarrow> router
     \<Rightarrow> ('p, 'd, 'o) prepare_error + remote_prober list" where
  "prepare_router e rec targets rs r =
     (if targets (rt_name r) = [] then Inr rs
      else case new_ssh_dialer (en_read_file e) r of
        Inl x \<Rightarrow> Inl (BadCredentials (rt_name r) x)
      | Inr ssh \<Rightarrow> Inr (rs @
          [\<lparr>rm_sched = new_scheduler (rt_name r) (rt_sessions r) (targets (rt_name r)),
            rm_dial = ssh, rm_recorder = rec\<rparr>]))"

definition prepare ::
  "('p, 'd, 'o, 'y, 'file, 't) env \<Rightarrow> flags \<Rightarrow> config \<Rightarrow> recorder \<Rightarrow> smoke_pingers
     \<Rightarrow> ('p, 'd, 'o) prepare_error + smoke_pingers" where
  "prepare e fl c rec s =
     (case for_each (prepare_host e fl) [] (fl_hosts fl) of
        Inl x \<Rightarrow> Inl x
      | Inr probes \<Rightarrow>
          (case for_each (prepare_group e c)
              \<lparr>pp_probes = probes, pp_max_interval = fl_interval fl, pp_remote = (\<lambda>_. [])\<rparr> (cf_targets c) of
             Inl x \<Rightarrow> Inl x
           | Inr pp \<Rightarrow>
               (case for_each (prepare_router e rec (pp_remote pp)) [] (cf_routers c) of
                  Inl x \<Rightarrow> Inl x
                | Inr rs \<Rightarrow> Inr (s\<lparr>sp_prepared := Some (pp_probes pp), sp_prepared_remote := rs,
                                   sp_max_interval := pp_max_interval pp\<rparr>))))"

section \<open>Starting and stopping\<close>

text \<open>\<open>stop\<close>: the error of the pingers is logged only; it does not change what follows.\<close>

definition stop_pingers :: "smoke_pingers \<Rightarrow> 'f event list \<times> smoke_pingers" where
  "stop_pingers s =
     (map SchedulerStopped (sp_started_remote s) @
        (if \<not> sp_running s \<or> sp_started s = None then []
         else map (\<lambda>pr. PingerStopped (pr_pinger pr)) (slice (sp_started s)) @ [PingersWaited]),
      s\<lparr>sp_started_remote := []\<rparr>)"

definition pinger_splay :: "duration \<Rightarrow> nat \<Rightarrow> duration" where
  "pinger_splay max_interval n = quot64 max_interval (of_nat n)"

definition start_pingers :: "smoke_pingers \<Rightarrow> 'f event list \<times> smoke_pingers" where
  "start_pingers s =
     (if size_of_prepared s = 0 then ([], s)
      else
        let (evs, s) = stop_pingers s;
            s = s\<lparr>sp_started_remote := sp_prepared_remote s, sp_prepared_remote := [], sp_running := True,
                  sp_started := sp_prepared s, sp_prepared := None\<rparr>;
            started = slice (sp_started s)
        in (evs @ concat (map (\<lambda>pr. [PingerRuns (pr_pinger pr), Slept (pinger_splay (sp_max_interval s) (length started))])
              started), s))"

definition start_remote :: "smoke_pingers \<Rightarrow> 'f event list" where
  "start_remote s = map SchedulerStarted (sp_started_remote s)"

section \<open>The whole program\<close>

record ('f, 't) prober =
  pb_config :: "'t safe_config"
  pb_metrics :: "'f metrics"
  pb_hist :: vec
  pb_pingers :: smoke_pingers
  pb_collector :: collector
  pb_log :: "'f event list"

datatype ('p, 'd, 'o, 'y, 'n) failure =
    InvalidPacketSize i64
  | ConfigFailed "('o, 'y) reload_error"
  | BucketsFailed 'n
  | PrepareFailed "('p, 'd, 'o) prepare_error"
  | NoTargets

text \<open>The calls that took the metrics from \<open>m\<close> to \<open>m'\<close>, as events.\<close>

definition calls_since :: "'f metrics \<Rightarrow> 'f metrics \<Rightarrow> 'f event list" where
  "calls_since m m' = map Call (drop (length (mt_calls m)) (mt_calls m'))"

text \<open>New vectors for the label names, the histogram registered.\<close>

definition setup_vectors :: "string list \<Rightarrow> 'f list \<Rightarrow> 'f \<Rightarrow> 'f metrics \<Rightarrow> vec \<times> 'f metrics" where
  "setup_vectors names buckets factor m =
     (let (hist, m1) = init_metrics names buckets factor m in (hist, emit [Register hist] m1))"

text \<open>
  From prepared pingers to a running prober: \<open>m\<close> are the metrics with the new vectors and without
  a registered collector.
\<close>

definition launch ::
  "'t safe_config \<Rightarrow> 'f event list \<Rightarrow> string list \<Rightarrow> vec \<Rightarrow> 'f metrics \<Rightarrow>  ('f metrics \<Rightarrow> 'f metrics)
     \<Rightarrow> smoke_pingers \<Rightarrow> ('f, 't) prober option" where
  "launch sc log names hist m unregister s =
     (let (evs, s') = start_pingers s; m1 = unregister m in
      case new_collector (slice (sp_started s')) (remote_targets s') names hist m1 of
        None \<Rightarrow> None
      | Some (c, m2) \<Rightarrow>
          let m3 = emit [Register (cl_id c)] m2 in
          if \<not> log_ok m3 then None
          else Some \<lparr>pb_config = sc, pb_metrics = m3, pb_hist = hist, pb_pingers = s', pb_collector = c,
            pb_log = log @ evs @ calls_since m m3 @ start_remote s'\<rparr>)"

definition startup ::
  "('p, 'd, 'o, 'y, 'file, 't) env \<Rightarrow> (('o, 'y) reload_error \<Rightarrow> bool) \<Rightarrow> (string \<Rightarrow> 'n + 'f) \<Rightarrow> flags \<Rightarrow> string \<Rightarrow> 'f
     \<Rightarrow> (('p, 'd, 'o, 'y, 'n) failure + ('f, 't) prober) option" where
  "startup e not_exist parse_float fl buckets factor =
     (if \<not> valid_packet_size (fl_size fl) then Some (Inl (InvalidPacketSize (fl_size fl)))
      else
        let (err, sc) = reload_config (en_open e) (en_decode e) (en_now e)
              \<lparr>sc_config = empty_config, sc_success = None, sc_seconds = None\<rparr> (fl_config_file fl)
        in case (case err of None \<Rightarrow> None | Some x \<Rightarrow> if not_exist x then None else Some x) of
          Some x \<Rightarrow> Some (Inl (ConfigFailed x))
        | None \<Rightarrow>
            (case parse_buckets parse_float buckets of
               Inl x \<Rightarrow> Some (Inl (BucketsFailed x))
             | Inr bs \<Rightarrow>
                 let names = build_label_names (sc_config sc);
                     m0 = empty_metrics (en_valid_label e);
                     (hist, m) = setup_vectors names bs factor m0
                 in if \<not> log_ok m then None
                    else case prepare e fl (sc_config sc) (new_remote_recorder names hist m) no_pingers of
                      Inl x \<Rightarrow> Some (Inl (PrepareFailed x))
                    | Inr s \<Rightarrow>
                        if size_of_prepared s = 0 then Some (Inl NoTargets)
                        else map_option Inr (launch sc (calls_since m0 m) names hist m (\<lambda>m. m) s)))"

text \<open>
  One reload: the error it reports, if any, and the prober after it.  The buckets were parsed at
  startup.  Whatever has been done when a step fails stays done.
\<close>

definition reload ::
  "('p, 'd, 'o, 'y, 'file, 't) env \<Rightarrow> flags \<Rightarrow> 'f list \<Rightarrow> 'f \<Rightarrow> ('f, 't) prober
     \<Rightarrow> (('p, 'd, 'o, 'y, 'n) failure option \<times> ('f, 't) prober) option" where
  "reload e fl bs factor pb =
     (case reload_config (en_open e) (en_decode e) (en_now e) (pb_config pb) (fl_config_file fl) of
        (Some x, sc) \<Rightarrow> Some (Some (ConfigFailed x), pb\<lparr>pb_config := sc\<rparr>)
      | (None, sc) \<Rightarrow>
          let names = build_label_names (sc_config sc);
              m0 = pb_metrics pb;
              (hist, m) = setup_vectors names bs factor (emit [Unregister (pb_hist pb)] m0);
              pb1 = pb\<lparr>pb_config := sc, pb_metrics := m, pb_hist := hist, pb_log := pb_log pb @ calls_since m0 m\<rparr>
          in if \<not> log_ok m then None
             else case prepare e fl (sc_config sc) (new_remote_recorder names hist m) (pb_pingers pb) of
               Inl x \<Rightarrow> Some (Some (PrepareFailed x), pb1)
             | Inr s \<Rightarrow>
                 if size_of_prepared s = 0 then Some (Some NoTargets, pb1\<lparr>pb_pingers := s\<rparr>)
                 else map_option (Pair None) (launch sc (pb_log pb1) names hist m
                     (\<lambda>m. emit [Unregister (cl_id (pb_collector pb))] m) s))"

text \<open>The reloads of a running prober, each in its own environment.\<close>

primrec reloads ::
  "flags \<Rightarrow> 'f list \<Rightarrow> 'f \<Rightarrow> ('p, 'd, 'o, 'y, 'file, 't) env list \<Rightarrow> ('f, 't) prober \<Rightarrow> ('f, 't) prober option" where
  "reloads fl bs factor [] pb = Some pb"
| "reloads fl bs factor (e # es) pb =
     (case reload e fl bs factor pb :: (('p, 'd, 'o, 'y, unit) failure option \<times> _) option of
        None \<Rightarrow> None
      | Some (_, pb') \<Rightarrow> reloads fl bs factor es pb')"

text \<open>
  Who asks for a reload: the signal SIGHUP, and requests to \<open>/-/reload\<close> with their method.  The
  goroutine takes one at a time; its answer goes back to the handler, which writes the status and the
  body.  \<open>show_error\<close> is the text of an error.
\<close>

datatype request = Hangup | HttpReload string

datatype answer = NoAnswer | Status nat string

definition serve_request ::
  "(('p, 'd, 'o, 'y, unit) failure \<Rightarrow> string) \<Rightarrow> flags \<Rightarrow> 'f list \<Rightarrow> 'f \<Rightarrow> request \<times> ('p, 'd, 'o, 'y, 'file, 't) env
     \<Rightarrow> ('f, 't) prober \<Rightarrow> (answer \<times> ('f, 't) prober) option" where
  "serve_request show_error fl bs factor re pb =
     (case re of
        (Hangup, e) \<Rightarrow>
          map_option (\<lambda>(_, pb'). (NoAnswer, pb')) (reload e fl bs factor pb :: (('p, 'd, 'o, 'y, unit) failure option \<times> _) option)
      | (HttpReload http_method, e) \<Rightarrow>
          if http_method \<noteq> ''POST'' then Some (Status 405 (''This endpoint requires a POST request.'' @ [CHR 0x0A]), pb)
          else case reload e fl bs factor pb of
            None \<Rightarrow> None
          | Some (None, pb') \<Rightarrow> Some (Status 200 [], pb')
          | Some (Some x, pb') \<Rightarrow> Some (Status 500 (''Failed to reload config: '' @ show_error x @ [CHR 0x0A]), pb'))"

text \<open>The answers, and the prober unless the process ended.\<close>

primrec serve ::
  "(('p, 'd, 'o, 'y, unit) failure \<Rightarrow> string) \<Rightarrow> flags \<Rightarrow> 'f list \<Rightarrow> 'f \<Rightarrow> (request \<times> ('p, 'd, 'o, 'y, 'file, 't) env) list
     \<Rightarrow> ('f, 't) prober \<Rightarrow> answer list \<times> ('f, 't) prober option" where
  "serve show_error fl bs factor [] pb = ([], Some pb)"
| "serve show_error fl bs factor (re # res) pb =
     (case serve_request show_error fl bs factor re pb of
        None \<Rightarrow> ([], None)
      | Some (a, pb1) \<Rightarrow> let (as, r) = serve show_error fl bs factor res pb1 in (a # as, r))"

end
