(* ===== verification/Collector_Spec.thy ===== *)
theory Collector_Spec
  imports Collector
begin

text \<open>
  What collector.go promises: a series has a value for every label, in the order of the names, and
  no custom label can replace a built-in one; the calls on the client library never use a wrong
  number of values and never register a metric twice; results end up in the series of their target
  (the interface \<open>result_recorder\<close>).
\<close>

named_theorems metric_defs \<open>the operations on vectors, unfolded\<close>

lemmas [metric_defs] = emit_def unregister_if_def Let_def

section \<open>Label values\<close>

lemma length_label_values [simp]: "length (label_values names base custom) = length names"
  by (simp add: label_values_def)

lemma label_value_base: "i < length names \<Longrightarrow> base (names ! i) = Some v \<Longrightarrow> label_values names base custom ! i = v"
  by (simp add: label_values_def)

lemma label_value_custom:
  "i < length names \<Longrightarrow> base (names ! i) = None \<Longrightarrow> custom (names ! i) = Some v \<Longrightarrow>
   label_values names base custom ! i = v"
  by (simp add: label_values_def)

lemma label_value_missing:
  "i < length names \<Longrightarrow> base (names ! i) = None \<Longrightarrow> custom (names ! i) = None \<Longrightarrow>
   label_values names base custom ! i = []"
  by (simp add: label_values_def)

definition base_names :: "string list" where
  "base_names = [''ip'', ''host'', ''source'', ''tos'', ''link'']"

lemma dom_base_labels: "dom (base_labels ip host source tos link) = set base_names"
  by (auto simp: base_labels_def base_names_def)

lemma length_build_label_values [simp]: "length (build_label_values names pr ip) = length names"
  by (simp add: build_label_values_def Let_def)

lemma length_remote_label_values [simp]: "length (remote_label_values names t) = length names"
  by (simp add: remote_label_values_def)

section \<open>The calls of a log\<close>

lemma arities_append [simp]: "arities A (cs @ ds) = arities (arities A cs) ds"
proof (induction cs arbitrary: A)
  case (Cons c cs)
  then show ?case by (cases c) (simp_all add: fun_upd_def)
qed simp

lemma registry_append [simp]: "registry R (cs @ ds) = registry (registry R cs) ds"
proof (induction cs arbitrary: R)
  case (Cons c cs)
  then show ?case by (cases c) (simp_all add: fun_upd_def)
qed simp

lemma calls_fit_append:
  "calls_fit A R (cs @ ds) \<longleftrightarrow> calls_fit A R cs \<and> calls_fit (arities A cs) (registry R cs) ds"
proof (induction cs arbitrary: A R)
  case (Cons c cs)
  then show ?case by (cases c) (simp_all add: fun_upd_def)
qed simp

abbreviation fits :: "'f metrics \<Rightarrow> bool" where
  "fits m \<equiv> calls_fit Map.empty {} (mt_calls m)"

abbreviation arity :: "'f metrics \<Rightarrow> vec \<rightharpoonup> nat" where
  "arity m \<equiv> arities Map.empty (mt_calls m)"

abbreviation registered :: "'f metrics \<Rightarrow> vec set" where
  "registered m \<equiv> registry {} (mt_calls m)"

abbreviation label_fits :: "'f metrics \<Rightarrow> bool" where
  "label_fits m \<equiv> labels_fit (mt_valid m) Map.empty Map.empty (mt_calls m)"

abbreviation made :: "'f metrics \<Rightarrow> vec \<rightharpoonup> string list" where
  "made m \<equiv> made_labels Map.empty (mt_calls m)"

abbreviation fixed :: "'f metrics \<Rightarrow> family \<rightharpoonup> string list" where
  "fixed m \<equiv> fixed_labels Map.empty Map.empty (mt_calls m)"

lemma log_ok_iff: "log_ok m \<longleftrightarrow> fits m \<and> label_fits m"
  by (simp add: log_ok_def)

lemma made_append [simp]: "made_labels L (cs @ ds) = made_labels (made_labels L cs) ds"
proof (induction cs arbitrary: L)
  case (Cons c cs)
  then show ?case by (cases c) (simp_all add: fun_upd_def)
qed simp

lemma fixed_append [simp]: "fixed_labels L D (cs @ ds) = fixed_labels (made_labels L cs) (fixed_labels L D cs) ds"
proof (induction cs arbitrary: L D)
  case (Cons c cs)
  then show ?case by (cases c) (simp_all add: fun_upd_def)
qed simp

lemma labels_fit_append:
  "labels_fit valid L D (cs @ ds) \<longleftrightarrow>
     labels_fit valid L D cs \<and> labels_fit valid (made_labels L cs) (fixed_labels L D cs) ds"
proof (induction cs arbitrary: L D)
  case (Cons c cs)
  then show ?case by (cases c) (simp_all add: fun_upd_def)
qed simp

text \<open>Calls that only address existing series.\<close>

definition plain_calls :: "(vec \<rightharpoonup> nat) \<Rightarrow> 'f call list \<Rightarrow> bool" where
  "plain_calls A cs \<longleftrightarrow>
     (\<forall>c \<in> set cs. case c of
        Reset v \<Rightarrow> v \<in> dom A | Series v vals \<Rightarrow> A v = Some (length vals)
      | Observe v vals _ \<Rightarrow> A v = Some (length vals) | SetGauge v vals _ \<Rightarrow> A v = Some (length vals)
      | Increment v vals \<Rightarrow> A v = Some (length vals) | _ \<Rightarrow> False)"

lemma plain_calls:
  assumes "plain_calls A cs"
  shows "calls_fit A R cs" and "arities A cs = A" and "registry R cs = R"
proof -
  have "calls_fit A R cs \<and> arities A cs = A \<and> registry R cs = R"
    using assms
  proof (induction cs)
    case (Cons c cs)
    then have "calls_fit A R cs \<and> arities A cs = A \<and> registry R cs = R" by (simp add: plain_calls_def)
    with Cons.prems show ?case by (cases c) (auto simp: plain_calls_def)
  qed simp
  then show "calls_fit A R cs" "arities A cs = A" "registry R cs = R" by blast+
qed

lemma plain_calls_labels:
  assumes "plain_calls A cs"
  shows "labels_fit valid L D cs" and "made_labels L cs = L" and "fixed_labels L D cs = D"
proof -
  have "labels_fit valid L D cs \<and> made_labels L cs = L \<and> fixed_labels L D cs = D"
    using assms
  proof (induction cs)
    case (Cons c cs)
    then have "labels_fit valid L D cs \<and> made_labels L cs = L \<and> fixed_labels L D cs = D" by (simp add: plain_calls_def)
    with Cons.prems show ?case by (cases c) (auto simp: plain_calls_def)
  qed simp
  then show "labels_fit valid L D cs" "made_labels L cs = L" "fixed_labels L D cs = D" by blast+
qed

section \<open>Making the vectors\<close>

text \<open>
  Vectors are new when they are made, and of the families that \<open>initMetrics\<close> looks after, only the
  current vectors are registered.
\<close>

definition metrics_ok :: "'f metrics \<Rightarrow> bool" where
  "metrics_ok m \<longleftrightarrow>
     fits m \<and> (\<forall>v \<in> dom (arity m) \<union> registered m. snd v < mt_next m) \<and>
     (\<forall>v \<in> registered m.
        (fst v = ResponseTtl \<longrightarrow> mt_ttl m = Some v) \<and> (fst v = Duplicates \<longrightarrow> mt_duplicates m = Some v) \<and>
        (fst v = RecvErrors \<longrightarrow> mt_recv_errors m = Some v) \<and> (fst v = SendErrors \<longrightarrow> mt_send_errors m = Some v)) \<and>
     fst ` set_option (mt_ttl m) \<subseteq> {ResponseTtl} \<and> fst ` set_option (mt_duplicates m) \<subseteq> {Duplicates} \<and>
     fst ` set_option (mt_recv_errors m) \<subseteq> {RecvErrors} \<and> fst ` set_option (mt_send_errors m) \<subseteq> {SendErrors}"

text \<open>The current vectors exist, with \<open>n\<close> label names.\<close>

definition current_ok :: "nat \<Rightarrow> 'f metrics \<Rightarrow> bool" where
  "current_ok n m \<longleftrightarrow>
     (\<exists>ttl dup recv send. mt_ttl m = Some ttl \<and> mt_duplicates m = Some dup \<and>
        mt_recv_errors m = Some recv \<and> mt_send_errors m = Some send \<and>
        {ttl, dup, recv, send} \<subseteq> registered m \<and>
        arity m ttl = Some n \<and> arity m dup = Some n \<and> arity m send = Some n \<and> arity m recv = Some 0)"

lemma unregister_if_calls:
  "mt_calls (unregister_if v m) = mt_calls m @ (case v of None \<Rightarrow> [] | Some v \<Rightarrow> [Unregister v])"
  by (simp add: unregister_if_def emit_def split: option.split)

lemma unregister_if_fields [simp]:
  "mt_valid (unregister_if v m) = mt_valid m" "mt_next (unregister_if v m) = mt_next m" "mt_ttl (unregister_if v m) = mt_ttl m"
  "mt_duplicates (unregister_if v m) = mt_duplicates m" "mt_recv_errors (unregister_if v m) = mt_recv_errors m"
  "mt_send_errors (unregister_if v m) = mt_send_errors m"
  by (simp_all add: unregister_if_def emit_def split: option.split)

definition unregister_calls :: "'f metrics \<Rightarrow> 'f call list" where
  "unregister_calls m =
     List.map_filter (map_option Unregister) [mt_ttl m, mt_duplicates m, mt_recv_errors m, mt_send_errors m]"

definition new_vector_calls :: "nat \<Rightarrow> string list \<Rightarrow> 'f list \<Rightarrow> 'f \<Rightarrow> 'f call list" where
  "new_vector_calls n names buckets factor =
     [NewVec (ResponseTtl, n) names, Register (ResponseTtl, n),
      NewVec (Duplicates, n + 1) names, Register (Duplicates, n + 1),
      NewVec (RecvErrors, n + 2) [], Register (RecvErrors, n + 2),
      NewVec (SendErrors, n + 3) names, Register (SendErrors, n + 3),
      NewHistogram (ResponseDuration, n + 4) names buckets factor]"

lemma init_metrics_calls:
  "init_metrics names buckets factor m =
     ((ResponseDuration, mt_next m + 4),
      \<lparr>mt_valid = mt_valid m, mt_next = mt_next m + 5, mt_ttl = Some (ResponseTtl, mt_next m),
       mt_duplicates = Some (Duplicates, mt_next m + 1), mt_recv_errors = Some (RecvErrors, mt_next m + 2),
       mt_send_errors = Some (SendErrors, mt_next m + 3),
       mt_calls = mt_calls m @ unregister_calls m @ new_vector_calls (mt_next m) names buckets factor\<rparr>)"
  by (cases "mt_ttl m"; cases "mt_duplicates m"; cases "mt_recv_errors m"; cases "mt_send_errors m")
     (simp_all add: init_metrics_def emit_def Let_def unregister_if_def unregister_calls_def
        new_vector_calls_def List.map_filter_simps)

lemma unregister_calls_effect:
  "calls_fit A R (unregister_calls m)" "arities A (unregister_calls m) = A"
  "registry R (unregister_calls m) =
     R - (set_option (mt_ttl m) \<union> set_option (mt_duplicates m) \<union> set_option (mt_recv_errors m) \<union> set_option (mt_send_errors m))"
  by (cases "mt_ttl m"; cases "mt_duplicates m"; cases "mt_recv_errors m"; cases "mt_send_errors m";
      auto simp: unregister_calls_def List.map_filter_simps)+

lemma registered_after_unregister:
  assumes "metrics_ok m" and "v \<in> registry (registered m) (unregister_calls m)"
  shows "fst v \<in> {ResponseDuration, Requests}" and "v \<in> registered m"
proof -
  have "v \<in> registered m" "v \<notin> set_option (mt_ttl m)" "v \<notin> set_option (mt_duplicates m)"
    "v \<notin> set_option (mt_recv_errors m)" "v \<notin> set_option (mt_send_errors m)"
    using assms(2) by (simp_all add: unregister_calls_effect)
  with assms(1) show "fst v \<in> {ResponseDuration, Requests}" "v \<in> registered m"
    unfolding metrics_ok_def by (cases "fst v"; auto)+
qed

lemma new_vector_calls_effect:
  "arities A (new_vector_calls n names buckets factor) = A((ResponseTtl, n) \<mapsto> length names,
     (Duplicates, n + 1) \<mapsto> length names, (RecvErrors, n + 2) \<mapsto> 0, (SendErrors, n + 3) \<mapsto> length names,
     (ResponseDuration, n + 4) \<mapsto> length names)"
  "registry R (new_vector_calls n names buckets factor) =
     {(ResponseTtl, n), (Duplicates, n + 1), (RecvErrors, n + 2), (SendErrors, n + 3)} \<union> R"
  "fst ` R \<subseteq> {ResponseDuration, Requests} \<Longrightarrow> calls_fit A R (new_vector_calls n names buckets factor)"
  by (auto simp: new_vector_calls_def)

lemma init_metrics_ok:
  assumes "metrics_ok m" and "init_metrics names buckets factor m = (hist, m')"
  shows "metrics_ok m'" and "current_ok (length names) m'" and "arity m' hist = Some (length names)"
    and "fst hist = ResponseDuration" and "hist \<notin> dom (arity m) \<union> registered m'"
    and "\<And>v. v \<in> dom (arity m) \<Longrightarrow> arity m' v = arity m v"
    and "\<And>v. fst v \<in> {ResponseDuration, Requests} \<Longrightarrow> v \<in> registered m' \<longleftrightarrow> v \<in> registered m"
proof -
  let ?n = "mt_next m" and ?R = "registry (registered m) (unregister_calls m)"
  have m': "hist = (ResponseDuration, ?n + 4)" "mt_next m' = ?n + 5" "mt_ttl m' = Some (ResponseTtl, ?n)"
    "mt_duplicates m' = Some (Duplicates, ?n + 1)" "mt_recv_errors m' = Some (RecvErrors, ?n + 2)"
    "mt_send_errors m' = Some (SendErrors, ?n + 3)"
    "mt_calls m' = mt_calls m @ unregister_calls m @ new_vector_calls ?n names buckets factor"
    using assms(2) by (auto simp: init_metrics_calls)
  have R: "fst ` ?R \<subseteq> {ResponseDuration, Requests}" "?R \<subseteq> registered m"
    using registered_after_unregister [OF assms(1)] by blast+
  have old: "snd v < ?n" if "v \<in> dom (arity m) \<union> registered m" for v
    using that assms(1) by (simp add: metrics_ok_def)
  have ar: "arity m' = (arity m)((ResponseTtl, ?n) \<mapsto> length names, (Duplicates, ?n + 1) \<mapsto> length names,
      (RecvErrors, ?n + 2) \<mapsto> 0, (SendErrors, ?n + 3) \<mapsto> length names, (ResponseDuration, ?n + 4) \<mapsto> length names)"
    by (simp add: m' unregister_calls_effect new_vector_calls_effect)
  have rg: "registered m' = {(ResponseTtl, ?n), (Duplicates, ?n + 1), (RecvErrors, ?n + 2), (SendErrors, ?n + 3)} \<union> ?R"
    by (simp add: m' new_vector_calls_effect)
  have log: "fits m'"
    using assms(1) R(1) by (simp add: m' calls_fit_append unregister_calls_effect(1,2) new_vector_calls_effect(3) metrics_ok_def)
  show "metrics_ok m'"
    unfolding metrics_ok_def
  proof (intro conjI ballI log)
    fix v assume "v \<in> dom (arity m') \<union> registered m'"
    then have "v \<in> {(ResponseTtl, ?n), (Duplicates, ?n + 1), (RecvErrors, ?n + 2), (SendErrors, ?n + 3),
        (ResponseDuration, ?n + 4)} \<union> dom (arity m) \<union> registered m"
      using R(2) unfolding ar rg by (auto split: if_splits)
    then have "v \<in> dom (arity m) \<union> registered m \<or> snd v < ?n + 5" by auto
    then show "snd v < mt_next m'" using old [of v] unfolding m' by linarith
  next
    fix v assume "v \<in> registered m'"
    then have v: "v \<in> {(ResponseTtl, ?n), (Duplicates, ?n + 1), (RecvErrors, ?n + 2), (SendErrors, ?n + 3)} \<union> ?R"
      unfolding rg .
    have "v \<in> ?R \<Longrightarrow> fst v \<in> {ResponseDuration, Requests}" using R(1) by blast
    with v show "fst v = ResponseTtl \<longrightarrow> mt_ttl m' = Some v" "fst v = Duplicates \<longrightarrow> mt_duplicates m' = Some v"
      "fst v = RecvErrors \<longrightarrow> mt_recv_errors m' = Some v" "fst v = SendErrors \<longrightarrow> mt_send_errors m' = Some v"
      unfolding m' by auto
  qed (simp_all add: m'(3-6))
  show "current_ok (length names) m'" unfolding current_ok_def ar rg m'(3-6) by simp
  show "arity m' hist = Some (length names)" unfolding ar m'(1) by simp
  show "fst hist = ResponseDuration" by (simp add: m'(1))
  show "hist \<notin> dom (arity m) \<union> registered m'" using old [of hist] R(2) unfolding rg m'(1) by auto
  show "arity m' v = arity m v" if "v \<in> dom (arity m)" for v
    using old [of v] that unfolding ar by auto
  show "v \<in> registered m' \<longleftrightarrow> v \<in> registered m" if "fst v \<in> {ResponseDuration, Requests}" for v
  proof -
    have "v \<in> registered m \<Longrightarrow> v \<in> ?R"
      using that assms(1) by (auto simp: unregister_calls_effect metrics_ok_def)
    then show ?thesis using R(2) that unfolding rg by auto
  qed
qed

section \<open>Series of the current vectors\<close>

lemma emit_fields [simp]:
  "mt_calls (emit cs m) = mt_calls m @ cs" "mt_valid (emit cs m) = mt_valid m" "mt_next (emit cs m) = mt_next m" "mt_ttl (emit cs m) = mt_ttl m"
  "mt_duplicates (emit cs m) = mt_duplicates m" "mt_recv_errors (emit cs m) = mt_recv_errors m"
  "mt_send_errors (emit cs m) = mt_send_errors m"
  by (simp_all add: emit_def)

lemma emit_plain:
  assumes "metrics_ok m" and "plain_calls (arity m) cs"
  shows "metrics_ok (emit cs m)" and "arity (emit cs m) = arity m" and "registered (emit cs m) = registered m"
  using assms plain_calls [OF assms(2)]
  by (simp_all add: metrics_ok_def calls_fit_append)

lemma current_emit:
  "plain_calls (arity m) cs \<Longrightarrow> current_ok n (emit cs m) = current_ok n m"
  using plain_calls [of "arity m" cs] by (simp add: current_ok_def)

lemma plain_calls_intros [intro]:
  "plain_calls A []"
  "v \<in> dom A \<Longrightarrow> plain_calls A cs \<Longrightarrow> plain_calls A (Reset v # cs)"
  "A v = Some (length vals) \<Longrightarrow> plain_calls A cs \<Longrightarrow> plain_calls A (Series v vals # cs)"
  "A v = Some (length vals) \<Longrightarrow> plain_calls A cs \<Longrightarrow> plain_calls A (Observe v vals d # cs)"
  "A v = Some (length vals) \<Longrightarrow> plain_calls A cs \<Longrightarrow> plain_calls A (SetGauge v vals k # cs)"
  "A v = Some (length vals) \<Longrightarrow> plain_calls A cs \<Longrightarrow> plain_calls A (Increment v vals # cs)"
  "plain_calls A cs \<Longrightarrow> plain_calls A ds \<Longrightarrow> plain_calls A (cs @ ds)"
  by (auto simp: plain_calls_def)

lemma plain_calls_concat: "(\<And>x. x \<in> set xs \<Longrightarrow> plain_calls A (f x)) \<Longrightarrow> plain_calls A (concat (map f xs))"
  by (auto simp: plain_calls_def)

lemma update_probes_ok:
  assumes "current_ok (length names) m" and "arity m hist = Some (length names)"
  obtains cs where "update_probes names probes remote hist m = Some (emit cs m)" and "plain_calls (arity m) cs"
proof -
  obtain ttl dup recv send where c: "mt_ttl m = Some ttl" "mt_duplicates m = Some dup"
    "mt_send_errors m = Some send" "arity m ttl = Some (length names)" "arity m dup = Some (length names)"
    "arity m send = Some (length names)"
    using assms(1) by (auto simp: current_ok_def)
  show ?thesis
  proof (rule that)
    show "update_probes names probes remote hist m = Some (emit
        ([Reset dup, Reset hist, Reset ttl, Reset send] @
         concat (map (\<lambda>pr. let vals = build_label_values names pr [] in
             [Series dup vals, Series hist vals, Series ttl vals, Series send vals]) probes) @
         concat (map (\<lambda>t. let vals = remote_label_values names t in
             [Series hist vals, Series ttl vals]) remote)) m)"
      by (simp add: update_probes_def c)
    show "plain_calls (arity m)
        ([Reset dup, Reset hist, Reset ttl, Reset send] @
         concat (map (\<lambda>pr. let vals = build_label_values names pr [] in
             [Series dup vals, Series hist vals, Series ttl vals, Series send vals]) probes) @
         concat (map (\<lambda>t. let vals = remote_label_values names t in
             [Series hist vals, Series ttl vals]) remote))"
      using c assms(2) by (intro plain_calls_intros plain_calls_concat) (auto simp: Let_def plain_calls_def)
  qed
qed

section \<open>Label names for the life of the process\<close>

text \<open>
  \<open>labels_are N m\<close>: no call was refused for its label names so far, and every family that was ever
  registered has the label names \<open>N\<close>, or none in the case of the receive errors.
\<close>

definition family_labels :: "string list \<Rightarrow> family \<Rightarrow> string list" where
  "family_labels N f = (if f = RecvErrors then [] else N)"

definition labels_are :: "string list \<Rightarrow> 'f metrics \<Rightarrow> bool" where
  "labels_are N m \<longleftrightarrow>
     label_fits m \<and> distinct N \<and> list_all (mt_valid m) N \<and> fixed m ResponseTtl = Some N \<and>
     (\<forall>f ns. fixed m f = Some ns \<longrightarrow> ns = family_labels N f)"

lemma labels_are_emit:
  assumes "\<And>valid L D. labels_fit valid L D cs" and "\<And>L D. fixed_labels L D cs = D"
  shows "labels_are N (emit cs m) = labels_are N m"
  by (simp add: labels_are_def labels_fit_append assms)

lemma labels_are_plain: "plain_calls A cs \<Longrightarrow> labels_are N (emit cs m) = labels_are N m"
  by (rule labels_are_emit) (simp_all add: plain_calls_labels)

lemma labels_are_unregister [simp]: "labels_are N (emit [Unregister v] m) = labels_are N m"
  by (rule labels_are_emit) simp_all

lemma labels_are_desc [simp]: "labels_are N (emit [NewDesc v ns] m) = labels_are N m"
  by (rule labels_are_emit) simp_all

lemma labels_are_next [simp]: "labels_are N (m\<lparr>mt_next := n\<rparr>) = labels_are N m"
  by (simp add: labels_are_def)

lemma accepts_labels_same:
  assumes "labels_are N m" and "set ns = set (family_labels N f)" and "distinct ns"
  shows "accepts_labels (mt_valid m) (fixed m) f ns"
  using assms by (auto simp: accepts_labels_def labels_are_def family_labels_def list_all_iff split: option.split if_splits)

lemma labels_are_register:
  assumes "labels_are N m" and "made m v = Some N" and "fst v \<noteq> RecvErrors"
  shows "labels_are N (emit [Register v] m)"
proof -
  have "accepts_labels (mt_valid m) (fixed m) (fst v) N"
    using accepts_labels_same [OF assms(1)] assms by (simp add: family_labels_def labels_are_def)
  then show ?thesis
    using assms by (auto simp: labels_are_def labels_fit_append fix_labels_def family_labels_def split: option.splits if_splits)
qed

text \<open>The calls of \<open>initMetrics\<close> and the registration of the histogram.\<close>

definition setup_calls :: "'f metrics \<Rightarrow> string list \<Rightarrow> 'f list \<Rightarrow> 'f \<Rightarrow> 'f call list" where
  "setup_calls m names buckets factor =
     unregister_calls m @ new_vector_calls (mt_next m) names buckets factor @ [Register (ResponseDuration, mt_next m + 4)]"

lemma unregister_calls_labels [simp]:
  "labels_fit valid L D (unregister_calls m)" "made_labels L (unregister_calls m) = L"
  "fixed_labels L D (unregister_calls m) = D"
  by (cases "mt_ttl m"; cases "mt_duplicates m"; cases "mt_recv_errors m"; cases "mt_send_errors m";
      simp add: unregister_calls_def List.map_filter_simps)+

lemma setup_labels_fit:
  "labels_fit valid L D (setup_calls m names buckets factor) \<longleftrightarrow>
     accepts_labels valid D ResponseTtl names \<and> accepts_labels valid D Duplicates names \<and>
     accepts_labels valid D RecvErrors [] \<and> accepts_labels valid D SendErrors names \<and>
     accepts_labels valid D ResponseDuration names"
  by (auto simp: setup_calls_def new_vector_calls_def labels_fit_append accepts_labels_def fix_labels_def split: option.splits)

lemma setup_fixed:
  "fixed_labels L D (setup_calls m names buckets factor) f =
     (if f = Requests then D f else case D f of None \<Rightarrow> Some (family_labels names f) | Some ns \<Rightarrow> Some ns)"
  by (cases f) (auto simp: setup_calls_def new_vector_calls_def fix_labels_def family_labels_def split: option.splits)

lemma setup_same_labels:
  assumes "labels_are N m" and "distinct names" and "mt_calls m' = mt_calls m @ setup_calls m0 names buckets factor"
    and "mt_valid m' = mt_valid m"
  shows "label_fits m' \<longleftrightarrow> set names = set N" and "names = N \<Longrightarrow> labels_are N m'"
proof -
  have D: "fixed m ResponseTtl = Some N" and ok: "label_fits m" using assms(1) by (simp_all add: labels_are_def)
  have fit: "label_fits m' \<longleftrightarrow> labels_fit (mt_valid m) (made m) (fixed m) (setup_calls m0 names buckets factor)"
    using ok by (simp add: assms(3,4) labels_fit_append)
  show iff: "label_fits m' \<longleftrightarrow> set names = set N"
  proof
    assume "label_fits m'"
    then show "set names = set N" using D by (auto simp: fit setup_labels_fit accepts_labels_def)
  next
    assume "set names = set N"
    then have "accepts_labels (mt_valid m) (fixed m) f (family_labels names f)" for f
      using accepts_labels_same [OF assms(1), of "family_labels names f" f] assms(2) by (auto simp: family_labels_def)
    from this [of ResponseTtl] this [of Duplicates] this [of RecvErrors] this [of SendErrors] this [of ResponseDuration]
    show "label_fits m'" by (simp add: fit setup_labels_fit family_labels_def)
  qed
  assume "names = N"
  then show "labels_are N m'"
    using assms iff by (auto simp: labels_are_def setup_fixed split: option.splits if_splits)
qed

lemma setup_first_labels:
  assumes "label_fits m'" and "mt_calls m' = setup_calls m0 names buckets factor"
  shows "labels_are names m'"
  using assms by (auto simp: labels_are_def setup_fixed family_labels_def setup_labels_fit accepts_labels_def split: if_splits)

section \<open>Recording\<close>

text \<open>The observations of a series, in order.\<close>

definition observations :: "vec \<Rightarrow> string list \<Rightarrow> 'f call list \<Rightarrow> duration list" where
  "observations v vals cs =
     List.map_filter (\<lambda>c. case c of Observe u xs d \<Rightarrow> if u = v \<and> xs = vals then Some d else None | _ \<Rightarrow> None) cs"

lemma observations_append [simp]: "observations v vals (cs @ ds) = observations v vals cs @ observations v vals ds"
  by (simp add: observations_def List.map_filter_def)

lemma observations_Nil [simp]: "observations v vals [] = []"
  by (simp add: observations_def List.map_filter_simps)

lemma observations_replies:
  "observations v vals (map (\<lambda>rep. Observe u xs (rp_rtt rep)) reps) = (if u = v \<and> xs = vals then map rp_rtt reps else [])"
  by (induction reps) (auto simp: observations_def List.map_filter_simps)

lemma observations_gauge [simp]: "observations v vals [SetGauge u xs k] = []"
  by (simp add: observations_def List.map_filter_simps)

text \<open>
  What the scheduler needs of a recorder that is ready: storing a result works and adds the round
  trips of its replies to the series of the target, and to no other.
\<close>

locale result_recorder =
  fixes store :: "'rec \<Rightarrow> target \<Rightarrow> result \<Rightarrow> 'm \<Rightarrow> 'm option"
    and key :: "'rec \<Rightarrow> target \<Rightarrow> 'k"
    and observed :: "'rec \<Rightarrow> 'k \<Rightarrow> 'm \<Rightarrow> duration list"
    and ready :: "'rec \<Rightarrow> bool"
  assumes store_ready: "ready r \<Longrightarrow> \<exists>m'. store r t res m = Some m'"
    and store_observed: "store r t res m = Some m' \<Longrightarrow>
      observed r k m' = observed r k m @ (if key r t = k then map rp_rtt (rs_replies res) else [])"
begin

text \<open>Storing the results of an execution, in order.\<close>

primrec store_all :: "'rec \<Rightarrow> (target \<times> result) list \<Rightarrow> 'm \<Rightarrow> 'm option" where
  "store_all r [] m = Some m"
| "store_all r (x # xs) m = Option.bind (store r (fst x) (snd x) m) (store_all r xs)"

lemma store_all_observed:
  assumes "ready r"
  shows "\<exists>m'. store_all r xs m = Some m' \<and>
     observed r k m' = observed r k m @
       concat (map (\<lambda>(t, res). if key r t = k then map rp_rtt (rs_replies res) else []) xs)"
proof (induction xs arbitrary: m)
  case (Cons x xs)
  obtain t res where x: "x = (t, res)" by (cases x)
  obtain m1 where m1: "store r t res m = Some m1" using store_ready [OF assms] by blast
  obtain m' where "store_all r xs m1 = Some m'" "observed r k m' = observed r k m1 @
      concat (map (\<lambda>(t, res). if key r t = k then map rp_rtt (rs_replies res) else []) xs)"
    using Cons.IH by blast
  with m1 store_observed [OF m1] show ?case by (auto simp: x)
qed simp

end

interpretation vec_recorder: result_recorder
  record_result "\<lambda>r t. remote_label_values (rc_names r) t"
  "\<lambda>r vals m. observations (rc_hist r) vals (mt_calls m)" "\<lambda>r. rc_ttl r \<noteq> None"
  by unfold_locales
     (auto simp: record_result_def Let_def observations_replies split: if_splits option.splits)

section \<open>Calls of handlers and recorders\<close>

fun series_call :: "'f call \<Rightarrow> bool" where
  "series_call (Observe _ _ _) = True"
| "series_call (SetGauge _ _ _) = True"
| "series_call (Increment _ _) = True"
| "series_call _ = False"

lemma accepted_plain:
  "list_all series_call cs \<Longrightarrow> calls_fit A R cs \<Longrightarrow> plain_calls A cs"
proof (induction cs)
  case (Cons c cs)
  then show ?case by (cases c) (auto simp: plain_calls_def)
qed (simp add: plain_calls_def)

lemma emit_emit: "emit ds (emit cs m) = emit (cs @ ds) m" "emit [] m = m"
  by (simp_all add: emit_def)

lemma series_emit:
  "list_all series_call cs \<Longrightarrow> \<exists>ds. emit cs m = emit ds m \<and> list_all series_call ds"
  "\<exists>ds. m = emit ds m \<and> list_all series_call ds"
  using emit_emit(2) [of m] by (blast, intro exI [of _ "[]"], simp)

lemma handler_series_calls:
  "on_recv c p pkt m = Some m' \<Longrightarrow> \<exists>cs. m' = emit cs m \<and> list_all series_call cs"
  "on_duplicate_recv c p pkt m = Some m' \<Longrightarrow> \<exists>cs. m' = emit cs m \<and> list_all series_call cs"
  "on_recv_error err m = Some m' \<Longrightarrow> \<exists>cs. m' = emit cs m \<and> list_all series_call cs"
  "on_send_error c p pkt m = Some m' \<Longrightarrow> \<exists>cs. m' = emit cs m \<and> list_all series_call cs"
  by (cases "mt_ttl m"; cases "mt_duplicates m"; cases "mt_recv_errors m"; cases "mt_send_errors m";
      auto simp: on_recv_def on_duplicate_recv_def on_recv_error_def on_send_error_def Let_def emit_emit
        split: if_splits intro!: series_emit)+

lemma record_series_calls:
  assumes "record_result rc t res m = Some m'"
  shows "\<exists>cs. m' = emit cs m \<and> list_all series_call cs"
proof (cases "rs_replies res = []")
  case True
  with assms have "m' = emit [] m" by (simp add: record_result_def emit_emit)
  then show ?thesis by (intro exI [of _ "[]"]) simp
next
  case False
  let ?v = "remote_label_values (rc_names rc) t"
  obtain ttl where "m' = emit (map (\<lambda>rep. Observe (rc_hist rc) ?v (rp_rtt rep)) (rs_replies res) @
      [SetGauge ttl ?v (rp_ttl (rs_replies res ! (length (rs_replies res) - 1)))]) m"
    using assms False by (auto simp: record_result_def Let_def emit_emit split: option.splits)
  moreover have "list_all series_call (map (\<lambda>rep. Observe (rc_hist rc) ?v (rp_rtt rep)) (rs_replies res) @
      [SetGauge ttl ?v (rp_ttl (rs_replies res ! (length (rs_replies res) - 1)))])" by (simp add: list_all_iff)
  ultimately show ?thesis by blast
qed

text \<open>The recorder's vectors, old or current, exist with its number of names.\<close>

definition recorder_ok :: "'f metrics \<Rightarrow> recorder \<Rightarrow> bool" where
  "recorder_ok m rc \<longleftrightarrow>
     (\<exists>ttl. rc_ttl rc = Some ttl \<and> arity m ttl = Some (length (rc_names rc))) \<and>
     arity m (rc_hist rc) = Some (length (rc_names rc))"

lemma recorder_ok_plain:
  assumes "recorder_ok m rc"
  shows "\<exists>cs. record_result rc t res m = Some (emit cs m) \<and> plain_calls (arity m) cs"
proof -
  obtain ttl where v: "rc_ttl rc = Some ttl" "arity m ttl = Some (length (rc_names rc))"
    "arity m (rc_hist rc) = Some (length (rc_names rc))"
    using assms by (auto simp: recorder_ok_def)
  let ?v = "remote_label_values (rc_names rc) t"
  let ?obs = "map (\<lambda>rep. Observe (rc_hist rc) ?v (rp_rtt rep)) (rs_replies res)"
  have obs: "plain_calls (arity m) ?obs" using v by (simp add: plain_calls_def)
  show ?thesis
  proof (cases "rs_replies res = []")
    case True
    then show ?thesis using emit_emit(2) [of m] by (intro exI [of _ "[]"]) (simp add: record_result_def plain_calls_intros(1))
  next
    case False
    have "plain_calls (arity m) (?obs @ [SetGauge ttl ?v (rp_ttl (rs_replies res ! (length (rs_replies res) - 1)))])"
      using obs v by (intro plain_calls_intros) simp_all
    with False show ?thesis by (intro exI conjI) (auto simp: record_result_def v(1) Let_def emit_emit)
  qed
qed

lemma recorder_ok_mono:
  "recorder_ok m rc \<Longrightarrow> arity m \<subseteq>\<^sub>m arity m' \<Longrightarrow> recorder_ok m' rc"
  by (auto simp: recorder_ok_def map_le_def) (metis domI)+

text \<open>The handlers of a collector with as many names as the current vectors.\<close>

lemma handlers_plain_at:
  assumes "current_ok (length (cl_names c)) m" and "arity m (cl_hist c) = Some (length (cl_names c))"
  shows "\<exists>cs. on_recv c p pkt m = Some (emit cs m) \<and> plain_calls (arity m) cs"
    and "\<exists>cs. on_duplicate_recv c p pkt m = Some (emit cs m) \<and> plain_calls (arity m) cs"
    and "\<exists>cs. on_recv_error err m = Some (emit cs m) \<and> plain_calls (arity m) cs"
    and "\<exists>cs. on_send_error c p pkt m = Some (emit cs m) \<and> plain_calls (arity m) cs"
proof -
  let ?v = "build_label_values (cl_names c) p (pk_ip pkt)"
  obtain ttl dup recv send where v: "mt_ttl m = Some ttl" "mt_duplicates m = Some dup" "mt_recv_errors m = Some recv"
    "mt_send_errors m = Some send" "arity m ttl = Some (length ?v)" "arity m dup = Some (length ?v)"
    "arity m send = Some (length ?v)" "arity m recv = Some 0" "arity m (cl_hist c) = Some (length ?v)"
    using assms by (auto simp: current_ok_def)
  show "\<exists>cs. on_recv c p pkt m = Some (emit cs m) \<and> plain_calls (arity m) cs"
    using v by (intro exI [of _ "[Observe (cl_hist c) ?v (pk_rtt pkt), SetGauge ttl ?v (pk_ttl pkt)]"])
      (auto simp: on_recv_def Let_def emit_emit plain_calls_def)
  show "\<exists>cs. on_duplicate_recv c p pkt m = Some (emit cs m) \<and> plain_calls (arity m) cs"
    using v by (intro exI [of _ "[Increment dup ?v]"]) (auto simp: on_duplicate_recv_def)
  show "\<exists>cs. on_send_error c p pkt m = Some (emit cs m) \<and> plain_calls (arity m) cs"
    using v by (intro exI [of _ "[Increment send ?v]"]) (auto simp: on_send_error_def)
  show "\<exists>cs. on_recv_error err m = Some (emit cs m) \<and> plain_calls (arity m) cs"
    using v emit_emit(2) [of m]
    by (intro exI [of _ "if err = Some True then [] else [Increment recv []]"]) (auto simp: on_recv_error_def)
qed

end
