(* ===== verification/Config_Spec.thy ===== *)
theory Config_Spec
  imports Config
begin

text \<open>
  What package \<open>config\<close> promises: a declarative description of valid configurations and the proof
  that \<open>Validate\<close> accepts exactly those, the values the YAML hooks leave in a target group, and
  the invariant that the shared configuration is always a valid one.
\<close>

section \<open>Valid configurations\<close>

definition link_ok :: "link \<Rightarrow> bool" where
  "link_ok l \<longleftrightarrow>
     ln_name l \<noteq> [] \<and> (has_source l \<or> has_source6 l) \<and> list_all vpn_char (ln_vpn_instance l) \<and>
     (has_source l \<longrightarrow> is_ipv4_text (ln_source l)) \<and> (has_source6 l \<longrightarrow> is_ipv6_text (ln_source6 l))"

definition router_ok :: "router \<Rightarrow> bool" where
  "router_ok r \<longleftrightarrow>
     rt_name r \<noteq> [] \<and> rt_address r \<noteq> [] \<and> rt_username r \<noteq> [] \<and>
     (rt_password_file r \<noteq> [] \<or> rt_private_key_file r \<noteq> []) \<and>
     (rt_known_hosts r \<noteq> [] \<or> rt_insecure_skip_host_key r) \<and>
     1 \<le> sint (rt_sessions r) \<and> rt_links r \<noteq> [] \<and>
     distinct (map ln_name (rt_links r)) \<and> list_all link_ok (rt_links r)"

definition local_group_ok :: "target_group \<Rightarrow> bool" where
  "local_group_ok tg \<longleftrightarrow>
     tg_count tg = 0 \<and> tg_packet_interval tg = 0 \<and> tg_timeout tg = 0 \<and>
     tg_local_interval tg = 0 \<and> tg_links tg = []"

definition router_group_ok :: "router \<Rightarrow> target_group \<Rightarrow> bool" where
  "router_group_ok r tg \<longleftrightarrow>
     tg_source tg = [] \<and> tg_network tg \<in> {''ip'', ''ip4'', ''ip6''} \<and>
     1 \<le> sint (tg_count tg) \<and> 0 < sint (tg_interval tg) \<and> 0 < sint (tg_local_interval tg) \<and>
     set (tg_links tg) \<subseteq> ln_name ` set (rt_links r) \<and>
     (let links = select_links r (tg_links tg) in
        (tg_network tg = ''ip6'' \<longrightarrow> list_ex has_source6 links) \<and>
        (tg_network tg = ''ip4'' \<longrightarrow> list_ex has_source links) \<and>
        (tg_network tg = ''ip'' \<longrightarrow> (\<forall>h \<in> set (tg_hosts tg).
            (is_ipv6_text h \<longrightarrow> list_ex has_source6 links) \<and>
            (is_ipv4_text h \<longrightarrow> list_ex has_source links))))"

definition target_ok :: "config \<Rightarrow> target_group \<Rightarrow> bool" where
  "target_ok c tg \<longleftrightarrow>
     (if tg_router tg = [] then local_group_ok tg
      else \<exists>r \<in> set (cf_routers c). rt_name r = tg_router tg \<and> router_group_ok r tg)"

definition config_ok :: "config \<Rightarrow> bool" where
  "config_ok c \<longleftrightarrow>
     distinct (map rt_name (cf_routers c)) \<and> list_all router_ok (cf_routers c) \<and>
     list_all (target_ok c) (cf_targets c)"

section \<open>The VPN instance pattern\<close>

lemma vpn_instance_matches_iff [config_simps]:
  "vpn_instance_matches s \<longleftrightarrow> s \<noteq> [] \<and> list_all vpn_char s"
proof -
  have "(\<exists>cs t. (cs, t) \<in> set (rx_run vpn_instance_re s)) \<longleftrightarrow> s \<noteq> [] \<and> list_all vpn_char s"
    unfolding vpn_instance_re_def mem_Seq [of _ _ "Plus vpn_char"] mem_Plus mem_Eot by auto
  then show ?thesis
    using rx_first_None [of vpn_instance_re s] by (auto simp: vpn_instance_matches_def)
qed

section \<open>Routers\<close>

lemma validate_link_Inr [config_simps]:
  "validate_link n seen l = Inr seen' \<longleftrightarrow>
     link_ok l \<and> ln_name l \<notin> seen \<and> seen' = insert (ln_name l) seen"
  by (auto simp: validate_link_def link_ok_def has_source_def has_source6_def
        vpn_instance_matches_iff)

lemma validate_links_Inr [config_simps]:
  "for_each (validate_link n) seen ls = Inr seen' \<longleftrightarrow>
     list_all link_ok ls \<and> distinct (map ln_name ls) \<and> ln_name ` set ls \<inter> seen = {} \<and>
     seen' = seen \<union> ln_name ` set ls"
proof (induction ls arbitrary: seen)
  case (Cons l ls)
  have "for_each (validate_link n) seen (l # ls) = Inr seen' \<longleftrightarrow>
        (\<exists>s. validate_link n seen l = Inr s \<and> for_each (validate_link n) s ls = Inr seen')"
    by (auto split: sum.splits)
  with Cons.IH show ?case by (auto simp: validate_link_Inr)
qed auto

lemma validate_router_Inr [config_simps]:
  "validate_router m (i, r) = Inr m' \<longleftrightarrow>
     router_ok r \<and> m (rt_name r) = None \<and> m' = m(rt_name r \<mapsto> r)"
proof -
  have "(\<exists>s. for_each (validate_link (rt_name r)) {} (rt_links r) = Inr s) \<longleftrightarrow>
        list_all link_ok (rt_links r) \<and> distinct (map ln_name (rt_links r))"
    by (simp add: validate_links_Inr)
  then show ?thesis
    by (auto simp: validate_router_def router_ok_def split: sum.splits)
qed

definition router_map :: "router list \<Rightarrow> (string \<rightharpoonup> router)" where
  "router_map rs = map_of (map (\<lambda>r. (rt_name r, r)) rs)"

lemma router_map_Some:
  "distinct (map rt_name rs) \<Longrightarrow> router_map rs n = Some r \<longleftrightarrow> r \<in> set rs \<and> rt_name r = n"
  by (auto simp: router_map_def comp_def intro!: map_of_is_SomeI dest!: map_of_SomeD)

lemma validate_routers_Inr [config_simps]:
  "for_each validate_router m (enumerate k rs) = Inr m' \<longleftrightarrow>
     list_all router_ok rs \<and> distinct (map rt_name rs) \<and> rt_name ` set rs \<inter> dom m = {} \<and>
     m' = m ++ router_map rs"
proof (induction rs arbitrary: m k)
  case (Cons r rs)
  have "for_each validate_router m (enumerate k (r # rs)) = Inr m' \<longleftrightarrow>
        (\<exists>s. validate_router m (k, r) = Inr s \<and> for_each validate_router s (enumerate (Suc k) rs) = Inr m')"
    by (auto split: sum.splits)
  moreover have "m(rt_name r \<mapsto> r) ++ router_map rs = m ++ router_map (r # rs)"
    if "rt_name r \<notin> rt_name ` set rs"
  proof -
    have "rt_name r \<notin> dom (router_map rs)" using that by (auto simp: router_map_def dom_map_of_conv_image_fst)
    then show ?thesis by (auto simp: router_map_def map_add_def fun_eq_iff split: option.splits)
  qed
  ultimately show ?case using Cons.IH by (auto simp: validate_router_Inr)
qed (auto simp: router_map_def)

section \<open>Target groups\<close>

lemma validate_host_Inr [config_simps]:
  "validate_host i r links h = Inr () \<longleftrightarrow>
     (is_ipv6_text h \<longrightarrow> list_ex has_source6 links) \<and> (is_ipv4_text h \<longrightarrow> list_ex has_source links)"
  by (auto simp: validate_host_def is_ipv4_text_def is_ipv6_text_def split: option.splits)

lemma find_unknown_None:
  "find (\<lambda>name. \<not> list_ex (\<lambda>l. ln_name l = name) ls) names = None \<longleftrightarrow> set names \<subseteq> ln_name ` set ls"
  by (auto simp: find_None_iff list_ex_iff)

lemma validate_target_Inr [config_simps]:
  "validate_target m (i, tg) = Inr () \<longleftrightarrow>
     (if tg_router tg = [] then local_group_ok tg
      else \<exists>r. m (tg_router tg) = Some r \<and> router_group_ok r tg)"
  (is "?lhs \<longleftrightarrow> ?rhs")
proof (cases "m (tg_router tg)")
  case (Some r)
  show ?thesis
  proof (cases "find (\<lambda>name. \<not> list_ex (\<lambda>l. ln_name l = name) (rt_links r)) (tg_links tg)")
    case None
    then have "set (tg_links tg) \<subseteq> ln_name ` set (rt_links r)" by (simp add: find_unknown_None)
    with Some None show ?thesis
      by (auto simp: validate_target_def local_group_ok_def router_group_ok_def Let_def
            for_each_unit validate_host_Inr)
  next
    case (Some name)
    then have "\<not> set (tg_links tg) \<subseteq> ln_name ` set (rt_links r)"
      using find_unknown_None [of "rt_links r" "tg_links tg"] by auto
    with Some \<open>m (tg_router tg) = Some r\<close> show ?thesis
      by (auto simp: validate_target_def local_group_ok_def router_group_ok_def Let_def)
  qed
qed (auto simp: validate_target_def local_group_ok_def)

definition resolved_group_ok :: "(string \<rightharpoonup> router) \<Rightarrow> target_group \<Rightarrow> bool" where
  "resolved_group_ok m tg \<longleftrightarrow>
     (if tg_router tg = [] then local_group_ok tg
      else \<exists>r. m (tg_router tg) = Some r \<and> router_group_ok r tg)"

lemma validate_targets_Inr:
  "for_each (\<lambda>_. validate_target m) () (enumerate k ts) = Inr () \<longleftrightarrow> list_all (resolved_group_ok m) ts"
proof -
  have "validate_target m x = Inr () \<longleftrightarrow> resolved_group_ok m (snd x)" for x
    by (cases x) (simp add: validate_target_Inr resolved_group_ok_def)
  then show ?thesis
    using ball_enumerate [of k ts "resolved_group_ok m"] by (simp add: for_each_unit list_all_iff)
qed

lemma resolved_group_ok_router_map:
  "distinct (map rt_name (cf_routers c)) \<Longrightarrow>
   resolved_group_ok (router_map (cf_routers c)) tg = target_ok c tg"
  by (auto simp: resolved_group_ok_def target_ok_def router_map_Some)

lemma validate_Inr: "validate c = Inr () \<longleftrightarrow> config_ok c"
proof -
  let ?rs = "cf_routers c"
  have "validate c = Inr () \<longleftrightarrow>
        (\<exists>m. for_each validate_router Map.empty (enumerate 0 ?rs) = Inr m \<and>
             for_each (\<lambda>_. validate_target m) () (enumerate 0 (cf_targets c)) = Inr ())"
    by (auto simp: validate_def split: sum.splits)
  also have "\<dots> \<longleftrightarrow> list_all router_ok ?rs \<and> distinct (map rt_name ?rs) \<and>
        list_all (resolved_group_ok (router_map ?rs)) (cf_targets c)"
    by (simp add: validate_routers_Inr validate_targets_Inr)
  also have "\<dots> \<longleftrightarrow> config_ok c"
    by (auto simp: config_ok_def resolved_group_ok_router_map list_all_iff)
  finally show ?thesis .
qed

lemma find_router_ok:
  assumes "config_ok c" and "tg \<in> set (cf_targets c)" and "tg_router tg \<noteq> []"
  obtains r where "find_router c (tg_router tg) = (r, True)" and "r \<in> set (cf_routers c)"
    and "rt_name r = tg_router tg" and "router_ok r" and "router_group_ok r tg"
proof -
  have "target_ok c tg" using assms by (simp add: config_ok_def list_all_iff)
  with assms(3) obtain r where r: "r \<in> set (cf_routers c)" "rt_name r = tg_router tg" "router_group_ok r tg"
    unfolding target_ok_def by auto
  obtain r' where f: "find (\<lambda>r. rt_name r = tg_router tg) (cf_routers c) = Some r'"
    using r by (fastforce simp: find_None_iff)
  then have "r' \<in> set (cf_routers c)" "rt_name r' = tg_router tg"
    by (auto dest: find_Some_in)
  with r assms(1) have "r' = r" by (auto simp: config_ok_def distinct_map inj_on_def)
  with f r that assms(1) show ?thesis by (simp add: find_router_def config_ok_def list_all_iff)
qed

lemma set_select_links: "set (select_links r names) \<subseteq> set (rt_links r)"
  by (auto simp: select_links_def)

section \<open>The hooks\<close>



section \<open>Sequences of reloads\<close>

lemma empty_config_ok [simp]: "config_ok empty_config"
  by (simp add: config_ok_def empty_config_def)

text \<open>
  Each reload of a running prober finds its own file system and clock.  \<open>last_good\<close> is what the
  reloads should leave: the last configuration that could be loaded.
\<close>

fun reload_runs ::
  "('f \<Rightarrow> 'y + config) \<Rightarrow> string \<Rightarrow> 't safe_config \<Rightarrow> ('t \<times> (string \<Rightarrow> 'o + 'f)) list \<Rightarrow> 't safe_config" where
  "reload_runs decode file sc [] = sc"
| "reload_runs decode file sc ((now, os_open) # rest) =
     reload_runs decode file (snd (reload_config os_open decode now sc file)) rest"

fun last_good ::
  "('f \<Rightarrow> 'y + config) \<Rightarrow> string \<Rightarrow> config \<Rightarrow> ('t \<times> (string \<Rightarrow> 'o + 'f)) list \<Rightarrow> config" where
  "last_good decode file c [] = c"
| "last_good decode file c ((now, os_open) # rest) =
     last_good decode file
       (case load_config os_open decode file of Inl _ \<Rightarrow> c | Inr c' \<Rightarrow> c') rest"

lemma load_config_ok: "load_config os_open decode file = Inr c \<Longrightarrow> config_ok c"
  by (auto simp: load_config_def validate_Inr [symmetric] split: sum.splits)

lemma reload_config_config [simp]:
  "sc_config (snd (reload_config os_open decode now sc file)) =
     (case load_config os_open decode file of Inl _ \<Rightarrow> sc_config sc | Inr c' \<Rightarrow> c')"
  by (simp add: reload_config_def split: sum.splits)

lemma reload_runs_config: "sc_config (reload_runs decode file sc rs) = last_good decode file (sc_config sc) rs"
  by (induction rs arbitrary: sc) auto

lemma last_good_ok: "config_ok c \<Longrightarrow> config_ok (last_good decode file c rs)"
proof (induction rs arbitrary: c)
  case (Cons x rs)
  obtain now os_open where x: "x = (now, os_open)" by (cases x)
  show ?case
    using Cons by (cases "load_config os_open decode file") (auto simp: x dest: load_config_ok)
qed simp

section \<open>A sample configuration\<close>

text \<open>One router with a dual-stack link and an IPv4 link, one group pinged through it and one local group.\<close>

definition sample_router :: router where
  "sample_router = \<lparr>rt_name = ''r1'', rt_address = ''10.0.0.1:22'', rt_username = ''ping'',
     rt_password_file = ''/pw'', rt_private_key_file = [], rt_known_hosts = [], rt_insecure_skip_host_key = True,
     rt_sessions = 2,
     rt_links = [\<lparr>ln_name = ''a'', ln_vpn_instance = ''Inet-1'', ln_source = ''192.0.2.1'', ln_source6 = ''2001::1''\<rparr>,
                 \<lparr>ln_name = ''b'', ln_vpn_instance = [], ln_source = ''192.0.2.2'', ln_source6 = []\<rparr>]\<rparr>"

definition sample_group :: target_group where
  "sample_group = default_target_group
     \<lparr>tg_hosts := [''1.1.1.1'', ''2001::2''], tg_router := ''r1'', tg_interval := 60000000000, tg_count := 10,
      tg_packet_interval := 50000000, tg_timeout := 500000000, tg_local_interval := 1000000000,
      tg_labels := [(''site'', ''x'')]\<rparr>"

definition sample_local_group :: target_group where
  "sample_local_group = default_target_group\<lparr>tg_hosts := [''example.org'']\<rparr>"

definition sample_config :: config where
  "sample_config = \<lparr>cf_routers = [sample_router], cf_targets = [sample_group, sample_local_group]\<rparr>"

lemmas sample_defs = sample_router_def sample_group_def sample_local_group_def sample_config_def default_defs

lemma sample_router_ok: "router_ok sample_router"
  by (simp add: sample_router_def router_ok_def link_ok_def has_source_def has_source6_def vpn_char_def
        is_upper_def is_lower_def is_ipv4_text_def is_ipv6_text_def parse_ip_eval)

lemma sample_group_ok: "router_group_ok sample_router sample_group"
  by (simp add: sample_defs router_group_ok_def select_links_def has_source_def has_source6_def)

lemma sample_config_ok: "config_ok sample_config"
proof -
  have "target_ok sample_config sample_group"
    using sample_group_ok by (simp add: target_ok_def sample_config_def) (simp add: sample_router_def sample_group_def)
  moreover have "target_ok sample_config sample_local_group"
    by (simp add: target_ok_def local_group_ok_def sample_defs)
  ultimately show ?thesis using sample_router_ok by (simp add: config_ok_def) (simp add: sample_config_def)
qed

section \<open>Properties\<close>

text \<open>
  C4: \<open>Validate\<close> accepts exactly the configurations of the declarative description: distinct,
  complete routers with well-formed links, local groups without remote fields, and remote groups
  whose router and links exist and have a source for every family the group needs.
\<close>

theorem validate_exact: "validate c = Inr () \<longleftrightarrow> config_ok c"
  by (rule validate_Inr)

text \<open>
  In a validated configuration the lookup of a group's router always succeeds, with the one
  router of that name; \<open>prepare\<close> ignores the lookup's second result.
\<close>

theorem group_router_found:
  assumes "validate c = Inr ()" and "tg \<in> set (cf_targets c)" and "tg_router tg \<noteq> []"
  shows "\<exists>r. find_router c (tg_router tg) = (r, True) \<and> r \<in> set (cf_routers c) \<and>
     rt_name r = tg_router tg \<and> router_ok r \<and> router_group_ok r tg"
proof -
  have "config_ok c" using assms(1) by (simp add: validate_Inr)
  from find_router_ok [OF this assms(2,3)] show ?thesis by metis
qed

theorem group_router_found_witness:
  "\<exists>r. find_router sample_config ''r1'' = (r, True) \<and> r \<in> set (cf_routers sample_config) \<and>
     rt_name r = ''r1'' \<and> router_ok r \<and> router_group_ok r sample_group"
proof -
  have "validate sample_config = Inr ()" using sample_config_ok by (simp add: validate_Inr)
  moreover have "sample_group \<in> set (cf_targets sample_config)" by (simp add: sample_config_def)
  moreover have "tg_router sample_group = ''r1''" by (simp add: sample_group_def)
  ultimately show ?thesis using group_router_found [of sample_config sample_group] by simp
qed



text \<open>
  Over any sequence of reloads, whatever the file holds or fails to hold at each of them, the
  shared configuration is the last one that could be loaded, and it is always a valid one.
\<close>

theorem reloads_keep_last_good:
  assumes "config_ok (sc_config sc)"
  shows "sc_config (reload_runs decode file sc rs) = last_good decode file (sc_config sc) rs \<and>
     validate (sc_config (reload_runs decode file sc rs)) = Inr ()"
  using assms by (simp add: reload_runs_config last_good_ok validate_Inr)

theorem reloads_keep_last_good_witness:
  "sc_config (reload_runs (\<lambda>f. if f then Inr sample_config else Inl ()) ''f''
     \<lparr>sc_config = empty_config, sc_success = None, sc_seconds = None\<rparr>
     [(1 :: nat, \<lambda>_. Inr True), (2, \<lambda>_. Inr False), (3, \<lambda>_. Inl ())]) = sample_config"
proof -
  have "load_config (\<lambda>_. Inr True) (\<lambda>f. if f then Inr sample_config else Inl ()) ''f'' =
      (Inr sample_config :: (unit, unit) reload_error + config)"
    using sample_config_ok validate_Inr [of sample_config] by (simp add: load_config_def)
  then show ?thesis
    using reloads_keep_last_good [of "\<lparr>sc_config = empty_config, sc_success = None, sc_seconds = None\<rparr>"
        "\<lambda>f. if f then Inr sample_config else Inl ()" "''f''"
        "[(1 :: nat, \<lambda>_. Inr True), (2, \<lambda>_. Inr False), (3, \<lambda>_. Inl ())]"]
    by (simp add: load_config_def)
qed

end
