(* ===== verification/Huawei_Spec.thy ===== *)
theory Huawei_Spec
  imports Huawei
begin

text \<open>
  What remote/huawei.go promises: the words of the command it builds, the size of the deadline,
  and that \<open>ParseOutput\<close> reads back every ping transcript of the shape VRP prints, and only
  results whose reply count the router itself confirms.
\<close>

named_theorems vrp_simps \<open>searching a ping transcript\<close>

section \<open>The command line\<close>

definition command_words :: "job \<Rightarrow> string list" where
  "command_words j =
     (if j_ipv6 j then [''ping'', ''ipv6''] else [''ping'']) @
     (if j_vpn_instance j \<noteq> [] \<and> \<not> j_ipv6 j then [''-vpn-instance'', j_vpn_instance j] else []) @
     [''-c'', itoa (j_count j), ''-m'', itoa (milliseconds (j_packet_interval j)),
      ''-t'', itoa (milliseconds (j_timeout j)), ''-s'', itoa (j_size j),
      (if j_ipv6 j then ''-tc'' else ''-tos''), show_int (uint (j_tos j)), ''-a'', j_source j] @
     (if j_vpn_instance j \<noteq> [] \<and> j_ipv6 j then [''vpn-instance'', j_vpn_instance j] else []) @
     [j_target j]"

lemma build_command_words: "build_command j = join_with '' '' (command_words j)"
  by (simp add: build_command_def command_words_def)

text \<open>A job whose texts are printable words: what validation and resolution give.\<close>

definition job_ok :: "job \<Rightarrow> bool" where
  "job_ok j \<longleftrightarrow> plain_word (j_source j) \<and> plain_word (j_target j) \<and> list_all plain_char (j_vpn_instance j)"

lemma command_words_plain: "job_ok j \<Longrightarrow> list_all plain_word (command_words j)"
  by (simp add: command_words_def job_ok_def) (simp add: plain_word_def plain_char_def)

lemma str_fields_build_command: "job_ok j \<Longrightarrow> str_fields (build_command j) = command_words j"
  by (simp add: build_command_words str_fields_words command_words_plain)

lemma build_command_chars: "job_ok j \<Longrightarrow> c \<in> set (build_command j) \<Longrightarrow> c = CHR '' '' \<or> plain_char c"
proof -
  have "c \<in> set (join_with '' '' ws) \<Longrightarrow> list_all plain_word ws \<Longrightarrow> c = CHR '' '' \<or> plain_char c" for ws
    by (induction "'' ''" ws rule: join_with.induct) (auto simp: plain_word_def list_all_iff)
  then show "job_ok j \<Longrightarrow> c \<in> set (build_command j) \<Longrightarrow> c = CHR '' '' \<or> plain_char c"
    by (simp add: build_command_words command_words_plain)
qed

section \<open>The deadline\<close>

lemma command_deadline_exact:
  assumes "1 \<le> sint (j_count j)" "0 \<le> sint (j_timeout j)" "0 \<le> sint (j_packet_interval j)"
    and "sint (j_count j) * (sint (j_timeout j) + sint (j_packet_interval j)) + 5 * second \<le> i64_max"
  shows "sint (command_deadline j) =
     sint (j_count j) * (sint (j_timeout j) + sint (j_packet_interval j)) + 5 * second"
proof -
  let ?c = "sint (j_count j)" and ?w = "sint (j_timeout j) + sint (j_packet_interval j)"
  have "?w \<le> ?c * ?w" using assms(1-3) by (simp add: mult_le_cancel_right1)
  then have w: "fits64 ?w" "fits64 (?c * ?w)" "fits64 (?c * ?w + 5 * second)"
    using assms by (auto simp: fits64_def)
  have "sint (j_timeout j + j_packet_interval j) = ?w" using w by (simp add: sint_add64)
  moreover from this have "sint (j_count j * (j_timeout j + j_packet_interval j)) = ?c * ?w"
    using w by (simp add: sint_mult64)
  ultimately show ?thesis
    using w by (simp add: command_deadline_def sint_add64)
qed

section \<open>Count lines\<close>

definition count_re :: "string \<Rightarrow> rx" where
  "count_re kw = rx_seq [Cap (Plus is_digit), Plus is_space, Lit ''packet(s)'', Plus is_space, Lit kw]"

lemma sent_count_re: "sent_re = count_re ''transmitted''"
  and received_count_re: "received_re = count_re ''received''"
  by (simp_all add: sent_re_def received_re_def count_re_def)

lemma count_match:
  "(cs, t) \<in> set (rx_run (count_re kw) s) \<longleftrightarrow>
     (\<exists>ds sp sp'. cs = [ds] \<and> ds \<noteq> [] \<and> list_all is_digit ds \<and> sp \<noteq> [] \<and> list_all is_space sp \<and>
        sp' \<noteq> [] \<and> list_all is_space sp' \<and> s = ds @ sp @ ''packet(s)'' @ sp' @ kw @ t)"
  unfolding count_re_def rx_seq.simps mem_Cap_Plus_Seq mem_Plus_Seq mem_Lit_Seq mem_Lit by blast

lemma digit_not_space: "is_digit c \<Longrightarrow> \<not> is_space c"
  by (auto simp: is_digit_def is_space_def)

lemma hd_show_nat: "is_digit (hd (show_nat n))"
  using show_nat_digits [of n] by (cases "show_nat n") auto

lemmas hd_show_nat_space = digit_not_space [OF hd_show_nat, unfolded is_space_def, simplified]

lemma blank_space [simp]: "is_space (CHR '' '')" "is_space (CHR 0x0A)"
  by (simp_all add: is_space_def)

lemma count_first:
  assumes "ds \<noteq> []" "list_all is_digit ds" "kw \<noteq> []" "\<not> is_space (hd kw)"
  shows "rx_first (count_re kw) (ds @ '' '' @ ''packet(s)'' @ '' '' @ kw @ t) = Some ([ds], t)"
  unfolding count_re_def rx_seq.simps
  by (intro first_Cap_Plus_Seq first_Plus_Seq first_Lit_Seq first_Lit)
     (use assms in \<open>simp_all add: is_digit_def is_space_def\<close>)

text \<open>
  Text before a count line: no opening bracket and, at its end, neither a digit nor a blank.  No
  match can start in it.
\<close>

definition no_count :: "string \<Rightarrow> bool" where
  "no_count pre \<longleftrightarrow> CHR ''('' \<notin> set pre \<and> pre \<noteq> [] \<and> \<not> is_digit (last pre) \<and> \<not> is_space (last pre)"

lemma before_bracket:
  assumes "x @ ''packet('' @ t = y @ ''packet('' @ u" "CHR ''('' \<notin> set x" "CHR ''('' \<notin> set y"
  shows "x = y" and "t = u"
proof -
  have tw: "takeWhile (\<lambda>c. c \<noteq> CHR ''('') (z @ ''packet('' @ v) = z @ ''packet''" if "CHR ''('' \<notin> set z" for z v
    using that by (subst takeWhile_append2) auto
  have "x @ ''packet'' = y @ ''packet''"
    using arg_cong [OF assms(1), of "takeWhile (\<lambda>c. c \<noteq> CHR ''('')"]
    unfolding tw [OF assms(2)] tw [OF assms(3)] .
  then show "x = y" by simp
  with assms(1) show "t = u" by simp
qed

lemma no_bracket: "list_all is_digit w \<Longrightarrow> CHR ''('' \<notin> set w" "list_all is_space w \<Longrightarrow> CHR ''('' \<notin> set w"
  by (auto simp: list_all_iff is_digit_def is_space_def)

lemma count_skip:
  assumes pre: "no_count pre" and w: "list_all (\<lambda>c. is_digit c \<or> is_space c) w"
  shows "rx_find (count_re kw) (pre @ w @ ''packet('' @ t) =
     map_option (\<lambda>(p, m). (pre @ p, m)) (rx_find (count_re kw) (w @ ''packet('' @ t))"
proof (rule rx_find_skip)
  fix u v assume v: "pre = u @ v" "v \<noteq> []"
  show "rx_first (count_re kw) (v @ w @ ''packet('' @ t) = None"
  proof (rule ccontr)
    assume "rx_first (count_re kw) (v @ w @ ''packet('' @ t) \<noteq> None"
    then obtain ds sp sp' t' where m: "list_all is_digit ds" "list_all is_space sp"
      "v @ w @ ''packet('' @ t = ds @ sp @ ''packet(s)'' @ sp' @ kw @ t'"
      by (auto simp: rx_first_None count_match)
    then have "(v @ w) @ ''packet('' @ t = (ds @ sp) @ ''packet('' @ ''s)'' @ sp' @ kw @ t'" by simp
    moreover have "CHR ''('' \<notin> set w" using w by (auto simp: list_all_iff is_digit_def is_space_def)
    then have "CHR ''('' \<notin> set (v @ w)" using pre v by (simp add: no_count_def)
    moreover have "CHR ''('' \<notin> set (ds @ sp)" using no_bracket m(1,2) by simp
    ultimately have "v @ w = ds @ sp" by (rule before_bracket(1))
    then have "last v \<in> set (ds @ sp)" using v(2) by (metis Un_iff last_in_set set_append)
    then have "is_digit (last pre) \<or> is_space (last pre)" using v m(1,2) by (auto simp: list_all_iff)
    with pre show False by (simp add: no_count_def)
  qed
qed

text \<open>A match starts with a digit.\<close>

lemma count_no_digit: "\<not> is_digit c \<Longrightarrow> rx_first (count_re kw) (c # s) = None"
  by (auto simp: rx_first_None count_match Cons_eq_append_conv)

lemma count_skip_no_digit:
  "list_all (\<lambda>c. \<not> is_digit c) pre \<Longrightarrow>
   rx_find (count_re kw) (pre @ s) = map_option (\<lambda>(p, m). (pre @ p, m)) (rx_find (count_re kw) s)"
  by (rule rx_find_skip) (auto simp: neq_Nil_conv count_no_digit)

lemma count_other_keyword:
  assumes v: "list_all is_digit v"
    and kw: "kw \<noteq> []" "kw' \<noteq> []" "hd kw \<noteq> hd kw'" "\<not> is_space (hd kw')"
  shows "rx_first (count_re kw) (v @ '' '' @ ''packet(s)'' @ '' '' @ kw' @ t) = None"
proof (rule ccontr)
  assume "rx_first (count_re kw) (v @ '' '' @ ''packet(s)'' @ '' '' @ kw' @ t) \<noteq> None"
  then obtain ds sp sp' t' where m: "list_all is_digit ds" "list_all is_space sp" "list_all is_space sp'" "sp' \<noteq> []"
    "v @ '' '' @ ''packet(s)'' @ '' '' @ kw' @ t = ds @ sp @ ''packet(s)'' @ sp' @ kw @ t'"
    unfolding rx_first_None count_match by blast
  then have eq: "(v @ '' '') @ ''packet('' @ ''s) '' @ kw' @ t = (ds @ sp) @ ''packet('' @ ''s)'' @ sp' @ kw @ t'" by simp
  have "CHR ''('' \<notin> set (v @ '' '')" "CHR ''('' \<notin> set (ds @ sp)" using no_bracket v m(1,2) by auto
  then have "''s) '' @ kw' @ t = ''s)'' @ sp' @ kw @ t'" by (rule before_bracket(2) [OF eq])
  then have "'' '' @ kw' @ t = sp' @ kw @ t'" by simp
  with m(4) obtain sp'' where "sp' = CHR '' '' # sp''" "kw' @ t = sp'' @ kw @ t'" by (cases sp') auto
  with m(3) kw show False by (cases sp''; cases kw; cases kw') auto
qed

section \<open>Ping transcripts\<close>

text \<open>
  The outputs collected in remote/huawei_test.go, as a function of what happened: a heading, one
  text per echo request (IPv6 replies take two lines), and the two count lines.  Heading,
  statistics rule and trailing lines may be anything without the letters S and R and the bracket
  that the patterns search for.
\<close>

datatype ping_event = Answer nat nat nat | Lost

abbreviation nl :: string where "nl \<equiv> [CHR 0x0A]"

definition reply_text :: "bool \<Rightarrow> nat \<Rightarrow> nat \<Rightarrow> nat \<Rightarrow> string" where
  "reply_text v6 s h m =
     ''Sequence='' @ show_nat s @ '' '' @ (if v6 then ''hop limit'' else ''ttl'') @ ''='' @ show_nat h @
     '' '' @ ''time'' @ [] @ ''='' @ [] @ show_nat m @ '' '' @ ''ms''"

definition reply_head :: "bool \<Rightarrow> string \<Rightarrow> nat \<Rightarrow> string" where
  "reply_head v6 dst n = ''eply from '' @ dst @ (if v6 then nl @ ''    '' else '': '') @ ''bytes='' @ show_nat n @ '' ''"

fun event_text :: "bool \<Rightarrow> string \<Rightarrow> nat \<Rightarrow> ping_event \<Rightarrow> string" where
  "event_text v6 dst n (Answer s h m) = ''    '' @ ''R'' @ reply_head v6 dst n @ reply_text v6 s h m @ nl"
| "event_text v6 dst n Lost = ''    '' @ ''Request time out'' @ nl"

definition events_text :: "bool \<Rightarrow> string \<Rightarrow> nat \<Rightarrow> ping_event list \<Rightarrow> string" where
  "events_text v6 dst n evs = concat (map (event_text v6 dst n) evs)"

definition counts_text :: "nat \<Rightarrow> nat \<Rightarrow> string" where
  "counts_text sent received =
     (nl @ ''    '') @ show_nat sent @ '' '' @ ''packet(s)'' @ '' '' @ ''transmitted'' @
     (nl @ ''    '') @ show_nat received @ '' '' @ ''packet(s)'' @ '' '' @ ''received''"

definition quiet :: "string \<Rightarrow> bool" where
  "quiet s \<longleftrightarrow> list_all (\<lambda>c. c \<noteq> CHR ''S'' \<and> c \<noteq> CHR ''R'' \<and> c \<noteq> CHR ''('') s"

fun answers :: "ping_event list \<Rightarrow> reply list" where
  "answers [] = []"
| "answers (Answer s h m # evs) =
     \<lparr>rp_seq = word_of_int (int s), rp_rtt = word_of_int (int m) * 1000000, rp_ttl = word_of_int (int h)\<rparr>
     # answers evs"
| "answers (Lost # evs) = answers evs"

fun lost :: "ping_event list \<Rightarrow> nat" where
  "lost [] = 0"
| "lost (Answer s h m # evs) = lost evs"
| "lost (Lost # evs) = Suc (lost evs)"

fun in_range :: "ping_event \<Rightarrow> bool" where
  "in_range (Answer s h m) \<longleftrightarrow> int s \<le> i64_max \<and> int h \<le> i64_max \<and> int m \<le> i64_max"
| "in_range Lost \<longleftrightarrow> True"

fun captures :: "ping_event list \<Rightarrow> string list list" where
  "captures [] = []"
| "captures (Answer s h m # evs) = [show_nat s, show_nat h, show_nat m] # captures evs"
| "captures (Lost # evs) = captures evs"

lemma map_reply_of_captures: "list_all in_range evs \<Longrightarrow> map reply_of (captures evs) = answers evs"
  by (induction evs rule: captures.induct) (simp_all add: reply_of_def atoi_show_nat)

subsection \<open>Replies\<close>

lemma reply_first:
  "rx_first reply_re (reply_text v6 s h m @ t) = Some ([show_nat s, show_nat h, show_nat m], t)"
proof -
  have kw: "rx_first (Seq (Alt (Lit ''ttl'') (Lit ''hop limit'')) b) (kw @ u) = Some x"
    if "kw = ''ttl'' \<or> kw = ''hop limit''" "rx_first b u = Some x" for kw b u x
  proof -
    have "rx_first (Alt (Lit ''ttl'') (Lit ''hop limit'')) (kw @ u) = Some ([], u)"
      using that(1) by (auto simp: rx_first_def)
    then show ?thesis using first_Seq [of "Alt (Lit ''ttl'') (Lit ''hop limit'')" "kw @ u" "[]" u b] that(2)
      by (cases x) auto
  qed
  show ?thesis
    unfolding reply_re_def rx_seq.simps reply_text_def append_assoc
    by (intro first_Lit_Seq first_Cap_Plus_Seq first_Plus_Seq first_Many_Seq kw first_Lit)
       (simp_all add: show_nat_digits is_digit_def is_space_def hd_append hd_show_nat_space)
qed

lemma reply_shorter: "rx_first reply_re s = Some (cs, t) \<Longrightarrow> length t < length s"
  unfolding reply_re_def rx_seq.simps by (erule first_Lit_Seq_shorter) simp

lemma reply_find_all_skip:
  "CHR ''S'' \<notin> set pre \<Longrightarrow> rx_find_all reply_re (pre @ s) = rx_find_all reply_re s"
proof (rule rx_find_all_skip_None [OF _ reply_shorter])
  fix u v assume "CHR ''S'' \<notin> set pre" "pre = u @ v" "v \<noteq> []"
  then show "rx_first reply_re (v @ s) = None"
    by (cases v) (auto simp: rx_first_None reply_re_def mem_Lit_Seq simp del: rx_run.simps)
qed

lemma timeout_find_all_skip:
  "CHR ''R'' \<notin> set pre \<Longrightarrow> rx_find_all timeout_re (pre @ s) = rx_find_all timeout_re s"
proof (rule rx_find_all_skip_None)
  fix u v assume "CHR ''R'' \<notin> set pre" "pre = u @ v" "v \<noteq> []"
  then show "rx_first timeout_re (v @ s) = None"
    by (cases v) (auto simp: rx_first_def timeout_re_def)
qed (simp add: timeout_re_def first_Lit_shorter)

lemma digits_quiet: "list_all is_digit s \<Longrightarrow> quiet s"
  by (auto simp: quiet_def list_all_iff is_digit_def)

lemma quiet_append [simp]: "quiet (s @ t) \<longleftrightarrow> quiet s \<and> quiet t"
  by (simp add: quiet_def)

lemma quiet_show_nat [simp]: "quiet (show_nat n)"
  by (rule digits_quiet [OF show_nat_digits])

lemma quietD: "quiet s \<Longrightarrow> CHR ''S'' \<notin> set s" "quiet s \<Longrightarrow> CHR ''R'' \<notin> set s" "quiet s \<Longrightarrow> CHR ''('' \<notin> set s"
  by (auto simp: quiet_def list_all_iff)

lemma quiet_reply_head: "quiet dst \<Longrightarrow> quiet (reply_head v6 dst n)"
  using quiet_show_nat [of n] by (simp add: reply_head_def quiet_def)

lemma find_all_replies:
  assumes "quiet dst"
  shows "rx_find_all reply_re (events_text v6 dst n evs @ s) = captures evs @ rx_find_all reply_re s"
proof (induction evs)
  case (Cons ev evs)
  let ?rest = "events_text v6 dst n evs @ s"
  have "rx_find_all reply_re (event_text v6 dst n ev @ ?rest) = captures [ev] @ rx_find_all reply_re ?rest"
  proof (cases ev)
    case (Answer q h m)
    have "CHR ''S'' \<notin> set (''    '' @ ''R'' @ reply_head v6 dst n)"
      using quietD(1) [OF quiet_reply_head [OF assms]] by simp
    then have "rx_find_all reply_re (event_text v6 dst n ev @ ?rest) =
        rx_find_all reply_re (reply_text v6 q h m @ nl @ ?rest)"
      using reply_find_all_skip [of "''    '' @ ''R'' @ reply_head v6 dst n"] Answer by simp
    also have "\<dots> = [show_nat q, show_nat h, show_nat m] # rx_find_all reply_re (nl @ ?rest)"
      by (rule rx_find_all_here [OF reply_first]) (simp add: reply_text_def)
    also have "rx_find_all reply_re (nl @ ?rest) = rx_find_all reply_re ?rest"
      by (rule reply_find_all_skip) simp
    finally show ?thesis using Answer by simp
  next
    case Lost
    then show ?thesis using reply_find_all_skip [of "event_text v6 dst n Lost" ?rest] by simp
  qed
  moreover have "captures (ev # evs) = captures [ev] @ captures evs" by (cases ev) simp_all
  ultimately show ?case using Cons.IH by (simp add: events_text_def)
qed (simp add: events_text_def)

lemma find_all_timeouts:
  assumes "quiet dst"
  shows "length (rx_find_all timeout_re (events_text v6 dst n evs @ s)) = lost evs + length (rx_find_all timeout_re s)"
proof (induction evs)
  case (Cons ev evs)
  let ?rest = "events_text v6 dst n evs @ s"
  have "length (rx_find_all timeout_re (event_text v6 dst n ev @ ?rest)) = lost [ev] + length (rx_find_all timeout_re ?rest)"
  proof (cases ev)
    case (Answer q h m)
    let ?head = "reply_head v6 dst n" and ?rep = "reply_text v6 q h m"
    have "rx_find_all timeout_re (event_text v6 dst n ev @ ?rest) =
        rx_find_all timeout_re (''R'' @ ?head @ ?rep @ nl @ ?rest)"
      using timeout_find_all_skip [of "''    ''"] Answer by simp
    also have "\<dots> = rx_find_all timeout_re (?head @ ?rep @ nl @ ?rest)"
    proof (rule rx_find_all_skip_None)
      fix u v assume "''R'' = u @ v" "v \<noteq> []"
      then have "v = ''R''" by (cases u) auto
      then show "rx_first timeout_re (v @ ?head @ ?rep @ nl @ ?rest) = None"
        by (simp add: rx_first_def timeout_re_def reply_head_def)
    qed (simp add: timeout_re_def first_Lit_shorter)
    also have "\<dots> = rx_find_all timeout_re ?rest"
    proof -
      have "CHR ''R'' \<notin> set ?rep" using quietD(2) [OF quiet_show_nat] by (simp add: reply_text_def)
      then have "CHR ''R'' \<notin> set (?head @ ?rep @ nl)" using quietD(2) [OF quiet_reply_head [OF assms]] by simp
      then show ?thesis using timeout_find_all_skip [of "?head @ ?rep @ nl" ?rest] by simp
    qed
    finally show ?thesis using Answer by simp
  next
    case Lost
    have "rx_find_all timeout_re (event_text v6 dst n ev @ ?rest) =
        rx_find_all timeout_re (''Request time out'' @ nl @ ?rest)"
      using timeout_find_all_skip [of "''    ''"] Lost by simp
    also have "\<dots> = [] # rx_find_all timeout_re (nl @ ?rest)"
      unfolding timeout_re_def by (rule rx_find_all_here [OF first_Lit]) simp
    also have "rx_find_all timeout_re (nl @ ?rest) = rx_find_all timeout_re ?rest"
      by (rule timeout_find_all_skip) simp
    finally show ?thesis using Lost by simp
  qed
  moreover have "lost (ev # evs) = lost [ev] + lost evs" by (cases ev) simp_all
  ultimately show ?case using Cons.IH by (simp add: events_text_def)
qed (simp add: events_text_def)

subsection \<open>Counts\<close>

lemma no_bracket_events: "quiet dst \<Longrightarrow> CHR ''('' \<notin> set (events_text v6 dst n evs)"
proof -
  assume dst: "quiet dst"
  have "CHR ''('' \<notin> set (event_text v6 dst n ev)" for ev
    using quietD(3) [OF quiet_reply_head [OF dst]] quietD(3) [OF quiet_show_nat]
    by (cases ev) (auto simp: reply_text_def)
  then show ?thesis by (simp add: events_text_def)
qed

text \<open>A heading such as VRP's, with its \<open>CTRL_C\<close>: no reply, count or timeout line can start in it.\<close>

definition calm :: "string \<Rightarrow> bool" where
  "calm s \<longleftrightarrow> CHR ''S'' \<notin> set s \<and> CHR ''('' \<notin> set s \<and> \<not> contains s ''Re'' \<and> (s \<noteq> [] \<longrightarrow> last s \<noteq> CHR ''R'')"

lemma timeout_find_all_calm:
  assumes "calm pre"
  shows "rx_find_all timeout_re (pre @ s) = rx_find_all timeout_re s"
proof (rule rx_find_all_skip_None)
  fix u v assume v: "pre = u @ v" "v \<noteq> []"
  show "rx_first timeout_re (v @ s) = None"
  proof (cases "hd v = CHR ''R''")
    case True
    then obtain w where w: "v = CHR ''R'' # w" using v(2) by (cases v) auto
    then have "w \<noteq> []" using assms v(1) by (auto simp: calm_def)
    then obtain c w' where w': "w = c # w'" by (cases w) auto
    have "c \<noteq> CHR ''e''"
    proof
      assume "c = CHR ''e''"
      then have "pre = u @ ''Re'' @ w'" using v(1) w w' by simp
      then have "contains pre ''Re''" unfolding contains_iff by blast
      with assms show False by (simp add: calm_def)
    qed
    with w w' show ?thesis by (simp add: rx_first_def timeout_re_def)
  next
    case False
    with v(2) show ?thesis by (cases v) (auto simp: rx_first_def timeout_re_def)
  qed
qed (simp add: timeout_re_def first_Lit_shorter)

definition transcript ::
  "string \<Rightarrow> bool \<Rightarrow> string \<Rightarrow> nat \<Rightarrow> ping_event list \<Rightarrow> string \<Rightarrow> nat \<Rightarrow> nat \<Rightarrow> string \<Rightarrow> string" where
  "transcript heading v6 dst n evs rule sent received tail =
     heading @ events_text v6 dst n evs @ rule @ counts_text sent received @ tail"

definition transcript_ok :: "string \<Rightarrow> string \<Rightarrow> ping_event list \<Rightarrow> string \<Rightarrow> string \<Rightarrow> bool" where
  "transcript_ok heading dst evs rule tail \<longleftrightarrow>
     calm heading \<and> quiet dst \<and> list_all in_range evs \<and> quiet tail \<and>
     quiet rule \<and> rule \<noteq> [] \<and> last rule = CHR ''-''"

lemma count_find_at:
  assumes pre: "no_count pre" and w: "list_all is_space w" and ds: "list_all is_digit ds"
  shows "rx_find (count_re kw) (pre @ w @ ds @ '' '' @ ''packet(s)'' @ u) =
     map_option (\<lambda>(p, m). ((pre @ w) @ p, m)) (rx_find (count_re kw) (ds @ '' '' @ ''packet(s)'' @ u))"
proof -
  have gap: "list_all (\<lambda>c. is_digit c \<or> is_space c) (w @ ds @ '' '')"
    using w ds by (auto simp: list_all_iff)
  have "rx_find (count_re kw) (pre @ w @ ds @ '' '' @ ''packet(s)'' @ u) =
      map_option (\<lambda>(p, m). (pre @ p, m)) (rx_find (count_re kw) (w @ ds @ '' '' @ ''packet(s)'' @ u))"
    using count_skip [OF pre gap, of kw "''s)'' @ u"] by simp
  also have "rx_find (count_re kw) (w @ ds @ '' '' @ ''packet(s)'' @ u) =
      map_option (\<lambda>(p, m). (w @ p, m)) (rx_find (count_re kw) (ds @ '' '' @ ''packet(s)'' @ u))"
    using w digit_not_space by (intro count_skip_no_digit) (auto simp: list_all_iff)
  finally show ?thesis by (simp add: option.map_comp comp_def case_prod_unfold)
qed

lemma counts_transcript:
  fixes v6 :: bool and n sent received :: nat
  assumes "transcript_ok heading dst evs rule tail"
  defines "T \<equiv> transcript heading v6 dst n evs rule sent received tail"
  obtains p t where "rx_find sent_re T = Some (p, [show_nat sent], t)"
    and "\<exists>p' t'. rx_find received_re T = Some (p', [show_nat received], t')"
proof -
  let ?pre = "heading @ events_text v6 dst n evs @ rule"
  have pre: "no_count ?pre"
    using assms(1) no_bracket_events quietD(3)
    by (auto simp: transcript_ok_def calm_def no_count_def is_digit_def is_space_def)
  let ?more = "(nl @ ''    '') @ show_nat received @ '' '' @ ''packet(s)'' @ '' '' @ ''received'' @ tail"
  let ?S = "show_nat sent @ '' '' @ ''packet(s)'' @ '' '' @ ''transmitted'' @ ?more"
  have T: "T = ?pre @ (nl @ ''    '') @ ?S"
    by (simp add: T_def transcript_def counts_text_def)
  have find: "rx_find (count_re kw) T = map_option (\<lambda>(p, m). ((?pre @ nl @ ''    '') @ p, m)) (rx_find (count_re kw) ?S)" for kw
    unfolding T by (subst count_find_at [OF pre]) (simp_all add: show_nat_digits)
  have "rx_find (count_re ''transmitted'') ?S = Some ([], [show_nat sent], ?more)"
    by (rule rx_find_here [OF count_first]) (simp_all add: show_nat_digits is_space_def)
  then have s: "\<exists>p t. rx_find sent_re T = Some (p, [show_nat sent], t)"
    unfolding sent_count_re find by (simp only: option.map split_conv) blast
  have "rx_find (count_re ''received'') ?S =
      map_option (\<lambda>(p, m). (show_nat sent @ p, m)) (rx_find (count_re ''received'') ('' '' @ ''packet(s)'' @ '' '' @ ''transmitted'' @ ?more))"
  proof (rule rx_find_skip)
    fix u v assume "show_nat sent = u @ v" "v \<noteq> []"
    then have "list_all is_digit v" using show_nat_digits [of sent] by simp
    then show "rx_first (count_re ''received'') (v @ '' '' @ ''packet(s)'' @ '' '' @ ''transmitted'' @ ?more) = None"
      by (rule count_other_keyword) (simp_all add: is_space_def)
  qed
  moreover have "'' '' @ ''packet(s)'' @ '' '' @ ''transmitted'' @ ?more = ('' packet(s) transmitted'' @ nl @ ''    '') @
        show_nat received @ '' '' @ ''packet(s)'' @ '' '' @ ''received'' @ tail" by simp
  moreover have "rx_find (count_re ''received'') (('' packet(s) transmitted'' @ nl @ ''    '') @
        show_nat received @ '' '' @ ''packet(s)'' @ '' '' @ ''received'' @ tail) =
      map_option (\<lambda>(p, m). (('' packet(s) transmitted'' @ nl @ ''    '') @ p, m)) (rx_find (count_re ''received'')
        (show_nat received @ '' '' @ ''packet(s)'' @ '' '' @ ''received'' @ tail))"
    by (rule count_skip_no_digit) (simp add: is_digit_def)
  moreover have "rx_find (count_re ''received'') (show_nat received @ '' '' @ ''packet(s)'' @ '' '' @ ''received'' @ tail)
      = Some ([], [show_nat received], tail)"
    by (rule rx_find_here [OF count_first]) (simp_all add: show_nat_digits is_space_def)
  ultimately have "\<exists>p' t'. rx_find received_re T = Some (p', [show_nat received], t')"
    unfolding received_count_re find by (simp only: option.map split_conv) blast
  with s that show ?thesis by blast
qed

lemma parse_transcript:
  assumes ok: "transcript_ok heading dst evs rule tail"
    and sent: "int sent \<le> i64_max" and received: "int received \<le> i64_max"
  shows "parse_output (transcript heading v6 dst n evs rule sent received tail) =
     (if received = length (answers evs)
      then Inr \<lparr>rs_sent = word_of_int (int sent), rs_replies = answers evs, rs_timeouts = lost evs\<rparr>
      else Inl (ReplyCountMismatch (word_of_int (int received)) (length (answers evs))))"
proof -
  let ?T = "transcript heading v6 dst n evs rule sent received tail"
  let ?rest = "rule @ counts_text sent received @ tail"
  have quiet_rest: "CHR ''S'' \<notin> set ?rest" "CHR ''R'' \<notin> set ?rest" and q: "calm heading" "quiet dst"
    using ok quietD quietD [OF quiet_show_nat] by (auto simp: transcript_ok_def counts_text_def)
  have "rx_find_all reply_re ?T = captures evs @ rx_find_all reply_re ?rest"
    using reply_find_all_skip [of heading] q(1) find_all_replies [OF q(2)] by (simp add: transcript_def calm_def)
  also have "rx_find_all reply_re ?rest = rx_find_all reply_re []"
    using reply_find_all_skip [OF quiet_rest(1), of "[]"] by simp
  also have "\<dots> = []" by (rule rx_find_all_none) (simp add: rx_first_def reply_re_def)
  finally have replies: "map reply_of (rx_find_all reply_re ?T) = answers evs"
    using ok map_reply_of_captures by (simp add: transcript_ok_def)
  have "rx_find_all timeout_re ?rest = rx_find_all timeout_re []"
    using timeout_find_all_skip [OF quiet_rest(2), of "[]"] by simp
  also have "\<dots> = []" by (rule rx_find_all_none) (simp add: rx_first_def timeout_re_def)
  finally have timeouts: "length (rx_find_all timeout_re ?T) = lost evs"
    using timeout_find_all_calm [OF q(1)] find_all_timeouts [OF q(2)] by (simp add: transcript_def)
  obtain p t p' t' where counts: "rx_find sent_re ?T = Some (p, [show_nat sent], t)"
    "rx_find received_re ?T = Some (p', [show_nat received], t')"
    using counts_transcript [OF ok] by metis
  have "sint (word_of_int (int received) :: i64) = int received"
    using received by (intro sint_word_of_int64) (simp add: fits64_def)
  with counts replies timeouts sent received show ?thesis
    by (simp add: parse_output_def Let_def atoi_show_nat)
qed

section \<open>Outputs without counts\<close>

lemma count_first_mem:
  assumes "rx_find (count_re kw) out = Some (p, m, t)"
  shows "contains out ''packet(s)''" and "\<exists>ds. m = [ds]"
proof -
  obtain u where u: "out = p @ u" "rx_first (count_re kw) u = Some (m, t)"
    using rx_find_SomeD [OF assms] by blast
  then have "(m, t) \<in> set (rx_run (count_re kw) u)" using rx_first_mem by blast
  then obtain ds sp sp' where *: "m = [ds]" "u = ds @ sp @ ''packet(s)'' @ sp' @ kw @ t"
    unfolding count_match by blast
  then have "out = (p @ ds @ sp) @ ''packet(s)'' @ (sp' @ kw @ t)" using u(1) by simp
  then show "contains out ''packet(s)''" unfolding contains_iff by blast
  show "\<exists>ds. m = [ds]" using *(1) by blast
qed

lemma no_counts: "\<not> contains out ''packet(s)'' \<Longrightarrow> rx_find (count_re kw) out = None"
  using count_first_mem(1) by (cases "rx_find (count_re kw) out") auto

section \<open>A sample transcript\<close>

definition sample_events :: "ping_event list" where
  "sample_events = [Answer 1 119 55, Lost, Answer 3 119 57]"

definition sample_output :: string where
  "sample_output = transcript (''PING 8.8.8.8: 56  data bytes, press CTRL_C to break'' @ nl) False ''8.8.8.8'' 56 sample_events
     (nl @ ''  --- 8.8.8.8 ping statistics ---'') 3 2 (nl @ ''    33.33% packet loss'')"

lemma sample_transcript_ok:
  "transcript_ok (''PING 8.8.8.8: 56  data bytes, press CTRL_C to break'' @ nl) ''8.8.8.8'' sample_events
     (nl @ ''  --- 8.8.8.8 ping statistics ---'') (nl @ ''    33.33% packet loss'')"
  by (simp add: transcript_ok_def calm_def quiet_def sample_events_def contains_def index_tail.simps has_prefix_def)

definition sample_result :: result where
  "sample_result = \<lparr>rs_sent = 3, rs_replies = [\<lparr>rp_seq = 1, rp_rtt = 55000000, rp_ttl = 119\<rparr>,
     \<lparr>rp_seq = 3, rp_rtt = 57000000, rp_ttl = 119\<rparr>], rs_timeouts = 1\<rparr>"

lemma parse_sample: "parse_output sample_output = Inr sample_result"
  unfolding sample_output_def
  by (subst parse_transcript [OF sample_transcript_ok]) (simp_all add: sample_events_def sample_result_def)

section \<open>Properties\<close>

text \<open>
  C10: \<open>ParseOutput\<close> reads back every ping transcript of the shape VRP prints, whatever the sequence
  of replies and lost packets: all replies in order with their numbers, the packets sent and the
  timeouts; a transcript whose reply count disagrees with its replies is an error.
\<close>

theorem transcript_roundtrip:
  assumes "transcript_ok heading dst evs rule tail"
    and "int sent \<le> i64_max" and "int received \<le> i64_max"
  shows "parse_output (transcript heading v6 dst n evs rule sent received tail) =
     (if received = length (answers evs)
      then Inr \<lparr>rs_sent = word_of_int (int sent), rs_replies = answers evs, rs_timeouts = lost evs\<rparr>
      else Inl (ReplyCountMismatch (word_of_int (int received)) (length (answers evs))))"
  using assms by (rule parse_transcript)

theorem transcript_roundtrip_witness:
  "parse_output sample_output = Inr sample_result"
  unfolding sample_output_def
  by (subst transcript_roundtrip [OF sample_transcript_ok]) (simp_all add: sample_events_def sample_result_def)

text \<open>
  What a router prints instead of pinging is never taken for a result: an output without a
  count of packets is an error that carries its first line.
\<close>

theorem refused_command_is_error:
  assumes "\<not> contains out ''packet(s)''"
  shows "parse_output out = Inl (NoSentCount (first_line out))"
  using no_counts [OF assms] by (simp add: parse_output_def sent_count_re)

theorem refused_command_is_error_witness:
  "parse_output ''Error: no route'' = Inl (NoSentCount (first_line ''Error: no route''))"
  by (rule refused_command_is_error) (simp add: contains_def index_tail.simps has_prefix_def)

text \<open>
  C40: A result is confirmed by the router: the output has a count of packets received, and it is
  the number of replies of the result, which are all the reply lines of the output.
\<close>

theorem result_is_confirmed:
  assumes "parse_output out = Inr res"
  shows "\<exists>p ds t. rx_find received_re out = Some (p, [ds], t) \<and> contains out ''packet(s)'' \<and>
     sint (atoi_digits ds) = int (length (rs_replies res)) \<and>
     rs_replies res = map reply_of (rx_find_all reply_re out)"
proof -
  obtain p m t where r: "rx_find received_re out = Some (p, m, t)"
    and n: "sint (atoi_digits (hd m)) = int (length (rs_replies res))"
    and reps: "rs_replies res = map reply_of (rx_find_all reply_re out)"
    using assms by (auto simp: parse_output_def Let_def split: option.splits if_splits)
  show ?thesis using count_first_mem [OF r [unfolded received_count_re]] r n reps by auto
qed

theorem result_is_confirmed_witness:
  "\<exists>p ds t. rx_find received_re sample_output = Some (p, [ds], t) \<and> sint (atoi_digits ds) = 2"
  using result_is_confirmed [OF parse_sample] by (auto simp: sample_result_def)

text \<open>
  As long as the product does not overflow, the deadline of a command is exactly the time its
  pings may take, plus five seconds.
\<close>

theorem deadline_exact:
  assumes "1 \<le> sint (j_count j)" "0 \<le> sint (j_timeout j)" "0 \<le> sint (j_packet_interval j)"
    and "sint (j_count j) * (sint (j_timeout j) + sint (j_packet_interval j)) + 5 * second \<le> i64_max"
  shows "sint (command_deadline j) =
     sint (j_count j) * (sint (j_timeout j) + sint (j_packet_interval j)) + 5 * second"
  using assms by (rule command_deadline_exact)

theorem deadline_exact_witness:
  "sint (command_deadline \<lparr>j_target = ''1.1.1.1'', j_ipv6 = False, j_source = ''192.0.2.1'', j_count = 10,
     j_packet_interval = 50000000, j_timeout = 500000000, j_size = 56, j_tos = 0, j_vpn_instance = []\<rparr>) = 10500000000"
  by (subst deadline_exact) simp_all

end
