(* ===== verification/Targets_Spec.thy ===== *)
theory Targets_Spec
  imports Targets Config_Spec Huawei_Spec Session
begin

text \<open>
  What remote/targets.go promises: which targets a group expands to, that a group which passed
  validation always has a link for its literal hosts, and that every job built from a validated
  group is a single command line whose last word is the destination, which is what the session
  waits for.  The locale \<open>literal_resolver\<close> is what the expansion relies on; \<open>Resolve\<close> provides it
  whatever the resolver of the host answers.
\<close>

section \<open>The targets of a group\<close>

definition host_targets :: "target_group \<Rightarrow> router \<Rightarrow> string \<Rightarrow> ip \<Rightarrow> target list" where
  "host_targets tg r host a = List.map_filter (link_target tg host a) (select_links r (tg_links tg))"

lemma build_host_Inr:
  "build_host res tg r ts h = Inr ts' \<longleftrightarrow>
     (\<exists>a. res h (tg_network tg) = Inr a \<and> host_targets tg r h a \<noteq> [] \<and> ts' = ts @ host_targets tg r h a)"
  by (auto simp: build_host_def host_targets_def Let_def split: sum.splits)

lemma build_loop_Inr:
  "for_each (build_host res tg r) ts hs = Inr ts' \<longleftrightarrow>
     (\<exists>as. list_all2 (\<lambda>h a. res h (tg_network tg) = Inr a \<and> host_targets tg r h a \<noteq> []) hs as \<and>
       ts' = ts @ concat (map2 (host_targets tg r) hs as))"
proof (induction hs arbitrary: ts)
  case (Cons h hs)
  let ?ok = "\<lambda>h a. res h (tg_network tg) = Inr a \<and> host_targets tg r h a \<noteq> []"
  have "for_each (build_host res tg r) ts (h # hs) = Inr ts' \<longleftrightarrow>
     (\<exists>t. build_host res tg r ts h = Inr t \<and> for_each (build_host res tg r) t hs = Inr ts')"
    by (auto split: sum.splits)
  also have "\<dots> \<longleftrightarrow> (\<exists>a as. (res h (tg_network tg) = Inr a \<and> host_targets tg r h a \<noteq> []) \<and>
       list_all2 (\<lambda>h a. res h (tg_network tg) = Inr a \<and> host_targets tg r h a \<noteq> []) hs as \<and>
       ts' = ts @ host_targets tg r h a @ concat (map2 (host_targets tg r) hs as))"
    by (auto simp: build_host_Inr Cons.IH)
  also have "\<dots> \<longleftrightarrow> (\<exists>as. list_all2 ?ok (h # hs) as \<and> ts' = ts @ concat (map2 (host_targets tg r) (h # hs) as))"
    (is "?l \<longleftrightarrow> ?r")
  proof
    assume ?l
    then obtain a as where "?ok h a \<and> list_all2 ?ok hs as \<and>
        ts' = ts @ host_targets tg r h a @ concat (map2 (host_targets tg r) hs as)" by blast
    then show ?r by (intro exI [of _ "a # as"]) simp
  next
    assume ?r
    then obtain as where as: "list_all2 ?ok (h # hs) as \<and> ts' = ts @ concat (map2 (host_targets tg r) (h # hs) as)"
      by blast
    then obtain a bs where "as = a # bs" by (cases as) auto
    with as show ?l by (intro exI [of _ a] exI [of _ bs]) simp
  qed
  finally show ?case .
qed auto

lemma build_targets_Inr:
  "build_targets tg r res = Inr ts \<longleftrightarrow>
     (\<exists>as. list_all2 (\<lambda>h a. res h (tg_network tg) = Inr a \<and> host_targets tg r h a \<noteq> []) (tg_hosts tg) as \<and>
       ts = concat (map2 (host_targets tg r) (tg_hosts tg) as))"
  by (simp add: build_targets_def build_loop_Inr)

text \<open>A failed expansion stops at the first host that fails.\<close>

definition pingable :: "(string \<Rightarrow> string \<Rightarrow> 'e + ip) \<Rightarrow> target_group \<Rightarrow> router \<Rightarrow> string \<Rightarrow> bool" where
  "pingable res tg r h = (case res h (tg_network tg) of Inl e \<Rightarrow> False | Inr a \<Rightarrow> host_targets tg r h a \<noteq> [])"

lemma split_first:
  "(\<exists>before h after. x # xs = before @ h # after \<and> list_all P before \<and> C h) \<longleftrightarrow>
     C x \<or> P x \<and> (\<exists>before h after. xs = before @ h # after \<and> list_all P before \<and> C h)" (is "?l \<longleftrightarrow> ?r")
proof
  assume ?l
  then obtain before h after where s: "x # xs = before @ h # after" "list_all P before" "C h" by blast
  show ?r
  proof (cases before)
    case (Cons y ys)
    then have "P x" "xs = ys @ h # after" "list_all P ys" using s by simp_all
    with s(3) show ?thesis by blast
  qed (use s in simp)
next
  assume ?r
  then consider "C x" | before h after where "P x" "xs = before @ h # after" "list_all P before" "C h" by blast
  then show ?l
  proof cases
    case 1
    then show ?thesis by (intro exI [of _ "[]"]) simp
  next
    case (2 before h after)
    then show ?thesis by (intro exI [of _ "x # before"]) simp
  qed
qed

lemma build_loop_Inl:
  "for_each (build_host res tg r) ts hs = Inl e \<longleftrightarrow>
     (\<exists>before h after. hs = before @ h # after \<and> list_all (pingable res tg r) before \<and>
       ((\<exists>x. res h (tg_network tg) = Inl x \<and> e = ResolveFailed h x) \<or>
        (\<exists>a. res h (tg_network tg) = Inr a \<and> host_targets tg r h a = [] \<and> e = NoUsableLink h (rt_name r))))"
  (is "_ \<longleftrightarrow> (\<exists>before h after. _ \<and> _ \<and> ?cause h)")
proof (induction hs arbitrary: ts)
  case (Cons h hs)
  define I where "I \<longleftrightarrow> (\<exists>before h after. hs = before @ h # after \<and> list_all (pingable res tg r) before \<and> ?cause h)"
  have "for_each (build_host res tg r) ts (h # hs) = Inl e \<longleftrightarrow>
      (case build_host res tg r ts h of Inl x \<Rightarrow> x = e | Inr _ \<Rightarrow> I)"
    by (simp add: Cons.IH I_def split: sum.split)
  also have "\<dots> \<longleftrightarrow> ?cause h \<or> pingable res tg r h \<and> I"
    by (auto simp: build_host_def host_targets_def pingable_def Let_def split: sum.splits)
  also have "\<dots> \<longleftrightarrow> (\<exists>before h' after. h # hs = before @ h' # after \<and> list_all (pingable res tg r) before \<and> ?cause h')"
    unfolding I_def by (rule split_first [symmetric])
  finally show ?case .
qed simp

text \<open>The source a link offers to an address.\<close>

definition link_source :: "ip \<Rightarrow> link \<Rightarrow> string" where
  "link_source a l = (if to4 a = None then ln_source6 l else ln_source l)"

lemma host_targets_Nil:
  "host_targets tg r h a = [] \<longleftrightarrow> list_all (\<lambda>l. link_source a l = []) (select_links r (tg_links tg))"
  by (auto simp: host_targets_def map_filter_def filter_empty_conv list_all_iff link_target_def link_source_def Let_def)

lemma host_targets_mem:
  "t \<in> set (host_targets tg r h a) \<longleftrightarrow>
     (\<exists>l \<in> set (select_links r (tg_links tg)). link_source a l \<noteq> [] \<and> link_target tg h a l = Some t)"
  by (auto simp: host_targets_def map_filter_def link_target_def link_source_def Let_def)

section \<open>Literal hosts\<close>

text \<open>A resolver that leaves literals alone; the rest of its answers is the network's.\<close>

locale literal_resolver =
  fixes res :: "string \<Rightarrow> string \<Rightarrow> 'e + ip"
  assumes literal_value: "parse_ip h = Some a \<Longrightarrow> res h n = Inr b \<Longrightarrow> b = a"
    and literal_any: "parse_ip h = Some a \<Longrightarrow> res h ''ip'' = Inr a"
begin

lemma validated_literal_host:
  assumes "router_group_ok r tg" and "h \<in> set (tg_hosts tg)" and "tg_network tg = ''ip''"
    and "parse_ip h = Some a"
  shows "res h (tg_network tg) = Inr a \<and> host_targets tg r h a \<noteq> []"
proof -
  let ?ls = "select_links r (tg_links tg)"
  have "(to4 a = None \<longrightarrow> list_ex has_source6 ?ls) \<and> (to4 a \<noteq> None \<longrightarrow> list_ex has_source ?ls)"
    using assms by (auto simp: router_group_ok_def Let_def is_ipv4_text_def is_ipv6_text_def)
  then have "\<exists>l \<in> set ?ls. link_source a l \<noteq> []"
    by (cases "to4 a") (auto simp: list_ex_iff has_source_def has_source6_def link_source_def)
  then show ?thesis using assms literal_any by (auto simp: host_targets_Nil list_all_iff)
qed

lemma build_literals:
  assumes "router_group_ok r tg" and "tg_network tg = ''ip''"
    and "list_all (\<lambda>h. parse_ip h \<noteq> None) (tg_hosts tg)"
  shows "build_targets tg r res =
     Inr (concat (map (\<lambda>h. host_targets tg r h (the (parse_ip h))) (tg_hosts tg)))"
proof -
  let ?as = "map (\<lambda>h. the (parse_ip h)) (tg_hosts tg)"
  have "res h (tg_network tg) = Inr (the (parse_ip h)) \<and> host_targets tg r h (the (parse_ip h)) \<noteq> []"
    if "h \<in> set (tg_hosts tg)" for h
    using validated_literal_host [OF assms(1) that assms(2)] that assms(3) by (auto simp: list_all_iff)
  then have "list_all2 (\<lambda>h a. res h (tg_network tg) = Inr a \<and> host_targets tg r h a \<noteq> []) (tg_hosts tg) ?as"
    by (simp add: list_all2_map2 list_all2_same)
  moreover have "map2 (host_targets tg r) (tg_hosts tg) ?as =
      map (\<lambda>h. host_targets tg r h (the (parse_ip h))) (tg_hosts tg)"
    by (simp add: map2_map_map [of _ "\<lambda>h. h", simplified])
  ultimately show ?thesis by (auto simp: build_targets_Inr)
qed

lemma build_mentions_literals:
  assumes "build_targets tg r res = Inr ts" and "t \<in> set ts" and "parse_ip (t_host t) = Some a"
  shows "j_target (t_job t) = ip_string a"
proof -
  obtain as where as: "list_all2 (\<lambda>h a. res h (tg_network tg) = Inr a \<and> host_targets tg r h a \<noteq> []) (tg_hosts tg) as"
    "ts = concat (map2 (host_targets tg r) (tg_hosts tg) as)"
    using assms(1) by (auto simp: build_targets_Inr)
  then obtain h b where hb: "(h, b) \<in> set (zip (tg_hosts tg) as)" "t \<in> set (host_targets tg r h b)"
    using assms(2) by auto
  then have "res h (tg_network tg) = Inr b" using as(1) by (auto simp: list_all2_iff)
  moreover have "t_host t = h \<and> j_target (t_job t) = ip_string b"
    using hb(2) by (auto simp: host_targets_mem link_target_def Let_def split: if_splits)
  ultimately show ?thesis using assms(3) literal_value by auto
qed

end

interpretation code_resolver: literal_resolver "resolve lookup" for lookup
  by unfold_locales (auto simp: resolve_def split: if_splits)

section \<open>Names\<close>

text \<open>
  What \<open>net.DefaultResolver.LookupIP\<close> documents: an answer without error has addresses, of the
  family that was asked for.
\<close>

definition dns_ok :: "(string \<Rightarrow> string \<Rightarrow> 'e + ip list) \<Rightarrow> bool" where
  "dns_ok lookup \<longleftrightarrow>
     (\<forall>network host ips. lookup network host = Inr ips \<longrightarrow> ips \<noteq> [] \<and>
        (\<forall>a \<in> set ips. (length a = 4 \<or> length a = 16) \<and>
           (network = ''ip4'' \<longrightarrow> to4 a \<noteq> None) \<and> (network = ''ip6'' \<longrightarrow> to4 a = None)))"

lemma resolve_name:
  assumes "parse_ip h = None" and "resolve lookup h n = Inr a"
  obtains ips where "lookup n h = Inr ips" and "a \<in> set ips"
  using assms by (auto simp: resolve_def dest!: find_Some_in split: sum.splits option.splits if_splits list.splits)

lemma resolve_family:
  assumes "dns_ok lookup" and "resolve lookup h n = Inr a"
  shows "length a = 4 \<or> length a = 16" and "n = ''ip4'' \<Longrightarrow> to4 a \<noteq> None" and "n = ''ip6'' \<Longrightarrow> to4 a = None"
proof -
  have "(length a = 4 \<or> length a = 16) \<and> (n = ''ip4'' \<longrightarrow> to4 a \<noteq> None) \<and> (n = ''ip6'' \<longrightarrow> to4 a = None)"
  proof (cases "parse_ip h")
    case None
    obtain ips where "lookup n h = Inr ips" "a \<in> set ips" by (rule resolve_name [OF None assms(2)])
    with assms(1) show ?thesis unfolding dns_ok_def by blast
  next
    case (Some b)
    have "a = b" using code_resolver.literal_value [OF Some assms(2)] by simp
    with Some assms(2) show ?thesis by (auto simp: resolve_def parse_ip_length split: if_splits)
  qed
  then show "length a = 4 \<or> length a = 16" "n = ''ip4'' \<Longrightarrow> to4 a \<noteq> None" "n = ''ip6'' \<Longrightarrow> to4 a = None" by blast+
qed

lemma resolve_not_empty: "dns_ok lookup \<Longrightarrow> resolve lookup h n \<noteq> Inl NoAddress"
  by (auto simp: resolve_def dns_ok_def split: sum.splits option.splits if_splits list.splits)

lemma family_link_exists:
  assumes "router_group_ok r tg" and "tg_network tg = ''ip4'' \<and> to4 a \<noteq> None \<or> tg_network tg = ''ip6'' \<and> to4 a = None"
  shows "host_targets tg r h a \<noteq> []"
proof -
  let ?ls = "select_links r (tg_links tg)"
  have "(to4 a = None \<longrightarrow> list_ex has_source6 ?ls) \<and> (to4 a \<noteq> None \<longrightarrow> list_ex has_source ?ls)"
    using assms by (auto simp: router_group_ok_def Let_def)
  then have "\<exists>l \<in> set ?ls. link_source a l \<noteq> []"
    by (cases "to4 a") (auto simp: list_ex_iff has_source_def has_source6_def link_source_def)
  then show ?thesis by (auto simp: host_targets_Nil list_all_iff)
qed

section \<open>Literal hosts of any family\<close>

text \<open>A literal host that the network of its group excludes.\<close>

definition wrong_family :: "string \<Rightarrow> string \<Rightarrow> bool" where
  "wrong_family network h =
     (case parse_ip h of
        None \<Rightarrow> False
      | Some a \<Rightarrow> network = ''ip4'' \<and> to4 a = None \<or> network = ''ip6'' \<and> to4 a \<noteq> None)"

definition family_error :: "string \<Rightarrow> string \<Rightarrow> 'e resolve_error" where
  "family_error network h = (if network = ''ip4'' then NotIPv4 h else NotIPv6 h)"

lemma resolve_literal:
  assumes "parse_ip h = Some a"
  shows "resolve lookup h n = (if wrong_family n h then Inl (family_error n h) else Inr a)"
  using assms by (auto simp: resolve_def wrong_family_def family_error_def)

lemma literal_host_targets:
  assumes "router_group_ok r tg" and "h \<in> set (tg_hosts tg)" and "parse_ip h = Some a" and "\<not> wrong_family (tg_network tg) h"
  shows "host_targets tg r h a \<noteq> []"
proof (cases "tg_network tg = ''ip''")
  case True
  then show ?thesis using code_resolver.validated_literal_host [OF assms(1,2) True assms(3)] by blast
next
  case False
  then have "tg_network tg = ''ip4'' \<and> to4 a \<noteq> None \<or> tg_network tg = ''ip6'' \<and> to4 a = None"
    using assms(1,3,4) by (auto simp: router_group_ok_def wrong_family_def)
  then show ?thesis by (rule family_link_exists [OF assms(1)])
qed

lemma build_literal_hosts:
  assumes "\<And>h. h \<in> set hs \<Longrightarrow> \<exists>a. parse_ip h = Some a \<and> (wrong_family (tg_network tg) h \<or> host_targets tg r h a \<noteq> [])"
  shows "for_each (build_host (resolve lookup) tg r) ts hs =
     (case find (wrong_family (tg_network tg)) hs of
        None \<Rightarrow> Inr (ts @ concat (map (\<lambda>h. host_targets tg r h (the (parse_ip h))) hs))
      | Some h \<Rightarrow> Inl (ResolveFailed h (family_error (tg_network tg) h)))"
  using assms
proof (induction hs arbitrary: ts)
  case (Cons h hs)
  obtain a where a: "parse_ip h = Some a" "wrong_family (tg_network tg) h \<or> host_targets tg r h a \<noteq> []"
    using Cons.prems [of h] by auto
  show ?case
  proof (cases "wrong_family (tg_network tg) h")
    case True
    then show ?thesis by (simp add: build_host_def resolve_literal [OF a(1)])
  next
    case False
    then have "build_host (resolve lookup) tg r ts h = Inr (ts @ host_targets tg r h a)"
      using a by (simp add: build_host_def resolve_literal [OF a(1)] host_targets_def)
    then show ?thesis using Cons.IH [of "ts @ host_targets tg r h a"] Cons.prems False a(1)
      by (simp split: option.split)
  qed
qed simp

section \<open>The jobs of a validated group\<close>

lemma vpn_char_plain: "vpn_char c \<Longrightarrow> plain_char c"
  by (auto simp: vpn_char_def char_class_defs plain_char_def)

lemma link_source_plain: "link_ok l \<Longrightarrow> link_source a l \<noteq> [] \<Longrightarrow> plain_word (link_source a l)"
  by (auto simp: link_source_def link_ok_def has_source_def has_source6_def is_ipv4_text_def is_ipv6_text_def
        split: if_splits option.splits dest: parse_ip_plain)

lemma built_target:
  assumes "build_targets tg r res = Inr ts" and "t \<in> set ts"
  obtains h a l where "h \<in> set (tg_hosts tg)" and "res h (tg_network tg) = Inr a"
    and "l \<in> set (select_links r (tg_links tg))" and "link_source a l \<noteq> []"
    and "link_target tg h a l = Some t"
proof -
  obtain as where as: "list_all2 (\<lambda>h a. res h (tg_network tg) = Inr a \<and> host_targets tg r h a \<noteq> []) (tg_hosts tg) as"
    "ts = concat (map2 (host_targets tg r) (tg_hosts tg) as)"
    using assms(1) by (auto simp: build_targets_Inr)
  then obtain h a where ha: "(h, a) \<in> set (zip (tg_hosts tg) as)" "t \<in> set (host_targets tg r h a)"
    using assms(2) by auto
  then have "h \<in> set (tg_hosts tg)" "res h (tg_network tg) = Inr a"
    using as(1) by (auto simp: list_all2_iff dest: set_zip_leftD)
  with ha(2) that show ?thesis by (auto simp: host_targets_mem)
qed

lemma built_job_ok:
  assumes "router_ok r" and "dns_ok lookup"
    and "build_targets tg r (resolve lookup) = Inr ts" and "t \<in> set ts"
  shows "job_ok (t_job t)" and "j_count (t_job t) = tg_count tg"
    and "j_timeout (t_job t) = tg_timeout tg" and "j_packet_interval (t_job t) = tg_packet_interval tg"
    and "t_interval t = tg_interval tg" and "\<not> t_pending t \<and> t_sent t = 0"
proof -
  obtain h a l where l: "resolve lookup h (tg_network tg) = Inr a" "l \<in> set (select_links r (tg_links tg))"
    "link_source a l \<noteq> []" "link_target tg h a l = Some t"
    using assms(3,4) by (rule built_target)
  have "link_ok l" using assms(1) l(2) set_select_links by (fastforce simp: router_ok_def list_all_iff)
  then have "plain_word (link_source a l)" "list_all plain_char (ln_vpn_instance l)"
    using link_source_plain [OF _ l(3)] by (auto simp: link_ok_def list_all_iff vpn_char_plain)
  moreover have "plain_word (ip_string a)"
    using resolve_family(1) [OF assms(2) l(1)] by (rule ip_string_plain)
  moreover have t: "j_target (t_job t) = ip_string a \<and> j_source (t_job t) = link_source a l \<and>
     j_vpn_instance (t_job t) = ln_vpn_instance l \<and> j_count (t_job t) = tg_count tg \<and>
     j_timeout (t_job t) = tg_timeout tg \<and> j_packet_interval (t_job t) = tg_packet_interval tg \<and>
     t_interval t = tg_interval tg \<and> \<not> t_pending t \<and> t_sent t = 0"
    using l(4) by (auto simp: link_target_def link_source_def Let_def split: if_splits)
  ultimately show "job_ok (t_job t)" by (simp add: job_ok_def)
  show "j_count (t_job t) = tg_count tg" "j_timeout (t_job t) = tg_timeout tg"
    "j_packet_interval (t_job t) = tg_packet_interval tg" "t_interval t = tg_interval tg"
    "\<not> t_pending t \<and> t_sent t = 0"
    using t by simp_all
qed

text \<open>The anchor a session takes from a job's command is the job's destination.\<close>

lemma command_words_last: "command_words j \<noteq> [] \<and> last (command_words j) = j_target j"
  by (simp add: command_words_def)

lemma last_token_command: "job_ok j \<Longrightarrow> last_token (build_command j) = j_target j"
  by (simp add: last_token_def str_fields_build_command command_words_last)

lemma command_single_line: "job_ok j \<Longrightarrow> CHR 0x0A \<notin> set (build_command j) \<and> CHR 0x0D \<notin> set (build_command j)"
  using build_command_chars [of j "CHR 0x0A"] build_command_chars [of j "CHR 0x0D"]
  by (auto simp: plain_char_def)

section \<open>A sample expansion\<close>

definition sample_lookup :: "string \<Rightarrow> string \<Rightarrow> unit + ip list" where
  "sample_lookup network host = (if network = ''ip6'' then Inr [1 # replicate 15 0] else Inr [v4_prefix @ [192, 0, 2, 9]])"

lemma sample_lookup_ok: "dns_ok sample_lookup"
  by (auto simp: dns_ok_def sample_lookup_def to4_def v4_prefix_def)

lemma sample_literals: "list_all (\<lambda>h. parse_ip h \<noteq> None) (tg_hosts sample_group)"
  by (simp add: sample_group_def parse_ip_eval)

lemma sample_network: "tg_network sample_group = ''ip''"
  by (simp add: sample_defs)

lemma sample_host_targets:
  "host_targets sample_group sample_router h (v4_prefix @ [1, 1, 1, 1]) \<noteq> []"
  by (simp add: host_targets_Nil sample_group_def sample_router_def default_defs select_links_def link_source_def to4_def v4_prefix_def)

section \<open>Properties\<close>

text \<open>
  C36: The expansion of a validated group of literal hosts is known without DNS.  It fails exactly if the
  group is for one family and some host is of the other, with an error that names the first such
  host; otherwise it has one target per host and per selected link that has a source of the host's
  family, and at least one for every host.
\<close>

theorem literal_group_expands:
  assumes "router_group_ok r tg" and "list_all (\<lambda>h. parse_ip h \<noteq> None) (tg_hosts tg)"
  shows "build_targets tg r (resolve lookup) =
      (case find (wrong_family (tg_network tg)) (tg_hosts tg) of
         None \<Rightarrow> Inr (concat (map (\<lambda>h. host_targets tg r h (the (parse_ip h))) (tg_hosts tg)))
       | Some h \<Rightarrow> Inl (ResolveFailed h (family_error (tg_network tg) h))) \<and>
    list_all (\<lambda>h. wrong_family (tg_network tg) h \<or> host_targets tg r h (the (parse_ip h)) \<noteq> []) (tg_hosts tg)"
proof
  have h: "\<exists>a. parse_ip h = Some a \<and> (wrong_family (tg_network tg) h \<or> host_targets tg r h a \<noteq> [])"
    if "h \<in> set (tg_hosts tg)" for h
    using that assms(2) literal_host_targets [OF assms(1) that] by (auto simp: list_all_iff)
  show "build_targets tg r (resolve lookup) =
      (case find (wrong_family (tg_network tg)) (tg_hosts tg) of
         None \<Rightarrow> Inr (concat (map (\<lambda>h. host_targets tg r h (the (parse_ip h))) (tg_hosts tg)))
       | Some h \<Rightarrow> Inl (ResolveFailed h (family_error (tg_network tg) h)))"
    using build_literal_hosts [of "tg_hosts tg" tg r lookup "[]"] h by (simp add: build_targets_def cong: option.case_cong)
  show "list_all (\<lambda>h. wrong_family (tg_network tg) h \<or> host_targets tg r h (the (parse_ip h)) \<noteq> []) (tg_hosts tg)"
    unfolding list_all_iff using h by fastforce
qed

theorem literal_group_expands_witness:
  "build_targets sample_group sample_router (resolve (\<lambda>_ _. Inl ())) =
     Inr (concat (map (\<lambda>h. host_targets sample_group sample_router h (the (parse_ip h))) [''1.1.1.1'', ''2001::2''])) \<and>
   build_targets (sample_group\<lparr>tg_network := ''ip4''\<rparr>) sample_router (resolve (\<lambda>_ _. Inl ())) =
     Inl (ResolveFailed ''2001::2'' (NotIPv4 ''2001::2''))"
proof
  have hosts: "tg_hosts sample_group = [''1.1.1.1'', ''2001::2'']" by (simp add: sample_group_def)
  show "build_targets sample_group sample_router (resolve (\<lambda>_ _. Inl ())) =
     Inr (concat (map (\<lambda>h. host_targets sample_group sample_router h (the (parse_ip h))) [''1.1.1.1'', ''2001::2'']))"
    using literal_group_expands [OF sample_group_ok sample_literals, of "\<lambda>_ _. Inl ()"]
    by (simp add: hosts sample_network wrong_family_def split: option.splits)
  let ?tg = "sample_group\<lparr>tg_network := ''ip4''\<rparr>"
  have ok: "router_group_ok sample_router ?tg"
    by (simp add: sample_defs router_group_ok_def select_links_def has_source_def has_source6_def)
  have "find (wrong_family ''ip4'') [''1.1.1.1'', ''2001::2''] = Some ''2001::2''"
    by (simp add: wrong_family_def parse_ip_eval)
  then show "build_targets ?tg sample_router (resolve (\<lambda>_ _. Inl ())) = Inl (ResolveFailed ''2001::2'' (NotIPv4 ''2001::2''))"
    using literal_group_expands [OF ok, of "\<lambda>_ _. Inl ()"] sample_literals by (simp add: hosts family_error_def)
qed

text \<open>
  C29: How the expansion of a validated group fails.  It stops at the first host that cannot be pinged,
  with one of two errors: the host does not resolve; or, and only in a group for no particular family
  and for a name that is not an address, the name resolves to an address for which no selected link has
  a source.  The second kind, which validation rules out for addresses and for groups of one family, is
  thus known only when the names are resolved.
\<close>

theorem group_failure_exact:
  assumes "router_group_ok r tg" and "dns_ok lookup"
  shows "build_targets tg r (resolve lookup) = Inl e \<longleftrightarrow>
    (\<exists>before h after. tg_hosts tg = before @ h # after \<and> list_all (pingable (resolve lookup) tg r) before \<and>
      ((\<exists>x. resolve lookup h (tg_network tg) = Inl x \<and> x \<noteq> NoAddress \<and> e = ResolveFailed h x) \<or>
       (\<exists>a. tg_network tg = ''ip'' \<and> parse_ip h = None \<and> resolve lookup h (tg_network tg) = Inr a \<and>
         list_all (\<lambda>l. link_source a l = []) (select_links r (tg_links tg)) \<and> e = NoUsableLink h (rt_name r))))"
proof -
  have none: "tg_network tg = ''ip'' \<and> parse_ip h = None"
    if h: "h \<in> set (tg_hosts tg)" "resolve lookup h (tg_network tg) = Inr a" "host_targets tg r h a = []" for h a
  proof (rule conjI)
    show ip: "tg_network tg = ''ip''"
      using family_link_exists [OF assms(1), of a h] resolve_family(2,3) [OF assms(2) h(2)] assms(1) h(3)
      by (auto simp: router_group_ok_def)
    show "parse_ip h = None"
      using code_resolver.validated_literal_host [OF assms(1) h(1) ip, where lookup = lookup] h(2,3) by (cases "parse_ip h") auto
  qed
  show ?thesis
    unfolding build_targets_def build_loop_Inl host_targets_Nil
    using resolve_not_empty [OF assms(2)] none [unfolded host_targets_Nil] by (intro iff_exI conj_cong refl) auto
qed

theorem group_failure_exact_witness:
  "let lookup = (\<lambda>network. sample_lookup (if network = ''ip'' then ''ip6'' else network));
       tg = sample_group\<lparr>tg_hosts := [''1.1.1.1'', ''h''], tg_links := [''b'']\<rparr> in
   build_targets tg sample_router (resolve lookup) = Inl (NoUsableLink ''h'' ''r1'')"
proof -
  let ?lookup = "\<lambda>network. sample_lookup (if network = ''ip'' then ''ip6'' else network)"
  let ?tg = "sample_group\<lparr>tg_hosts := [''1.1.1.1'', ''h''], tg_links := [''b'']\<rparr>"
  have ok: "router_group_ok sample_router ?tg"
    by (simp add: sample_defs router_group_ok_def select_links_def has_source_def is_ipv6_text_def parse_ip_eval to4_def v4_prefix_def)
  have dns: "dns_ok ?lookup"
    by (auto simp: dns_ok_def sample_lookup_def to4_def v4_prefix_def split: if_splits)
  have lits: "parse_ip ''1.1.1.1'' = Some (v4_prefix @ [1, 1, 1, 1])" "parse_ip ''h'' = None"
    by (simp_all add: parse_ip_eval v4_prefix_def)
  have "pingable (resolve ?lookup) ?tg sample_router ''1.1.1.1''"
    by (simp add: pingable_def resolve_def lits host_targets_Nil link_source_def to4_def v4_prefix_def sample_defs select_links_def)
  moreover have "resolve ?lookup ''h'' ''ip'' = Inr (1 # replicate 15 0)" "tg_network ?tg = ''ip''"
    by (simp_all add: resolve_def lits sample_lookup_def to4_def v4_prefix_def sample_defs)
  moreover have "list_all (\<lambda>l. link_source (1 # replicate 15 0) l = []) (select_links sample_router (tg_links ?tg))"
    by (simp add: link_source_def to4_def v4_prefix_def sample_defs select_links_def)
  moreover have "rt_name sample_router = ''r1''" by (simp add: sample_router_def)
  moreover have "tg_hosts ?tg = [''1.1.1.1''] @ ''h'' # []" by simp
  moreover have "resolve ?lookup ''h'' (tg_network ?tg) = Inr (1 # replicate 15 0)" using calculation(2,3) by simp
  ultimately have "build_targets ?tg sample_router (resolve ?lookup) = Inl (NoUsableLink ''h'' ''r1'')"
    unfolding group_failure_exact [OF ok dns]
    by (intro exI [of _ "[''1.1.1.1'']"] exI [of _ "''h''"] exI [of _ "[]"] conjI disjI2 exI [of _ "1 # replicate 15 0"] lits(2)) simp_all
  then show ?thesis by (simp add: Let_def)
qed

text \<open>
  C37: What reaches the router is safe: every target built from a validated router has a command
  that is one line of printable words in VRP's order, ending in the destination, which is the
  anchor the session waits for; nothing in the configuration can add a line or an option to it.
\<close>

theorem built_command_is_safe:
  assumes "router_ok r" and "dns_ok lookup" and "build_targets tg r (resolve lookup) = Inr ts" and "t \<in> set ts"
  shows "str_fields (build_command (t_job t)) = command_words (t_job t) \<and>
     list_all plain_word (command_words (t_job t)) \<and>
     CHR 0x0A \<notin> set (build_command (t_job t)) \<and> CHR 0x0D \<notin> set (build_command (t_job t)) \<and>
     last_token (build_command (t_job t)) = j_target (t_job t)"
  using built_job_ok(1) [OF assms]
  by (simp add: str_fields_build_command command_words_plain command_single_line last_token_command)

lemma sample_target:
  obtains ts t where "build_targets sample_group sample_router (resolve sample_lookup) = Inr ts" and "t \<in> set ts"
proof -
  let ?f = "\<lambda>h. host_targets sample_group sample_router h (the (parse_ip h))"
  have b: "build_targets sample_group sample_router (resolve sample_lookup) = Inr (concat (map ?f (tg_hosts sample_group)))"
    by (rule code_resolver.build_literals [OF sample_group_ok sample_network sample_literals])
  have "parse_ip ''1.1.1.1'' = Some (v4_prefix @ [1, 1, 1, 1])" by (simp add: parse_ip_eval)
  then have "?f ''1.1.1.1'' \<noteq> []" using sample_host_targets by simp
  then obtain t where "t \<in> set (?f ''1.1.1.1'')" using list.set_sel(1) by blast
  then have "t \<in> set (concat (map ?f (tg_hosts sample_group)))" by (simp add: sample_group_def)
  with b that show ?thesis by blast
qed

theorem built_command_is_safe_witness:
  "\<exists>ts t. build_targets sample_group sample_router (resolve sample_lookup) = Inr ts \<and> t \<in> set ts \<and>
     last_token (build_command (t_job t)) = j_target (t_job t)"
proof -
  obtain ts t where "build_targets sample_group sample_router (resolve sample_lookup) = Inr ts" "t \<in> set ts"
    by (rule sample_target)
  then show ?thesis using built_command_is_safe [OF sample_router_ok sample_lookup_ok] by blast
qed

text \<open>
  Validation bounds neither the count nor the packet interval of a remote group, so the
  deadline of a validated group's command can wrap around: here it is negative.
\<close>

theorem validated_deadline_can_wrap:
  "\<exists>tg. router_group_ok sample_router tg \<and>
     sint (command_deadline \<lparr>j_target = ''1.1.1.1'', j_ipv6 = False, j_source = ''192.0.2.1'', j_count = tg_count tg,
       j_packet_interval = tg_packet_interval tg, j_timeout = tg_timeout tg, j_size = 56, j_tos = 0, j_vpn_instance = []\<rparr>) < 0"
proof (intro exI conjI)
  let ?tg = "sample_group\<lparr>tg_count := 20000000000\<rparr>"
  show "router_group_ok sample_router ?tg"
    by (simp add: sample_defs router_group_ok_def select_links_def has_source_def has_source6_def)
  show "sint (command_deadline \<lparr>j_target = ''1.1.1.1'', j_ipv6 = False, j_source = ''192.0.2.1'', j_count = tg_count ?tg,
       j_packet_interval = tg_packet_interval ?tg, j_timeout = tg_timeout ?tg, j_size = 56, j_tos = 0, j_vpn_instance = []\<rparr>) < 0"
    by (simp add: command_deadline_def sample_group_def)
qed

end
