(* ===== verification/Scheduler_Spec.thy ===== *)
theory Scheduler_Spec
  imports Scheduler
begin

text \<open>
  What the scheduler promises in every interleaving: a target is held in at most one place, so its
  pings never overlap and the queue never overflows; the gauge of connected sessions is the number
  of shells the workers hold; failures and results are counted apart; no ping starts after \<open>Stop\<close>
  and every goroutine can end, leaving no session.
\<close>

named_theorems sched_defs \<open>the operations of the scheduler, unfolded\<close>

lemmas [sched_defs] =
  set_timer_def set_worker_def set_pending_def count_error_def count_skip_def add_up_def
  enqueue_claim_def enqueue_send_def record_outcome_def cancel_def add_sent_def Let_def

section \<open>Counting\<close>

lemma length_filter_update:
  "i < length xs \<Longrightarrow>
   length (filter P (xs[i := x])) + of_bool (P (xs ! i)) = length (filter P xs) + of_bool (P x)"
proof (induction xs arbitrary: i)
  case (Cons y xs)
  then show ?case by (cases i) (auto split: if_splits)
qed simp

lemma filter_update_same:
  "i < length xs \<Longrightarrow> P (xs ! i) = P x \<Longrightarrow> length (filter P (xs[i := x])) = length (filter P xs)"
  using length_filter_update [of i xs P x] by (auto split: if_splits)

lemma distinct_count_list: "(\<And>i. count_list xs i \<le> 1) \<Longrightarrow> distinct xs"
proof (induction xs)
  case (Cons x xs)
  then have "count_list xs i \<le> 1" for i by (metis count_list.simps(2) le_add1 le_trans)
  moreover have "count_list xs x = 0" using Cons.prems [of x] by simp
  ultimately show ?case using Cons.IH by (simp add: count_list_0_iff)
qed simp

section \<open>Induction over executions\<close>

lemma steps_invariant:
  assumes "steps opens runs tm cl s as s'" and "P s"
    and "\<And>s a s'. P s \<Longrightarrow> step opens runs tm cl s a s' \<Longrightarrow> P s'"
  shows "P s'"
  using assms by (induction rule: steps.induct) auto

lemma steps_one: "step opens runs tm cl s a s' \<Longrightarrow> steps opens runs tm cl s [a] s'"
  using steps_snoc [OF steps_Nil] by fastforce

lemma steps_trans:
  "steps opens runs tm cl s' bs s'' \<Longrightarrow> steps opens runs tm cl s as s' \<Longrightarrow> steps opens runs tm cl s (as @ bs) s''"
proof (induction rule: steps.induct)
  case (steps_snoc s1 as1 s2 a s3)
  then show ?case using steps.steps_snoc by (metis append.assoc)
qed simp

section \<open>What never changes\<close>

definition fixed :: "'r sched \<Rightarrow> 'r sched \<Rightarrow> bool" where
  "fixed s s' \<longleftrightarrow>
     length (sd_targets s') = length (sd_targets s) \<and> length (sd_timers s') = length (sd_timers s) \<and>
     length (sd_workers s') = length (sd_workers s) \<and> sd_cap s' = sd_cap s \<and>
     sd_min_backoff s' = sd_min_backoff s \<and> sd_max_backoff s' = sd_max_backoff s \<and>
     map t_job (sd_targets s') = map t_job (sd_targets s)"

lemma map_job_update:
  "f (xs ! i) = f x \<Longrightarrow> map f (xs[i := x]) = map f xs"
  by (metis list_update_beyond list_update_id map_update not_le)

lemma step_fixed: "step opens runs tm cl s a s' \<Longrightarrow> fixed s s'"
  by (induction rule: step.induct)
     (auto simp: fixed_def sched_defs map_job_update split: option.splits)

section \<open>A target has one holder\<close>

fun worker_target :: "'r worker \<Rightarrow> nat option" where
  "worker_target (Dequeued _ i) = Some i"
| "worker_target (Running _ i) = Some i"
| "worker_target (Returning _ i _) = Some i"
| "worker_target _ = None"

text \<open>
  The places that hold target \<open>i\<close>: its own goroutine between the compare-and-swap and the send,
  the queue, and the workers.
\<close>

definition holders :: "'r sched \<Rightarrow> nat \<Rightarrow> nat" where
  "holders s i =
     of_bool (sd_timers s ! i = Claimed) + count_list (sd_queue s) i +
     length (filter (\<lambda>w. worker_target w = Some i) (sd_workers s))"

definition shape_ok :: "'r sched \<Rightarrow> bool" where
  "shape_ok s \<longleftrightarrow>
     length (sd_timers s) = length (sd_targets s) \<and> sd_cap s = max (length (sd_targets s)) 1 \<and>
     (\<forall>i \<in> set (sd_queue s). i < length (sd_targets s)) \<and>
     (\<forall>w \<in> set (sd_workers s). \<forall>i. worker_target w = Some i \<longrightarrow> i < length (sd_targets s))"

definition holders_ok :: "'r sched \<Rightarrow> bool" where
  "holders_ok s \<longleftrightarrow>
     shape_ok s \<and> (\<forall>i < length (sd_targets s). holders s i = of_bool (t_pending (sd_targets s ! i)))"

lemma step_shape:
  assumes "step opens runs tm cl s a s'" and "shape_ok s"
  shows "shape_ok s'"
  using assms
proof (induction rule: step.induct)
  case (dequeue w s r i q)
  then show ?case by (auto simp: shape_ok_def sched_defs dest!: set_update_subset_insert [THEN subsetD])
qed (auto simp: shape_ok_def sched_defs set_conv_nth nth_list_update nth_append split: option.splits if_splits)

lemma holders_set_worker:
  "w < length (sd_workers s) \<Longrightarrow>
   holders (set_worker w p s) j + of_bool (worker_target (sd_workers s ! w) = Some j) =
   holders s j + of_bool (worker_target p = Some j)"
  using length_filter_update [of w "sd_workers s" "\<lambda>w. worker_target w = Some j" p]
  by (simp add: holders_def set_worker_def)

lemma holders_set_pending: "holders (set_pending i b s) j = holders s j"
  by (simp add: holders_def set_pending_def)

lemma pending_set_worker: "sd_targets (set_worker w p s) = sd_targets s"
  by (simp add: set_worker_def)

lemma pending_set_pending:
  "j < length (sd_targets s) \<Longrightarrow>
   t_pending (sd_targets (set_pending i b s) ! j) = (if i = j then b else t_pending (sd_targets s ! j))"
  by (simp add: set_pending_def)

lemma workers_set_pending [simp]: "sd_workers (set_pending i b s) = sd_workers s"
  by (simp add: set_pending_def)

lemma holders_same_target:
  assumes "w < length (sd_workers s)" and "worker_target (sd_workers s ! w) = worker_target p"
    and "holders s j = of_bool (t_pending (sd_targets s ! j))"
  shows "holders (set_worker w p s) j = of_bool (t_pending (sd_targets (set_worker w p s) ! j))"
  using holders_set_worker [of w s p j] assms by (simp add: pending_set_worker)

lemma record_outcome_workers [simp]: "sd_workers (record_outcome i jo s) = sd_workers s"
  by (simp add: record_outcome_def count_error_def Let_def split: option.split)

lemma holders_record_outcome [simp]: "holders (record_outcome i jo s) j = holders s j"
  by (simp add: record_outcome_def count_error_def holders_def Let_def split: option.split)

lemma pending_record_outcome [simp]:
  "j < length (sd_targets s) \<Longrightarrow>
   t_pending (sd_targets (record_outcome i jo s) ! j) = t_pending (sd_targets s ! j)"
  by (cases "i = j") (auto simp: record_outcome_def count_error_def add_sent_def Let_def split: option.split)

lemma holders_counters [simp]:
  "holders (count_error e s) j = holders s j" "holders (count_skip s) j = holders s j"
  "holders (add_up k s) j = holders s j" "holders (cancel s) j = holders s j"
  by (simp_all add: holders_def count_error_def count_skip_def add_up_def cancel_def)

lemma counters_fields [simp]:
  "sd_workers (count_error e s) = sd_workers s" "sd_workers (add_up k s) = sd_workers s"
  "sd_targets (count_error e s) = sd_targets s" "sd_targets (add_up k s) = sd_targets s"
  "sd_targets (cancel s) = sd_targets s"
  by (simp_all add: count_error_def add_up_def cancel_def)

text \<open>A worker that gives its target back: the target is free and the worker holds none.\<close>

lemma holders_released:
  assumes "w < length (sd_workers s)" and "worker_target (sd_workers s ! w) = Some i" and "worker_target p = None"
    and "j < length (sd_targets s)" and "holders s j = of_bool (t_pending (sd_targets s ! j))"
  shows "holders (set_worker w p (set_pending i False s)) j =
     of_bool (t_pending (sd_targets (set_worker w p (set_pending i False s)) ! j))"
  using holders_set_worker [of w "set_pending i False s" p j] assms
  by (auto simp: holders_set_pending pending_set_worker pending_set_pending split: if_splits)

lemma step_holders:
  assumes "step opens runs tm cl s a s'" and "holders_ok s"
  shows "holders_ok s'"
proof -
  have "shape_ok s'" using assms step_shape by (auto simp: holders_ok_def)
  moreover have "holders s' j = of_bool (t_pending (sd_targets s' ! j))" if "j < length (sd_targets s')" for j
  proof -
    have j: "j < length (sd_targets s)" using that step_fixed [OF assms(1)] by (simp add: fixed_def)
    then have h: "holders s j = of_bool (t_pending (sd_targets s ! j))" using assms(2) by (simp add: holders_ok_def)
    have sh: "shape_ok s" using assms(2) by (simp add: holders_ok_def)
    show ?thesis
      using assms(1) h j sh
    proof (induction rule: step.induct)
      case (dequeue w s r i q)
      have "holders (s\<lparr>sd_queue := q\<rparr>) j + of_bool (i = j) = holders s j"
        using dequeue(3) by (simp add: holders_def)
      then have "holders (set_worker w (Dequeued r i) (s\<lparr>sd_queue := q\<rparr>)) j = holders s j"
        using dequeue(1,2) holders_set_worker [of w "s\<lparr>sd_queue := q\<rparr>" "Dequeued r i" j] by simp
      then show ?case using dequeue by (simp add: pending_set_worker)
    next
      case (job_dropped w s r i)
      then show ?case by (intro holders_released) simp_all
    next
      case (job_returns w s r i ok)
      then show ?case by (intro holders_released) simp_all
    next
      case (job_answers w s r i a r')
      then show ?case by (intro holders_same_target) simp_all
    next
      case (claim i s)
      then show ?case by (auto simp: holders_def sched_defs shape_ok_def nth_list_update split: if_splits)
    next
      case (send i s)
      then show ?case by (auto simp: holders_def sched_defs shape_ok_def nth_list_update split: if_splits)
    next
      case (first_timer i s d)
      then show ?case by (auto simp: holders_def sched_defs nth_list_update)
    next
      case (ticker i s)
      then show ?case by (auto simp: holders_def sched_defs nth_list_update)
    next
      case (first_timer_done i s d)
      then show ?case by (auto simp: holders_def sched_defs nth_list_update)
    next
      case (ticker_done i s)
      then show ?case by (auto simp: holders_def sched_defs nth_list_update)
    next
      case (cancelled s)
      then show ?case by simp
    qed (intro holders_same_target; simp)+
  qed
  ultimately show ?thesis by (simp add: holders_ok_def)
qed

lemma queue_distinct:
  assumes "holders_ok s"
  shows "distinct (sd_queue s)"
proof -
  have "count_list (sd_queue s) i \<le> 1" for i
  proof (cases "i < length (sd_targets s)")
    case True
    with assms have "holders s i \<le> 1" by (simp add: holders_ok_def)
    then show ?thesis by (simp add: holders_def)
  next
    case False
    with assms have "i \<notin> set (sd_queue s)" by (auto simp: holders_ok_def shape_ok_def)
    then show ?thesis by (simp add: count_notin)
  qed
  then show ?thesis by (simp add: distinct_count_list)
qed

lemma claimed_not_queued:
  assumes "holders_ok s" and "i < length (sd_timers s)" and "sd_timers s ! i = Claimed"
  shows "i \<notin> set (sd_queue s)" and "length (sd_queue s) < sd_cap s"
proof -
  have i: "i < length (sd_targets s)" using assms by (simp add: holders_ok_def shape_ok_def)
  then have "holders s i \<le> 1" using assms(1) by (simp add: holders_ok_def)
  then have "count_list (sd_queue s) i = 0" using assms(3) by (simp add: holders_def)
  then show q: "i \<notin> set (sd_queue s)" by (simp add: count_list_0_iff)
  have "set (sd_queue s) \<subseteq> {..< length (sd_targets s)} - {i}"
    using q assms(1) by (auto simp: holders_ok_def shape_ok_def)
  then have "card (set (sd_queue s)) \<le> card ({..< length (sd_targets s)} - {i})"
    by (intro card_mono) simp_all
  then have "length (sd_queue s) < length (sd_targets s)"
    using i queue_distinct [OF assms(1)] by (simp add: distinct_card)
  then show "length (sd_queue s) < sd_cap s" using assms(1) by (simp add: holders_ok_def shape_ok_def)
qed

section \<open>The gauge of sessions\<close>

fun connected :: "'r worker \<Rightarrow> bool" where
  "connected (Dialing _) = False"
| "connected (BackingOff _) = False"
| "connected WorkerDone = False"
| "connected _ = True"

definition up_ok :: "'r sched \<Rightarrow> bool" where
  "up_ok s \<longleftrightarrow> sd_up s = int (length (filter connected (sd_workers s)))"

lemma up_ok_set_worker:
  assumes "w < length (sd_workers s)" and "up_ok s"
    and "of_bool (connected p) = of_bool (connected (sd_workers s ! w)) + k"
    and "sd_up s' = sd_up s + k" and "sd_workers s' = sd_workers s"
  shows "up_ok (set_worker w p s')"
  using assms length_filter_update [OF assms(1), of connected p]
  by (auto simp: up_ok_def set_worker_def of_bool_def split: if_splits)

lemma record_outcome_up [simp]: "sd_up (record_outcome i jo s) = sd_up s"
  by (simp add: record_outcome_def count_error_def Let_def split: option.split)

lemma step_up:
  assumes "step opens runs tm cl s a s'" and "up_ok s"
  shows "up_ok s'"
  using assms
proof (induction rule: step.induct)
  case (dial_opens w s b r)
  then show ?case by (intro up_ok_set_worker [where k = 1 and s = s]) (simp_all add: add_up_def)
next
  case (shell_dropped w s r)
  then show ?case by (intro up_ok_set_worker [where k = "- 1" and s = s]) (simp_all add: add_up_def)
next
  case (worker_exits w s r)
  then show ?case by (intro up_ok_set_worker [where k = "- 1" and s = s]) (simp_all add: add_up_def)
next
  case (dial_fails w s b)
  then show ?case by (intro up_ok_set_worker [where k = 0 and s = s]) (simp_all add: count_error_def)
next
  case (backoff_ends w s b)
  then show ?case by (intro up_ok_set_worker [where k = 0 and s = s]) simp_all
next
  case (backoff_quits w s b)
  then show ?case by (intro up_ok_set_worker [where k = 0 and s = s]) simp_all
next
  case (dequeue w s r i q)
  then show ?case by (intro up_ok_set_worker [where k = 0 and s = s]) simp_all
next
  case (idle_quits w s r)
  then show ?case by (intro up_ok_set_worker [where k = 0 and s = s]) simp_all
next
  case (job_starts w s r i)
  then show ?case by (intro up_ok_set_worker [where k = 0 and s = s]) simp_all
next
  case (job_dropped w s r i)
  then show ?case by (intro up_ok_set_worker [where k = 0 and s = s]) (simp_all add: set_pending_def)
next
  case (job_answers w s r i a r')
  then show ?case by (intro up_ok_set_worker [where k = 0 and s = s]) simp_all
next
  case (job_returns w s r i ok)
  then show ?case by (intro up_ok_set_worker [where k = 0 and s = s]) (simp_all add: set_pending_def)
qed (simp_all add: up_ok_def sched_defs)

section \<open>Counters and records\<close>

text \<open>What the actions of an execution add to the error counters and to the records.\<close>

fun action_error :: "('e \<Rightarrow> bool) \<Rightarrow> ('e \<Rightarrow> bool) \<Rightarrow> 'e action \<Rightarrow> reason option" where
  "action_error tm cl (DialFails _) = Some ReasonConnect"
| "action_error tm cl (Answers _ _ a) = jo_error (run_job tm cl a)"
| "action_error tm cl _ = None"

fun action_record :: "('e \<Rightarrow> bool) \<Rightarrow> ('e \<Rightarrow> bool) \<Rightarrow> 'e action \<Rightarrow> (nat \<times> result) option" where
  "action_record tm cl (Answers _ i a) = map_option (Pair i) (jo_result (run_job tm cl a))"
| "action_record tm cl _ = None"

lemma step_accounts:
  assumes "step opens runs tm cl s a s'"
  shows "sd_errors s' e = sd_errors s e + of_bool (action_error tm cl a = Some e)"
    and "sd_records s' = sd_records s @ List.map_filter (action_record tm cl) [a]"
proof -
  have "sd_errors s' e = sd_errors s e + of_bool (action_error tm cl a = Some e) \<and>
     sd_records s' = sd_records s @ List.map_filter (action_record tm cl) [a]"
    using assms
    by (induction rule: step.induct)
       (auto simp: sched_defs List.map_filter_simps split: option.splits)
  then show "sd_errors s' e = sd_errors s e + of_bool (action_error tm cl a = Some e)"
    and "sd_records s' = sd_records s @ List.map_filter (action_record tm cl) [a]" by blast+
qed

lemma map_filter_append: "List.map_filter f (xs @ ys) = List.map_filter f xs @ List.map_filter f ys"
  by (simp add: List.map_filter_def)

lemma steps_accounts:
  assumes "steps opens runs tm cl s as s'"
  shows "sd_errors s' e = sd_errors s e + length (filter (\<lambda>a. action_error tm cl a = Some e) as)"
    and "sd_records s' = sd_records s @ List.map_filter (action_record tm cl) as"
  using assms
proof (induction rule: steps.induct)
  case (steps_snoc s as s' a s'')
  { case 1 from steps_snoc show ?case using step_accounts(1) [OF steps_snoc(2), of e] by simp }
  { case 2 from steps_snoc show ?case using step_accounts(2) [OF steps_snoc(2)] by (simp add: map_filter_append) }
qed (simp_all add: List.map_filter_simps)

text \<open>The sent counter of a target is the sum of what its records report, modulo \<open>2 ^ 64\<close>.\<close>

definition recorded_sent :: "nat \<Rightarrow> (nat \<times> result) list \<Rightarrow> u64" where
  "recorded_sent i rs = sum_list (map (\<lambda>(j, res). if j = i then rs_sent res else 0) rs)"

definition sent_ok :: "'r sched \<Rightarrow> bool" where
  "sent_ok s \<longleftrightarrow> (\<forall>i < length (sd_targets s). t_sent (sd_targets s ! i) = recorded_sent i (sd_records s))"

lemma sent_set_pending [simp]:
  "i < length (sd_targets s) \<Longrightarrow> t_sent (sd_targets (set_pending j b s) ! i) = t_sent (sd_targets s ! i)"
  by (cases "i = j") (auto simp: set_pending_def)

lemma set_pending_fields [simp]:
  "length (sd_targets (set_pending i b s)) = length (sd_targets s)"
  "sd_records (set_pending i b s) = sd_records s" "sd_timers (set_pending i b s) = sd_timers s"
  "sd_ctx (set_pending i b s) = sd_ctx s"
  by (simp_all add: set_pending_def)

lemma step_sent:
  assumes "step opens runs tm cl s a s'" and "sent_ok s"
  shows "sent_ok s'"
  using assms
proof (induction rule: step.induct)
  case (job_answers w s r i a r')
  have "t_sent (sd_targets (record_outcome i jo s) ! j) = recorded_sent j (sd_records (record_outcome i jo s))"
    if "j < length (sd_targets s)" for j jo
    using job_answers(4) that
    by (cases "i = j")
       (auto simp: sent_ok_def recorded_sent_def record_outcome_def count_error_def add_sent_def Let_def split: option.split)
  moreover have "length (sd_targets (record_outcome i jo s)) = length (sd_targets s)" for jo
    by (simp add: record_outcome_def count_error_def Let_def split: option.split)
  ultimately show ?case by (simp add: sent_ok_def set_worker_def)
qed (auto simp: sent_ok_def set_timer_def set_worker_def enqueue_claim_def enqueue_send_def count_skip_def
      count_error_def add_up_def cancel_def)

section \<open>The pause between dials\<close>

lemma next_backoff_value:
  assumes "0 \<le> sint b" and "sint b \<le> sint mx" and "2 * sint mx \<le> i64_max"
  shows "sint (next_backoff b mx) = min (2 * sint b) (sint mx)"
proof -
  have "sint (b * 2) = sint b * 2" using assms sint_mult64 [of b 2] by (simp add: fits64_def)
  then show ?thesis by (simp add: next_backoff_def min_def)
qed

lemma backoff_sequence:
  "sint (((\<lambda>b. next_backoff b (30 * 1000000000)) ^^ k) 1000000000) = min (2 ^ k * second) (30 * second)"
proof (induction k)
  case (Suc k)
  let ?b = "((\<lambda>b. next_backoff b (30 * 1000000000)) ^^ k) 1000000000"
  have "sint (next_backoff ?b (30 * 1000000000)) = min (2 * sint ?b) (sint (30 * 1000000000 :: duration))"
    using Suc.IH by (intro next_backoff_value) simp_all
  then show ?case using Suc.IH by (simp add: min_def)
qed simp

definition backoffs_ok :: "'r sched \<Rightarrow> bool" where
  "backoffs_ok s \<longleftrightarrow> sd_min_backoff s = 1000000000 \<and> sd_max_backoff s = 30 * 1000000000 \<and>
     (\<forall>w \<in> set (sd_workers s). \<forall>b. w = Dialing b \<or> w = BackingOff b \<longrightarrow>
        second \<le> sint b \<and> sint b \<le> 30 * second)"

lemma record_outcome_backoffs [simp]:
  "sd_min_backoff (record_outcome i jo s) = sd_min_backoff s"
  "sd_max_backoff (record_outcome i jo s) = sd_max_backoff s"
  by (simp_all add: record_outcome_def count_error_def Let_def split: option.split)

lemma backoffs_set_worker:
  assumes "backoffs_ok s" and "w < length (sd_workers s)"
    and "\<And>b. p = Dialing b \<or> p = BackingOff b \<Longrightarrow> second \<le> sint b \<and> sint b \<le> 30 * second"
    and "sd_workers s' = sd_workers s" "sd_min_backoff s' = sd_min_backoff s" "sd_max_backoff s' = sd_max_backoff s"
  shows "backoffs_ok (set_worker w p s')"
  using assms set_update_subset_insert [of "sd_workers s" w p]
  by (fastforce simp: backoffs_ok_def set_worker_def)

lemma step_backoffs:
  assumes "step opens runs tm cl s a s'" and "backoffs_ok s"
  shows "backoffs_ok s'"
  using assms
proof (induction rule: step.induct)
  case (backoff_ends w s b)
  have b: "second \<le> sint b \<and> sint b \<le> 30 * second" and mx: "sd_max_backoff s = 30 * 1000000000"
    using backoff_ends by (auto simp: backoffs_ok_def) (metis nth_mem)+
  have "sint (next_backoff b (sd_max_backoff s)) = min (2 * sint b) (30 * second)"
    using b mx next_backoff_value [of b "30 * 1000000000"] by simp
  then show ?case using backoff_ends b by (intro backoffs_set_worker [of s]) auto
next
  case (dial_fails w s b)
  then have "second \<le> sint b \<and> sint b \<le> 30 * second" by (auto simp: backoffs_ok_def) (metis nth_mem)+
  then show ?case using dial_fails by (intro backoffs_set_worker [of s]) (auto simp: count_error_def)
next
  case (shell_dropped w s r)
  then show ?case by (intro backoffs_set_worker [of s]) (auto simp: add_up_def backoffs_ok_def)
next
  case (job_returns w s r i ok)
  then show ?case by (intro backoffs_set_worker [of s]) (auto simp: set_pending_def split: if_splits)
next
  case (job_answers w s r i a r')
  then show ?case by (intro backoffs_set_worker [of s]) auto
next
  case (job_dropped w s r i)
  then show ?case by (intro backoffs_set_worker [of s]) (auto simp: set_pending_def)
next
  case (dial_opens w s b r)
  then show ?case by (intro backoffs_set_worker [of s]) (auto simp: add_up_def)
next
  case (worker_exits w s r)
  then show ?case by (intro backoffs_set_worker [of s]) (auto simp: add_up_def)
next
  case (dequeue w s r i q)
  then show ?case by (intro backoffs_set_worker [of s]) auto
next
  case (backoff_quits w s b)
  then show ?case by (intro backoffs_set_worker [of s]) auto
next
  case (idle_quits w s r)
  then show ?case by (intro backoffs_set_worker [of s]) auto
next
  case (job_starts w s r i)
  then show ?case by (intro backoffs_set_worker [of s]) auto
qed (simp_all add: backoffs_ok_def sched_defs)

section \<open>Stopping\<close>

text \<open>
  How many steps a goroutine is from its end once the context is cancelled, and the steps that
  need neither a timer nor new work.
\<close>

fun worker_rank :: "'r worker \<Rightarrow> nat" where
  "worker_rank WorkerDone = 0"
| "worker_rank (BackingOff _) = 1"
| "worker_rank (Exiting _) = 1"
| "worker_rank (Idle _) = 2"
| "worker_rank (Dequeued _ _) = 2"
| "worker_rank (Dialing _) = 3"
| "worker_rank (Dropping _) = 4"
| "worker_rank (Returning _ _ _) = 5"
| "worker_rank (Running _ _) = 6"

fun timer_rank :: "timer \<Rightarrow> nat" where
  "timer_rank TimerDone = 0"
| "timer_rank (Waiting _) = 1"
| "timer_rank Ticking = 1"
| "timer_rank Claimed = 2"
| "timer_rank Firing = 3"

definition rank :: "'r sched \<Rightarrow> nat" where
  "rank s = sum_list (map worker_rank (sd_workers s)) + sum_list (map timer_rank (sd_timers s))"

fun winding_down :: "'e action \<Rightarrow> bool" where
  "winding_down (TimerFires _) = False"
| "winding_down (BackoffEnds _) = False"
| "winding_down (Dequeues _) = False"
| "winding_down (Starts _) = False"
| "winding_down Cancels = False"
| "winding_down _ = True"

lemma winding_down_intros:
  "winding_down (TimerQuits i)" "winding_down (Claims i)" "winding_down (Sends i)"
  "winding_down (DialFails i)" "winding_down (BackoffQuits i)" "winding_down (IdleQuits i)"
  "winding_down (DropsTarget i)" "winding_down (Answers i j a)" "winding_down (Releases i)"
  "winding_down (Closes i)" "winding_down (Exits i)"
  by simp_all

lemma sum_list_map_update:
  "i < length xs \<Longrightarrow> sum_list (map f (xs[i := x])) + f (xs ! i) = sum_list (map f xs) + (f x :: nat)"
proof (induction xs arbitrary: i)
  case (Cons y xs)
  then show ?case by (cases i) (auto simp: ac_simps)
qed simp

lemma rank_set_worker:
  assumes "w < length (sd_workers s)" and "worker_rank p < worker_rank (sd_workers s ! w)"
    and "sd_workers s' = sd_workers s" and "sd_timers s' = sd_timers s"
  shows "rank (set_worker w p s') < rank s"
  using assms sum_list_map_update [OF assms(1), of worker_rank p] by (simp add: rank_def set_worker_def)

lemma rank_set_timer:
  assumes "i < length (sd_timers s)" and "timer_rank p < timer_rank (sd_timers s ! i)"
    and "sd_workers s' = sd_workers s" and "sd_timers s' = sd_timers s"
  shows "rank (set_timer i p s') < rank s"
  using assms sum_list_map_update [OF assms(1), of timer_rank p] by (simp add: rank_def set_timer_def)

lemma record_outcome_timers [simp]: "sd_timers (record_outcome i jo s) = sd_timers s"
  by (simp add: record_outcome_def count_error_def Let_def split: option.split)

lemma counters_timers [simp]:
  "sd_timers (count_error e s) = sd_timers s" "sd_timers (count_skip s) = sd_timers s"
  "sd_timers (add_up k s) = sd_timers s" "sd_workers (count_skip s) = sd_workers s"
  by (simp_all add: count_error_def count_skip_def add_up_def)

lemma winding_down_rank:
  assumes "step opens runs tm cl s a s'" and "winding_down a"
  shows "rank s' < rank s"
  using assms
  by (induction rule: step.induct)
     (auto intro!: rank_set_worker rank_set_timer simp: enqueue_claim_def enqueue_send_def split: if_splits)

lemma rank_bound: "rank s \<le> 6 * length (sd_workers s) + 3 * length (sd_timers s)"
proof -
  have w: "worker_rank w \<le> 6" for w :: "'a worker" by (cases w) simp_all
  have t: "timer_rank t \<le> 3" for t by (cases t) simp_all
  have "sum_list (map worker_rank (sd_workers s)) \<le> sum_list (map (\<lambda>_. 6) (sd_workers s))"
    using w by (intro sum_list_mono) auto
  moreover have "sum_list (map timer_rank (sd_timers s)) \<le> sum_list (map (\<lambda>_. 3) (sd_timers s))"
    using t by (intro sum_list_mono) auto
  ultimately show ?thesis by (simp add: rank_def sum_list_triv)
qed

lemma step_cancelled: "step opens runs tm cl s a s' \<Longrightarrow> sd_ctx s = Cancelled \<Longrightarrow> sd_ctx s' = Cancelled \<and> a \<noteq> Starts w"
  by (induction rule: step.induct)
     (auto simp: sched_defs split: option.splits)

lemma stopped_up: "up_ok s \<Longrightarrow> stopped s \<Longrightarrow> sd_up s = 0"
  by (auto simp: up_ok_def stopped_def list_all_iff filter_empty_conv)

context runner
begin

text \<open>Every shell a worker can use is open.\<close>

fun shell_ok :: "'r worker \<Rightarrow> bool" where
  "shell_ok (Idle r) = is_open r"
| "shell_ok (Dequeued r _) = is_open r"
| "shell_ok (Running r _) = is_open r"
| "shell_ok (Returning r _ ok) = (ok \<longrightarrow> is_open r)"
| "shell_ok _ = True"

lemma shells_set_worker:
  "list_all shell_ok (sd_workers s) \<Longrightarrow> shell_ok p \<Longrightarrow> sd_workers s' = sd_workers s \<Longrightarrow>
   list_all shell_ok (sd_workers (set_worker w p s'))"
  using set_update_subset_insert [of "sd_workers s" w p] by (auto simp: list_all_iff set_worker_def)

lemma step_shells:
  assumes "step opens runs is_timeout is_closed s a s'" and "list_all shell_ok (sd_workers s)"
    and opens: "\<And>r. opens r \<Longrightarrow> is_open r"
  shows "list_all shell_ok (sd_workers s')"
  using assms(1,2)
proof (induction rule: step.induct)
  case (job_answers w s r i a r')
  then have "shell_ok (Running r i)" by (metis list_all_length)
  then have "shell_ok (Returning r' i (jo_reuse (run_job is_timeout is_closed a)))"
    using reuse_iff_open job_answers(3) by auto
  then show ?case using job_answers by (intro shells_set_worker [of s]) simp_all
next
  case (job_returns w s r i ok)
  then have "shell_ok (Returning r i ok)" by (metis list_all_length)
  then show ?case using job_returns by (intro shells_set_worker [of s]) simp_all
next
  case (dequeue w s r i q)
  then have "shell_ok (Idle r)" by (metis list_all_length)
  then show ?case using dequeue by (intro shells_set_worker [of s]) simp_all
next
  case (job_starts w s r i)
  then have "shell_ok (Dequeued r i)" by (metis list_all_length)
  then show ?case using job_starts by (intro shells_set_worker [of s]) simp_all
next
  case (dial_opens w s b r)
  then show ?case using opens by (intro shells_set_worker [of s]) simp_all
next
  case (dial_fails w s b)
  then show ?case by (intro shells_set_worker [of s]) simp_all
next
  case (backoff_ends w s b)
  then show ?case by (intro shells_set_worker [of s]) simp_all
next
  case (backoff_quits w s b)
  then show ?case by (intro shells_set_worker [of s]) simp_all
next
  case (idle_quits w s r)
  then show ?case by (intro shells_set_worker [of s]) simp_all
next
  case (job_dropped w s r i)
  then show ?case by (intro shells_set_worker [of s]) simp_all
next
  case (shell_dropped w s r)
  then show ?case by (intro shells_set_worker [of s]) simp_all
next
  case (worker_exits w s r)
  then show ?case by (intro shells_set_worker [of s]) simp_all
qed (simp_all add: sched_defs)

lemma step_winds_down:
  assumes "sd_ctx s = Cancelled" and "list_all shell_ok (sd_workers s)" and "\<not> stopped s"
  shows "\<exists>a s'. step opens runs is_timeout is_closed s a s' \<and> winding_down a"
proof (cases "\<exists>i < length (sd_timers s). sd_timers s ! i \<noteq> TimerDone")
  case True
  then obtain i where "i < length (sd_timers s)" "sd_timers s ! i \<noteq> TimerDone" by blast
  then show ?thesis
    using assms(1) by (cases "sd_timers s ! i") (blast intro: step.intros winding_down_intros)+
next
  case False
  then obtain w where w: "w < length (sd_workers s)" "sd_workers s ! w \<noteq> WorkerDone"
    using assms(3) by (auto simp: stopped_def list_all_length)
  show ?thesis
  proof (cases "sd_workers s ! w")
    case (Running r i)
    then have "is_open r" using assms(2) w(1) by (metis list_all_length shell_ok.simps(3))
    then obtain a r' where "runs r (build_command (t_job (sd_targets s ! i)))
        (command_deadline (t_job (sd_targets s ! i))) a r'" using runs_total by blast
    with Running w show ?thesis by (blast intro: step.intros winding_down_intros)
  qed (use w assms(1) in \<open>blast intro: step.intros winding_down_intros\<close>)+
qed

lemma can_stop:
  assumes "sd_ctx s = Cancelled" and "list_all shell_ok (sd_workers s)" and "up_ok s"
    and opens: "\<And>r. opens r \<Longrightarrow> is_open r"
  shows "\<exists>as s'. steps opens runs is_timeout is_closed s as s' \<and> list_all winding_down as \<and>
     stopped s' \<and> sd_up s' = 0 \<and> length as \<le> rank s"
  using assms(1-3)
proof (induction "rank s" arbitrary: s rule: less_induct)
  case less
  show ?case
  proof (cases "stopped s")
    case True
    then show ?thesis using less.prems stopped_up steps_Nil by (intro exI [of _ "[]"] exI [of _ s]) auto
  next
    case False
    then obtain a s1 where a: "step opens runs is_timeout is_closed s a s1" "winding_down a"
      using step_winds_down less.prems by blast
    then have lt: "rank s1 < rank s" by (rule winding_down_rank)
    have "sd_ctx s1 = Cancelled" "list_all shell_ok (sd_workers s1)" "up_ok s1"
      using a(1) less.prems step_cancelled step_shells [OF a(1) _ opens] step_up by blast+
    then obtain as s' where as: "steps opens runs is_timeout is_closed s1 as s'" "list_all winding_down as"
      "stopped s'" "sd_up s' = 0" "length as \<le> rank s1"
      using less.hyps [OF lt] by blast
    have "steps opens runs is_timeout is_closed s ([a] @ as) s'"
      using steps_trans [OF as(1) steps_one [OF a(1)]] .
    with as a(2) lt show ?thesis by (intro exI [of _ "[a] @ as"] exI [of _ s']) simp
  qed
qed

end

section \<open>The first ping of each target\<close>

lemma splay_offset_value:
  assumes "i < n" and "0 < sint interval" and "int n * sint interval \<le> i64_max"
  shows "sint (splay_offset interval i n) = int i * sint interval div int n"
proof -
  have "int i * 1 \<le> int i * sint interval" "int n * 1 \<le> int n * sint interval"
    using assms(2) by (intro mult_left_mono; simp)+
  moreover have "int i * sint interval \<le> int n * sint interval" using assms(1,2) by (intro mult_right_mono) simp_all
  ultimately have "int i * sint interval \<le> i64_max" "int i \<le> i64_max" "int n \<le> i64_max" using assms(3) by linarith+
  moreover have "0 \<le> int i * sint interval" by (rule mult_nonneg_nonneg) (use assms(2) in simp_all)
  ultimately have fits: "fits64 (int i)" "fits64 (int n)" "fits64 (int i * sint interval)"
    by (simp_all only: fits64_nonneg of_nat_0_le_iff)
  then have "sint (of_nat i :: i64) = int i" "sint (of_nat n :: i64) = int n"
    using sint_word_of_int64 [of "int i"] sint_word_of_int64 [of "int n"] by simp_all
  then show ?thesis
    using assms fits sint_mult64 [of "of_nat i" interval]
    by (simp add: splay_offset_def sint_quot64_nonneg mult.commute [of interval])
qed

lemma splay_offset_less:
  assumes "i < n" and "0 < (x :: int)"
  shows "int i * x div int n < x" and "0 \<le> int i * x div int n"
proof -
  have lt: "int i * x < int n * x" using assms by simp
  show "int i * x div int n < x"
  proof (rule ccontr)
    assume "\<not> int i * x div int n < x"
    then have "int n * x \<le> int n * (int i * x div int n)" by (intro mult_left_mono) simp_all
    moreover have "int n * (int i * x div int n) \<le> int i * x"
      using assms(1) mult_div_mod_eq [of "int n" "int i * x"] pos_mod_sign [of "int n" "int i * x"] by linarith
    ultimately show False using lt by linarith
  qed
qed (use assms in \<open>simp add: pos_imp_zdiv_nonneg_iff\<close>)

section \<open>Executions\<close>

text \<open>A run of a started scheduler on targets as \<open>BuildTargets\<close> makes them.\<close>

definition fresh :: "target list \<Rightarrow> bool" where
  "fresh ts \<longleftrightarrow> list_all (\<lambda>t. \<not> t_pending t \<and> t_sent t = 0) ts"

definition executes ::
  "('r \<Rightarrow> bool) \<Rightarrow> ('r \<Rightarrow> string \<Rightarrow> duration \<Rightarrow> 'e + string \<Rightarrow> 'r \<Rightarrow> bool) \<Rightarrow> ('e \<Rightarrow> bool) \<Rightarrow> ('e \<Rightarrow> bool) \<Rightarrow>
   string \<Rightarrow> i64 \<Rightarrow> target list \<Rightarrow> 'e action list \<Rightarrow> 'r sched \<Rightarrow> bool" where
  "executes opens runs tm cl router sessions targets as s \<longleftrightarrow>
     steps opens runs tm cl (start (new_scheduler router sessions targets)) as s"

lemma started_holders: "fresh ts \<Longrightarrow> holders_ok (start (new_scheduler router n ts))"
  by (auto simp: holders_ok_def shape_ok_def holders_def start_def new_scheduler_def fresh_def list_all_length
        nth_enumerate_eq)

lemma started_up: "up_ok (start (new_scheduler router n ts))"
  by (simp add: up_ok_def start_def new_scheduler_def)

lemma started_sent: "fresh ts \<Longrightarrow> sent_ok (start (new_scheduler router n ts))"
  by (auto simp: sent_ok_def start_def new_scheduler_def fresh_def list_all_length recorded_sent_def)

lemma started_backoffs: "backoffs_ok (start (new_scheduler router n ts))"
  by (auto simp: backoffs_ok_def start_def new_scheduler_def)

lemma executes_invariants:
  assumes "executes opens runs tm cl router n ts as s"
  shows "fresh ts \<Longrightarrow> holders_ok s" and "fresh ts \<Longrightarrow> sent_ok s" and "up_ok s" and "backoffs_ok s"
    and "length (sd_workers s) = nat (sint n)" and "length (sd_timers s) = length ts"
    and "length (sd_targets s) = length ts" and "map t_job (sd_targets s) = map t_job ts"
proof -
  let ?s0 = "start (new_scheduler router n ts)"
  note st = assms [unfolded executes_def]
  show "fresh ts \<Longrightarrow> holders_ok s" by (rule steps_invariant [OF st]) (use started_holders step_holders in blast)+
  show "fresh ts \<Longrightarrow> sent_ok s" by (rule steps_invariant [OF st]) (use started_sent step_sent in blast)+
  show "up_ok s" by (rule steps_invariant [OF st]) (use started_up step_up in blast)+
  show "backoffs_ok s" by (rule steps_invariant [OF st]) (use started_backoffs step_backoffs in blast)+
  have "fixed ?s0 s"
    by (rule steps_invariant [OF st]) (auto simp: fixed_def dest!: step_fixed)
  then show "length (sd_workers s) = nat (sint n)" "length (sd_timers s) = length ts"
    "length (sd_targets s) = length ts" "map t_job (sd_targets s) = map t_job ts"
    by (simp_all add: fixed_def start_def new_scheduler_def)
qed

lemma started_counters [simp]:
  "sd_errors (start (new_scheduler router n ts)) = (\<lambda>_. 0)" "sd_records (start (new_scheduler router n ts)) = []"
  by (simp_all add: start_def new_scheduler_def)

text \<open>Two workers never hold the same target, and a target a worker holds is not in the queue.\<close>

lemma holders_exclusive:
  assumes "holders_ok s" and "w < length (sd_workers s)" and "worker_target (sd_workers s ! w) = Some i"
  shows "i \<notin> set (sd_queue s)" and "t_pending (sd_targets s ! i)" and "sd_timers s ! i \<noteq> Claimed"
    and "v < length (sd_workers s) \<Longrightarrow> worker_target (sd_workers s ! v) = Some i \<Longrightarrow> v = w"
proof -
  let ?P = "\<lambda>w. worker_target w = Some i"
  have "i < length (sd_targets s)" using assms by (auto simp: holders_ok_def shape_ok_def)
  then have h: "holders s i = of_bool (t_pending (sd_targets s ! i))" using assms(1) by (simp add: holders_ok_def)
  have one: "1 \<le> length (filter ?P (sd_workers s))"
    using assms(2,3) by (auto simp: filter_empty_conv Suc_le_eq)
  have "of_bool (t_pending (sd_targets s ! i)) \<le> (1 :: nat)" by simp
  with one h have "length (filter ?P (sd_workers s)) = 1" "count_list (sd_queue s) i = 0"
    "of_bool (sd_timers s ! i = Claimed) = (0 :: nat)" "of_bool (t_pending (sd_targets s ! i)) = (1 :: nat)"
    unfolding holders_def by linarith+
  then have "length (filter ?P (sd_workers s)) = 1 \<and> t_pending (sd_targets s ! i) \<and>
      count_list (sd_queue s) i = 0 \<and> sd_timers s ! i \<noteq> Claimed"
    by (simp only: of_bool_eq_1_iff of_bool_eq_0_iff simp_thms)
  then show "i \<notin> set (sd_queue s)" "t_pending (sd_targets s ! i)" "sd_timers s ! i \<noteq> Claimed"
    by (auto simp: count_list_0_iff)
  assume v: "v < length (sd_workers s)" "worker_target (sd_workers s ! v) = Some i"
  have "card {k. k < length (sd_workers s) \<and> ?P (sd_workers s ! k)} = 1"
    using \<open>length (filter ?P (sd_workers s)) = 1 \<and> _\<close> by (simp add: length_filter_conv_card)
  then obtain k where k: "{k. k < length (sd_workers s) \<and> ?P (sd_workers s ! k)} = {k}"
    by (rule card_1_singletonE)
  have "v \<in> {k}" "w \<in> {k}" unfolding k [symmetric] using v assms(2,3) by simp_all
  then show "v = w" by simp
qed

section \<open>The life of one target\<close>

text \<open>
  The specification of the scheduler, target by target: a target is free, waits for a worker, or
  is being pinged, and an execution moves one target at a time along these edges.
\<close>

datatype phase = Free | Waits | Pinged

inductive phase_step :: "phase \<Rightarrow> phase \<Rightarrow> bool" where
  queued: "phase_step Free Waits"
| pinged: "phase_step Waits Pinged"
| dropped: "phase_step Waits Free"
| returned: "phase_step Pinged Free"

inductive_simps phase_step_from [simp]: "phase_step Free p" "phase_step Waits p" "phase_step Pinged p"

fun runs_target :: "'r worker \<Rightarrow> nat option" where
  "runs_target (Running _ i) = Some i"
| "runs_target (Returning _ i _) = Some i"
| "runs_target _ = None"

definition phase :: "'r sched \<Rightarrow> nat \<Rightarrow> phase" where
  "phase s i =
     (if \<not> t_pending (sd_targets s ! i) then Free
      else if Some i \<in> runs_target ` set (sd_workers s) then Pinged else Waits)"

lemma runs_worker: "runs_target w = Some i \<Longrightarrow> worker_target w = Some i"
  by (cases w) auto

lemma runs_set_same:
  assumes "w < length ws" and "runs_target (ws ! w) = runs_target p"
  shows "runs_target ` set (ws[w := p]) = runs_target ` set ws"
proof -
  have "map runs_target (ws[w := p]) = map runs_target ws"
    using assms by (metis list_update_id map_update)
  then show ?thesis by (metis list.set_map)
qed

lemma phase_same:
  assumes "w < length (sd_workers s)" and "runs_target (sd_workers s ! w) = runs_target p"
    and "sd_workers s' = sd_workers s" and "t_pending (sd_targets s' ! i) = t_pending (sd_targets s ! i)"
  shows "phase (set_worker w p s') i = phase s i"
  using assms runs_set_same [OF assms(1,2)] by (simp add: phase_def set_worker_def)

lemma runs_mem_update:
  assumes "w < length ws" and "runs_target (ws ! w) \<noteq> Some j" and "runs_target p \<noteq> Some j"
  shows "Some j \<in> runs_target ` set (ws[w := p]) \<longleftrightarrow> Some j \<in> runs_target ` set ws"
proof -
  have mem: "Some j \<in> runs_target ` set xs \<longleftrightarrow> (\<exists>k < length xs. runs_target (xs ! k) = Some j)" for xs :: "'a worker list"
    by (metis (no_types, lifting) image_iff in_set_conv_nth)
  show ?thesis unfolding mem using assms by (auto simp: nth_list_update)
qed

lemma pending_neq: "i \<noteq> j \<Longrightarrow> t_pending (sd_targets (set_pending i b s) ! j) = t_pending (sd_targets s ! j)"
  by (simp add: set_pending_def)

lemma phase_others:
  assumes "w < length (sd_workers s)" and "runs_target (sd_workers s ! w) \<noteq> Some j" and "runs_target p \<noteq> Some j"
    and "i \<noteq> j"
  shows "phase (set_worker w p s) j = phase s j" and "phase (set_worker w p (set_pending i b s)) j = phase s j"
  using runs_mem_update [OF assms(1-3)] pending_neq [OF assms(4), of b s]
  by (simp_all add: phase_def set_worker_def)

lemma not_run_elsewhere:
  assumes "holders_ok s" and "w < length (sd_workers s)" and "worker_target (sd_workers s ! w) = Some i"
    and "runs_target (sd_workers s ! w) = None"
  shows "Some i \<notin> runs_target ` set (sd_workers s)"
proof
  assume "Some i \<in> runs_target ` set (sd_workers s)"
  then obtain v where v: "v < length (sd_workers s)" "runs_target (sd_workers s ! v) = Some i"
    by (auto simp: in_set_conv_nth)
  then have "v = w" using holders_exclusive(4) [OF assms(1-3)] runs_worker by blast
  with v assms(4) show False by simp
qed

text \<open>The three ways a worker moves a target.\<close>

lemma phase_start:
  assumes "holders_ok s" and "w < length (sd_workers s)" and "sd_workers s ! w = Dequeued r i"
  shows "phase (set_worker w (Running r i) s) = (phase s)(i := Pinged)" and "phase s i = Waits"
proof -
  have t: "worker_target (sd_workers s ! w) = Some i" "runs_target (sd_workers s ! w) = None" using assms(3) by simp_all
  have p: "t_pending (sd_targets s ! i)" by (rule holders_exclusive(2) [OF assms(1,2) t(1)])
  show "phase s i = Waits" using not_run_elsewhere [OF assms(1,2) t] p by (simp add: phase_def)
  have "Running r i \<in> set ((sd_workers s)[w := Running r i])" using assms(2) by (simp add: set_update_memI)
  then have "Some i \<in> runs_target ` set ((sd_workers s)[w := Running r i])" by force
  then have "phase (set_worker w (Running r i) s) i = Pinged" using p by (simp add: phase_def set_worker_def)
  moreover have "phase (set_worker w (Running r i) s) j = phase s j" if "j \<noteq> i" for j
    using phase_others(1) [OF assms(2), of j "Running r i" i] t that by simp
  ultimately show "phase (set_worker w (Running r i) s) = (phase s)(i := Pinged)" by (simp add: fun_eq_iff)
qed

lemma phase_release:
  assumes "holders_ok s" and "w < length (sd_workers s)" and "worker_target (sd_workers s ! w) = Some i"
    and "runs_target p = None"
  shows "phase (set_worker w p (set_pending i False s)) = (phase s)(i := Free)" and "phase s i \<noteq> Free"
proof -
  have i: "i < length (sd_targets s)" using assms(1-3) by (auto simp: holders_ok_def shape_ok_def)
  then have "phase (set_worker w p (set_pending i False s)) i = Free"
    by (simp add: phase_def set_worker_def pending_set_pending)
  moreover have "phase (set_worker w p (set_pending i False s)) j = phase s j" if "j \<noteq> i" for j
  proof -
    have "runs_target (sd_workers s ! w) \<noteq> Some j" using runs_worker [of "sd_workers s ! w" j] assms(3) that by auto
    then show ?thesis using phase_others(2) [OF assms(2), of j p i] assms(4) that by simp
  qed
  ultimately show "phase (set_worker w p (set_pending i False s)) = (phase s)(i := Free)" by (simp add: fun_eq_iff)
  show "phase s i \<noteq> Free" using holders_exclusive(2) [OF assms(1-3)] by (simp add: phase_def)
qed

lemma phase_claim:
  assumes "holders_ok s" and "i < length (sd_timers s)"
  shows "phase (enqueue_claim i s) = phase s \<or> phase s i = Free \<and> phase (enqueue_claim i s) = (phase s)(i := Waits)"
proof (cases "t_pending (sd_targets s ! i)")
  case True
  then show ?thesis by (simp add: enqueue_claim_def phase_def set_timer_def count_skip_def fun_eq_iff)
next
  case False
  have i: "i < length (sd_targets s)" using assms by (simp add: holders_ok_def shape_ok_def)
  then have "holders s i = 0" using assms(1) False by (simp add: holders_ok_def)
  then have "filter (\<lambda>w. worker_target w = Some i) (sd_workers s) = []" by (simp add: holders_def)
  then have none: "Some i \<notin> runs_target ` set (sd_workers s)"
    unfolding filter_empty_conv using runs_worker by (metis imageE)
  have "phase (enqueue_claim i s) j = ((phase s)(i := Waits)) j" for j
    using False none i pending_neq [of i j True s] pending_set_pending [OF i, of i True]
    by (cases "j = i") (simp_all add: enqueue_claim_def phase_def set_timer_def)
  then show ?thesis using False by (auto simp: phase_def)
qed

lemma record_outcome_pending_all: "t_pending (sd_targets (record_outcome i jo s) ! j) = t_pending (sd_targets s ! j)"
proof (cases "j < length (sd_targets s)")
  case False
  then show ?thesis
    by (cases "i = j") (simp_all add: record_outcome_def count_error_def list_update_beyond Let_def split: option.split)
qed simp

lemma step_phase:
  assumes "step opens runs tm cl s a s'" and "holders_ok s"
  shows "phase s' = phase s \<or> (\<exists>i p. phase_step (phase s i) p \<and> phase s' = (phase s)(i := p))"
  using assms
proof (induction rule: step.induct)
  case (claim i s)
  then show ?case using phase_claim [of s i] by (metis queued)
next
  case (send i s)
  have "length (sd_queue s) < sd_cap s" using claimed_not_queued(2) send by blast
  then show ?case by (simp add: enqueue_send_def phase_def set_timer_def fun_eq_iff)
next
  case (job_starts w s r i)
  then show ?case using phase_start [of s w r i] by (metis pinged)
next
  case (job_dropped w s r i)
  then show ?case
    using phase_release [of s w i "Exiting r"] phase_start(2) [of s w r i] by (metis dropped runs_target.simps(8) worker_target.simps(1))
next
  case (job_returns w s r i ok)
  let ?p = "if ok then Idle r else Dropping r"
  have rel: "phase (set_worker w ?p (set_pending i False s)) = (phase s)(i := Free)"
    using phase_release(1) [of s w i ?p] job_returns by simp
  have "Returning r i ok \<in> set (sd_workers s)" using job_returns by (metis nth_mem)
  then have "Some i \<in> runs_target ` set (sd_workers s)" by force
  moreover have "t_pending (sd_targets s ! i)" using holders_exclusive(2) [of s w i] job_returns by simp
  ultimately have "phase s i = Pinged" by (simp add: phase_def)
  with rel show ?case by (metis returned)
next
  case (job_answers w s r i a r')
  then show ?case
    by (intro disjI1 ext phase_same) (simp_all add: record_outcome_pending_all)
next
  case (first_timer i s d)
  then show ?case by (simp add: phase_def set_timer_def fun_eq_iff)
next
  case (ticker i s)
  then show ?case by (simp add: phase_def set_timer_def fun_eq_iff)
next
  case (first_timer_done i s d)
  then show ?case by (simp add: phase_def set_timer_def fun_eq_iff)
next
  case (ticker_done i s)
  then show ?case by (simp add: phase_def set_timer_def fun_eq_iff)
next
  case (cancelled s)
  then show ?case by (simp add: phase_def cancel_def fun_eq_iff)
qed (intro disjI1 ext phase_same; simp)+

section \<open>After the context is cancelled\<close>

fun is_running :: "'r worker \<Rightarrow> bool" where
  "is_running (Running _ _) = True"
| "is_running _ = False"

fun is_answer :: "'e action \<Rightarrow> bool" where
  "is_answer (Answers _ _ _) = True"
| "is_answer _ = False"

definition running :: "'r sched \<Rightarrow> nat" where
  "running s = length (filter is_running (sd_workers s))"

lemma running_set_worker:
  "w < length (sd_workers s) \<Longrightarrow> sd_workers s' = sd_workers s \<Longrightarrow>
   running (set_worker w p s') + of_bool (is_running (sd_workers s ! w)) = running s + of_bool (is_running p)"
  using length_filter_update [of w "sd_workers s" is_running p] by (simp add: running_def set_worker_def)

lemma running_worker_same:
  "w < length (sd_workers s) \<Longrightarrow> \<not> is_running (sd_workers s ! w) \<Longrightarrow> \<not> is_running p \<Longrightarrow> sd_workers s' = sd_workers s \<Longrightarrow>
   running (set_worker w p s') = running s"
  using running_set_worker [of w s s' p] by simp

lemma step_running:
  assumes "step opens runs tm cl s a s'" and "sd_ctx s = Cancelled"
  shows "running s' + of_bool (is_answer a) \<le> running s"
  using assms
proof (induction rule: step.induct)
  case (job_answers w s r i a r')
  then show ?case
    using running_set_worker [of w s "record_outcome i (run_job tm cl a) s" "Returning r' i (jo_reuse (run_job tm cl a))"]
    by simp
next
  case (first_timer i s d) then show ?case by (simp add: running_def set_timer_def)
next
  case (ticker i s) then show ?case by (simp add: running_def set_timer_def)
next
  case (first_timer_done i s d) then show ?case by (simp add: running_def set_timer_def)
next
  case (ticker_done i s) then show ?case by (simp add: running_def set_timer_def)
next
  case (claim i s)
  then show ?case by (simp add: running_def enqueue_claim_def set_timer_def set_pending_def count_skip_def)
next
  case (send i s)
  then show ?case by (simp add: running_def enqueue_send_def set_timer_def set_pending_def count_skip_def)
next
  case (cancelled s) then show ?case by (simp add: running_def cancel_def)
qed (simp_all add: running_worker_same)

lemma steps_cancelled:
  assumes "steps opens runs tm cl s as s'" and "sd_ctx s = Cancelled"
  shows "sd_ctx s' = Cancelled" and "\<And>w. Starts w \<notin> set as" and "running s' + length (filter is_answer as) \<le> running s"
proof -
  have "sd_ctx s' = Cancelled \<and> (\<forall>w. Starts w \<notin> set as) \<and> running s' + length (filter is_answer as) \<le> running s"
    using assms
  proof (induction rule: steps.induct)
    case (steps_snoc s as s' a s'')
    then have c: "sd_ctx s' = Cancelled" by blast
    have "running s'' + of_bool (is_answer a) \<le> running s'" using step_running [OF steps_snoc.hyps(2) c] .
    moreover have "sd_ctx s'' = Cancelled \<and> (\<forall>w. a \<noteq> Starts w)" using step_cancelled [OF steps_snoc.hyps(2) c] by blast
    ultimately show ?case using steps_snoc by (auto simp: of_bool_def split: if_splits)
  qed simp
  then show "sd_ctx s' = Cancelled" "\<And>w. Starts w \<notin> set as" "running s' + length (filter is_answer as) \<le> running s"
    by blast+
qed

section \<open>The series of the scheduler\<close>

definition initial_series :: "string \<Rightarrow> (remote_vec \<times> string list) set" where
  "initial_series router =
     {(SessionsUp, [router]), (JobsSkipped, [router])} \<union> (\<lambda>e. (RemoteErrors, [router, reason_text e])) ` UNIV"

lemma reason_UNIV: "UNIV = {ReasonConnect, ReasonTimeout, ReasonParse}"
  using reason.exhaust by blast

lemma initial_series_sets:
  "initial_series router =
     {(SessionsUp, [router]), (RemoteErrors, [router, ''connect'']), (RemoteErrors, [router, ''timeout'']),
      (RemoteErrors, [router, ''parse'']), (JobsSkipped, [router])}"
  by (auto simp: initial_series_def reason_UNIV)

definition series_ok :: "'r sched \<Rightarrow> bool" where
  "series_ok s \<longleftrightarrow> set (sd_series s) = initial_series (sd_router s)"

lemma series_ok_intros:
  "series_ok s \<Longrightarrow> series_ok (count_error e s)" "series_ok s \<Longrightarrow> series_ok (count_skip s)"
  "series_ok s \<Longrightarrow> series_ok (add_up k s)" "series_ok s \<Longrightarrow> series_ok (set_timer i p s)"
  "series_ok s \<Longrightarrow> series_ok (set_worker w q s)" "series_ok s \<Longrightarrow> series_ok (set_pending i b s)"
  "series_ok s \<Longrightarrow> series_ok (s\<lparr>sd_queue := xs\<rparr>)" "series_ok s \<Longrightarrow> series_ok (cancel s)"
  "series_ok s \<Longrightarrow> series_ok (s\<lparr>sd_targets := ts, sd_records := rs\<rparr>)"
  by (auto simp: series_ok_def initial_series_def count_error_def count_skip_def add_up_def set_timer_def set_worker_def
      set_pending_def cancel_def)

lemma step_series:
  assumes "step opens runs tm cl s a s'" and "series_ok s"
  shows "series_ok s'"
  using assms
proof (induction rule: step.induct)
  case (claim i s)
  then show ?case by (simp add: enqueue_claim_def series_ok_intros)
next
  case (send i s)
  then show ?case by (simp add: enqueue_send_def series_ok_intros)
next
  case (job_answers w s r i a r')
  then show ?case by (simp add: record_outcome_def Let_def series_ok_intros split: option.split)
qed (simp_all add: series_ok_intros)

lemma started_shape: "shape_ok (start (new_scheduler router n ts))"
  by (simp add: shape_ok_def start_def new_scheduler_def)

lemma started_series: "series_ok (start (new_scheduler router n ts))"
  by (auto simp: series_ok_def initial_series_sets start_def new_scheduler_def)

lemma step_router: "step opens runs tm cl s a s' \<Longrightarrow> sd_router s' = sd_router s"
  by (induction rule: step.induct) (auto simp: sched_defs split: option.splits)

section \<open>A sample execution\<close>

definition sample_ping_target :: target where
  "sample_ping_target = \<lparr>t_host = ''1.1.1.1'', t_link = ''a'', t_interval = 60000000000, t_labels = [],
     t_job = \<lparr>j_target = ''1.1.1.1'', j_ipv6 = False, j_source = ''192.0.2.1'', j_count = 10,
       j_packet_interval = 50000000, j_timeout = 500000000, j_size = 56, j_tos = 0, j_vpn_instance = []\<rparr>,
     t_sent = 0, t_pending = False\<rparr>"

text \<open>A scheduler of one session and one target, on a shell whose answers are free.\<close>

abbreviation sample_executes :: "unit action list \<Rightarrow> unit sched \<Rightarrow> bool" where
  "sample_executes \<equiv> executes (\<lambda>_. True) (\<lambda>_ _ _ _ _. True) (\<lambda>_. True) (\<lambda>_. False) ''r1'' 1 [sample_ping_target]"

abbreviation sample_step :: "unit sched \<Rightarrow> unit action \<Rightarrow> unit sched \<Rightarrow> bool" where
  "sample_step \<equiv> step (\<lambda>_. True) (\<lambda>_ _ _ _ _. True) (\<lambda>_. True) (\<lambda>_. False)"

definition sample_started :: "unit sched" where
  "sample_started = start (new_scheduler ''r1'' 1 [sample_ping_target])"

definition sample_claimed :: "unit sched" where
  "sample_claimed = enqueue_claim 0 (set_timer 0 Firing sample_started)"

definition sample_dequeued :: "unit sched" where
  "sample_dequeued =
     set_worker 0 (Dequeued () 0) ((set_worker 0 (Idle ()) (add_up 1 (enqueue_send 0 sample_claimed)))\<lparr>sd_queue := []\<rparr>)"

definition sample_cancelled :: "unit sched" where
  "sample_cancelled = cancel (set_worker 0 (Running () 0) sample_dequeued)"

lemmas sample_sched_defs =
  sample_started_def sample_claimed_def sample_dequeued_def sample_cancelled_def start_def new_scheduler_def sched_defs
  sample_ping_target_def

lemma sample_fresh: "fresh [sample_ping_target]"
  by (simp add: fresh_def sample_ping_target_def)

lemma sample_state [simp]:
  "sd_timers sample_claimed = [Claimed]" "sd_workers sample_claimed = [Dialing 1000000000]"
  "sd_queue sample_claimed = []" "sd_workers sample_dequeued = [Dequeued () 0]" "sd_ctx sample_cancelled = Cancelled"
  "sd_timers sample_dequeued = [Ticking]" "t_pending (sd_targets sample_dequeued ! 0)"
  "sd_ctx sample_dequeued = Active" "sd_workers sample_cancelled = [Running () 0]"
  by (simp_all add: sample_sched_defs)

lemma executes_step:
  "executes opens runs tm cl router n ts as s \<Longrightarrow> step opens runs tm cl s a s' \<Longrightarrow>
   executes opens runs tm cl router n ts (as @ [a]) s'"
  unfolding executes_def by (rule steps_snoc)

lemma sample_claimed_reached: "sample_executes [TimerFires 0, Claims 0] sample_claimed"
proof -
  have "sample_executes [] sample_started" by (simp add: executes_def sample_started_def steps_Nil)
  moreover have "sd_timers sample_started = [Waiting 0]"
    by (simp add: sample_sched_defs splay_offset_def quot64_def)
  then have "sample_step sample_started (TimerFires 0) (set_timer 0 Firing sample_started)" by (intro first_timer) simp_all
  ultimately have "sample_executes [TimerFires 0] (set_timer 0 Firing sample_started)"
    using executes_step by fastforce
  moreover have "sd_timers (set_timer 0 Firing sample_started) = [Firing]" by (simp add: sample_sched_defs)
  then have "sample_step (set_timer 0 Firing sample_started) (Claims 0) sample_claimed"
    unfolding sample_claimed_def by (intro claim) simp_all
  ultimately show ?thesis using executes_step by fastforce
qed

lemma sample_dequeued_reached:
  "sample_executes [TimerFires 0, Claims 0, Sends 0, DialOpens 0, Dequeues 0] sample_dequeued"
proof -
  let ?s1 = "enqueue_send 0 sample_claimed"
  let ?s2 = "set_worker 0 (Idle ()) (add_up 1 ?s1)"
  have "sample_step sample_claimed (Sends 0) ?s1" by (intro send) simp_all
  then have e1: "sample_executes [TimerFires 0, Claims 0, Sends 0] ?s1"
    using executes_step [OF sample_claimed_reached] by simp
  have "sd_workers ?s1 = [Dialing 1000000000]" by (simp add: sample_sched_defs)
  then have "sample_step ?s1 (DialOpens 0) ?s2" by (intro dial_opens) simp_all
  then have e2: "sample_executes [TimerFires 0, Claims 0, Sends 0, DialOpens 0] ?s2"
    using executes_step [OF e1] by simp
  have "sd_workers ?s2 = [Idle ()]" "sd_queue ?s2 = [0]" by (simp_all add: sample_sched_defs)
  then have "sample_step ?s2 (Dequeues 0) sample_dequeued"
    unfolding sample_dequeued_def by (intro dequeue) simp_all
  then show ?thesis using executes_step [OF e2] by simp
qed

lemma step_skipped:
  assumes "step opens runs tm cl s a s'" and "holders_ok s"
  shows "sd_skipped s' = sd_skipped s + of_bool (\<exists>i < length (sd_targets s). a = Claims i \<and> t_pending (sd_targets s ! i))"
  using assms
proof (induction rule: step.induct)
  case (claim i s)
  then have "i < length (sd_targets s)" by (simp add: holders_ok_def shape_ok_def)
  then show ?case by (auto simp: enqueue_claim_def set_timer_def set_pending_def count_skip_def)
next
  case (send i s)
  have "length (sd_queue s) < sd_cap s" using claimed_not_queued(2) send by blast
  then show ?case by (simp add: enqueue_send_def set_timer_def)
qed (auto simp: set_timer_def set_worker_def set_pending_def count_error_def add_up_def cancel_def
       record_outcome_def Let_def split: option.split)

text \<open>The sample target is pinged and its command times out.\<close>

definition sample_running :: "unit sched" where
  "sample_running = set_worker 0 (Running () 0) sample_dequeued"

definition sample_answered :: "unit sched" where
  "sample_answered = set_worker 0 (Returning () 0 True) (count_error ReasonTimeout sample_running)"

lemma sample_starts: "sample_step sample_dequeued (Starts 0) sample_running"
  unfolding sample_running_def by (intro job_starts) simp_all

lemma sample_answers:
  assumes "sd_workers s = [Running () 0]"
  shows "sample_step s (Answers 0 0 (Inl ())) (set_worker 0 (Returning () 0 True) (count_error ReasonTimeout s))"
proof -
  have "sample_step s (Answers 0 0 (Inl ()))
     (set_worker 0 (Returning () 0 (jo_reuse (run_job (\<lambda>_. True) (\<lambda>_. False) (Inl ()))))
       (record_outcome 0 (run_job (\<lambda>_. True) (\<lambda>_. False) (Inl ())) s))"
    using assms by (intro job_answers) simp_all
  then show ?thesis by (simp add: run_job_def record_outcome_def)
qed

lemma sample_answered_reached:
  "sample_executes [TimerFires 0, Claims 0, Sends 0, DialOpens 0, Dequeues 0, Starts 0, Answers 0 0 (Inl ())] sample_answered"
proof -
  have "sd_workers sample_running = [Running () 0]" by (simp add: sample_running_def set_worker_def)
  then have "sample_step sample_running (Answers 0 0 (Inl ())) sample_answered"
    unfolding sample_answered_def by (rule sample_answers)
  then show ?thesis
    using executes_step [OF executes_step [OF sample_dequeued_reached sample_starts]] by simp
qed

text \<open>On any shell the dialer yields, a ping can start.\<close>

lemma pinging_reached:
  fixes r :: 'r
  assumes "opens r"
  obtains s as where "executes opens runs tm cl ''r1'' 1 [sample_ping_target] as s" and "sd_workers s = [Running r 0]"
proof -
  let ?ex = "executes opens runs tm cl ''r1'' 1 [sample_ping_target]"
  let ?s0 = "start (new_scheduler ''r1'' 1 [sample_ping_target]) :: 'r sched"
  let ?s1 = "set_timer 0 Firing ?s0"
  let ?s2 = "enqueue_claim 0 ?s1"
  let ?s3 = "enqueue_send 0 ?s2"
  let ?s4 = "set_worker 0 (Idle r) (add_up 1 ?s3)"
  let ?s5 = "set_worker 0 (Dequeued r 0) (?s4\<lparr>sd_queue := []\<rparr>)"
  have f0: "sd_timers ?s0 = [Waiting 0]" by (simp add: sample_sched_defs splay_offset_def quot64_def)
  have f: "sd_timers ?s1 = [Firing]" "sd_timers ?s2 = [Claimed]" "sd_workers ?s3 = [Dialing 1000000000]"
    "sd_workers ?s4 = [Idle r]" "sd_queue ?s4 = [0]" "sd_workers ?s5 = [Dequeued r 0]" "sd_ctx ?s5 \<noteq> Cancelled"
    by (simp_all add: sample_sched_defs)
  have "?ex [] ?s0" by (simp add: executes_def steps_Nil)
  from executes_step [OF this first_timer [of 0 ?s0 0]] f0 have "?ex [TimerFires 0] ?s1" by simp
  from executes_step [OF this claim [of 0 ?s1]] f have "?ex [TimerFires 0, Claims 0] ?s2" by simp
  from executes_step [OF this send [of 0 ?s2]] f have "?ex [TimerFires 0, Claims 0, Sends 0] ?s3" by simp
  from executes_step [OF this dial_opens [where opens = opens and r = r and w = 0 and s = ?s3 and b = 1000000000]] f assms
  have "?ex [TimerFires 0, Claims 0, Sends 0, DialOpens 0] ?s4" by simp
  from executes_step [OF this dequeue [of 0 ?s4 r 0 "[]"]] f
  have "?ex [TimerFires 0, Claims 0, Sends 0, DialOpens 0, Dequeues 0] ?s5" by simp
  from executes_step [OF this job_starts [of 0 ?s5 r 0]] f
  have "?ex [TimerFires 0, Claims 0, Sends 0, DialOpens 0, Dequeues 0, Starts 0] (set_worker 0 (Running r 0) ?s5)" by simp
  moreover have "sd_workers (set_worker 0 (Running r 0) ?s5) = [Running r 0]" using f(6) by (simp add: set_worker_def)
  ultimately show ?thesis by (rule that)
qed

section \<open>Properties\<close>

text \<open>
  C2: One ping at a time.  In every execution a target is in the hands of at most one worker, and
  while a worker has it, it is marked pending, is not in the queue and its timer is not about to
  queue it.
\<close>

theorem one_ping_at_a_time:
  assumes "fresh ts" and "executes opens runs tm cl router n ts as s"
    and "v < length (sd_workers s)" and "w < length (sd_workers s)"
    and "worker_target (sd_workers s ! v) = Some i" and "worker_target (sd_workers s ! w) = Some i"
  shows "v = w \<and> t_pending (sd_targets s ! i) \<and> i \<notin> set (sd_queue s) \<and> sd_timers s ! i \<noteq> Claimed"
proof -
  have "holders_ok s" using executes_invariants(1) [OF assms(2,1)] .
  then show ?thesis using holders_exclusive assms by blast
qed

lemma one_ping_at_a_time_witness:
  "t_pending (sd_targets sample_dequeued ! 0) \<and> 0 \<notin> set (sd_queue sample_dequeued) \<and>
   sd_timers sample_dequeued ! 0 \<noteq> Claimed"
  using one_ping_at_a_time [OF sample_fresh sample_dequeued_reached, of 0 0 0] by simp

text \<open>
  C11: The queue never overflows.  A goroutine that has won the compare-and-swap always finds room
  in the queue: the send appends the target, which was not there, and the branch of \<open>enqueue\<close> that
  gives the target up and counts a skip is never taken.
\<close>

theorem queue_never_full:
  assumes "fresh ts" and "executes opens runs tm cl router n ts as s"
    and "i < length ts" and "sd_timers s ! i = Claimed"
  shows "i \<notin> set (sd_queue s) \<and> sd_queue (enqueue_send i s) = sd_queue s @ [i] \<and>
    sd_skipped (enqueue_send i s) = sd_skipped s \<and> sd_targets (enqueue_send i s) = sd_targets s \<and>
    length (sd_queue (enqueue_send i s)) \<le> max (length ts) 1"
proof -
  have h: "holders_ok s" using executes_invariants(1) [OF assms(2,1)] .
  have i: "i < length (sd_timers s)" using executes_invariants(6) [OF assms(2)] assms(3) by simp
  have "sd_cap s = max (length ts) 1"
    using h executes_invariants(7) [OF assms(2)] by (simp add: holders_ok_def shape_ok_def)
  then show ?thesis
    using claimed_not_queued [OF h i assms(4)] by (simp add: enqueue_send_def set_timer_def)
qed

lemma queue_never_full_witness: "sd_queue (enqueue_send 0 sample_claimed) = [0]"
  using queue_never_full [OF sample_fresh sample_claimed_reached, of 0] by simp

text \<open>
  A ping is skipped only because the previous one of the same target is still under way.  In
  every execution the counter of skipped pings moves only in the compare-and-swap of a target that
  is pending, and then by one.
\<close>

theorem skipped_only_if_pending:
  assumes "fresh ts" and "executes opens runs tm cl router n ts as s" and "step opens runs tm cl s a s'"
  shows "sd_skipped s' = sd_skipped s + of_bool (\<exists>i < length ts. a = Claims i \<and> t_pending (sd_targets s ! i))"
  using step_skipped [OF assms(3) executes_invariants(1) [OF assms(2,1)]] executes_invariants(7) [OF assms(2)]
  by simp

lemma skipped_only_if_pending_witness:
  "sd_skipped (enqueue_send 0 sample_claimed) = sd_skipped sample_claimed"
  using skipped_only_if_pending [OF sample_fresh sample_claimed_reached, of "Sends 0" "enqueue_send 0 sample_claimed"]
  by (simp add: send)

text \<open>
  C23: The gauge of connected sessions is exact.  In every execution, dials, lost shells and exits
  included, it is the number of workers that hold a shell, which is never more than the configured
  sessions.
\<close>

theorem sessions_gauge_exact:
  assumes "executes opens runs tm cl router n ts as s"
  shows "sd_up s = int (length (filter connected (sd_workers s))) \<and> 0 \<le> sd_up s \<and> sd_up s \<le> max 0 (sint n)"
proof -
  have "sd_up s = int (length (filter connected (sd_workers s)))"
    using executes_invariants(3) [OF assms] by (simp add: up_ok_def)
  moreover have "length (filter connected (sd_workers s)) \<le> nat (sint n)"
    using executes_invariants(5) [OF assms] length_filter_le by metis
  ultimately show ?thesis by simp
qed

lemma sessions_gauge_exact_witness: "sd_up sample_dequeued = 1"
  using sessions_gauge_exact [OF sample_dequeued_reached] by simp

text \<open>
  C21: Every answer is accounted for once.  After any execution the error counter of each reason is
  the number of dials and answers that failed for that reason, the calls of the recorder are the
  results of the other answers in their order, and the sent counter of a target is the sum of the
  requests its results report, modulo \<open>2 ^ 64\<close>.
\<close>

theorem results_accounted:
  assumes "fresh ts" and "executes opens runs tm cl router n ts as s"
  shows "sd_errors s e = length (filter (\<lambda>a. action_error tm cl a = Some e) as) \<and>
    sd_records s = List.map_filter (action_record tm cl) as \<and>
    (\<forall>i < length ts. t_sent (sd_targets s ! i) = recorded_sent i (List.map_filter (action_record tm cl) as))"
  using steps_accounts [OF assms(2) [unfolded executes_def]] executes_invariants(2) [OF assms(2,1)]
    executes_invariants(7) [OF assms(2)]
  by (simp add: sent_ok_def)

lemma results_accounted_witness: "sd_errors sample_answered ReasonTimeout = 1 \<and> sd_errors sample_answered ReasonParse = 0"
  using results_accounted [OF sample_fresh sample_answered_reached, of ReasonTimeout]
    results_accounted [OF sample_fresh sample_answered_reached, of ReasonParse]
  by (simp add: run_job_def)

text \<open>
  C22: No ping starts after \<open>Stop\<close>.  Once the context is cancelled no worker starts a job, targets
  still in the queue included, and the router is asked for no more answers than there were pings
  running at that moment.
\<close>

theorem no_ping_after_stop:
  assumes "steps opens runs tm cl s as s'" and "sd_ctx s = Cancelled"
  shows "Starts w \<notin> set as \<and> length (filter is_answer as) \<le> length (filter is_running (sd_workers s))"
  using steps_cancelled [OF assms] by (simp add: running_def)

lemma no_ping_after_stop_witness:
  "length (filter is_answer [Answers 0 0 (Inl ()) :: unit action]) \<le> length (filter is_running (sd_workers sample_cancelled))"
proof -
  have "sd_workers sample_cancelled = [Running () 0]" by simp
  from no_ping_after_stop [OF steps_one [OF sample_answers [OF this]]] show ?thesis by simp
qed

text \<open>
  C24: The pause after a failed dial is 1, 2, 4, ... seconds and at most 30: the doubling never
  wraps, and in every execution each worker that dials or pauses has a pause within these bounds.
\<close>

theorem dial_pause_bounds:
  assumes "executes opens runs tm cl router n ts as s" and "w < length (sd_workers s)"
    and "sd_workers s ! w = Dialing b \<or> sd_workers s ! w = BackingOff b"
  shows "second \<le> sint b \<and> sint b \<le> 30 * second \<and> second \<le> sint (next_backoff b (sd_max_backoff s)) \<and>
    sint (next_backoff b (sd_max_backoff s)) = min (2 * sint b) (30 * second)"
proof -
  have ok: "backoffs_ok s" by (rule executes_invariants(4) [OF assms(1)])
  then have b: "second \<le> sint b \<and> sint b \<le> 30 * second" using assms(2,3) by (auto simp: backoffs_ok_def) (metis nth_mem)+
  then show ?thesis using ok next_backoff_value [of b "30 * 1000000000"] by (simp add: backoffs_ok_def)
qed

lemma dial_pause_bounds_witness: "second \<le> sint (next_backoff (1000000000 :: duration) (sd_max_backoff sample_claimed))"
  using dial_pause_bounds [OF sample_claimed_reached, of 0 1000000000] by simp

text \<open>
  The first pings of a router's targets are spread evenly.  Target \<open>i\<close> of \<open>n\<close> waits
  \<open>i * interval div n\<close> nanoseconds, computed without overflow while \<open>n * interval\<close> fits 64 bits, so
  less than its interval.
\<close>

theorem first_pings_spread:
  assumes "i < n" and "0 < sint interval" and "int n * sint interval \<le> i64_max"
  shows "sint (splay_offset interval i n) = int i * sint interval div int n \<and>
    0 \<le> sint (splay_offset interval i n) \<and> sint (splay_offset interval i n) < sint interval"
  using splay_offset_value [OF assms] splay_offset_less [OF assms(1,2)] by simp

lemma first_pings_spread_witness: "sint (splay_offset 60000000000 2 3) = 40000000000"
  using first_pings_spread [of 2 3 60000000000] by simp

text \<open>
  C12: The scheduler implements the life of a target.  Every step of every execution leaves all
  targets where they are or moves exactly one of them along an edge of \<open>phase_step\<close>: from free to
  waiting, from waiting to pinged or back to free, from pinged to free.
\<close>

theorem target_life_refined:
  assumes "fresh ts" and "executes opens runs tm cl router n ts as s" and "step opens runs tm cl s a s'"
  shows "phase s' = phase s \<or> (\<exists>i p. phase_step (phase s i) p \<and> phase s' = (phase s)(i := p))"
  using step_phase [OF assms(3) executes_invariants(1) [OF assms(2,1)]] .

lemma target_life_refined_witness: "phase sample_dequeued 0 = Waits \<and> phase sample_running 0 = Pinged"
  using target_life_refined [OF sample_fresh sample_dequeued_reached sample_starts]
  by (simp add: phase_def sample_running_def set_worker_def)

text \<open>
  C30: A scheduler stays well-formed.  In every execution it has the workers, timers and targets it was
  started with, its queue and workers refer only to targets it has, the jobs of the targets are those it
  was given, and the series it has touched are exactly the five that \<open>Start\<close> makes, the gauge, the skips and
  one error counter per reason, each addressed with one value per label of its vector: no call on
  the metrics of the package can panic, and no error appears in a series that was not there at zero.
\<close>

theorem scheduler_well_formed:
  assumes "executes opens runs tm cl router n ts as s"
  shows "shape_ok s \<and> length (sd_workers s) = nat (sint n) \<and> map t_job (sd_targets s) = map t_job ts \<and>
    set (sd_series s) = {(SessionsUp, [router]), (RemoteErrors, [router, ''connect'']), (RemoteErrors, [router, ''timeout'']),
      (RemoteErrors, [router, ''parse'']), (JobsSkipped, [router])} \<and>
    list_all (\<lambda>(v, vals). length vals = length (remote_vec_labels v)) (sd_series s)"
proof -
  note st = assms [unfolded executes_def]
  have "shape_ok s" by (rule steps_invariant [OF st]) (use started_shape step_shape in blast)+
  moreover have "series_ok s" by (rule steps_invariant [OF st]) (use started_series step_series in blast)+
  moreover have "sd_router s = router"
    by (rule steps_invariant [OF st, where P = "\<lambda>s. sd_router s = router"])
      (simp add: start_def new_scheduler_def, metis step_router)
  ultimately show ?thesis
    using executes_invariants(5,8) [OF assms] by (auto simp: series_ok_def initial_series_sets list_all_iff)
qed

lemma scheduler_well_formed_witness:
  "sample_executes [TimerFires 0, Claims 0, Sends 0, DialOpens 0, Dequeues 0] sample_dequeued \<and>
   (SessionsUp, [''r1'']) \<in> set (sd_series sample_dequeued) \<and> length (sd_workers sample_dequeued) = 1"
  using sample_dequeued_reached scheduler_well_formed [OF sample_dequeued_reached] by auto

end
