(* ===== verification/Prober_Spec.thy ===== *)
theory Prober_Spec
  imports Prober Collector_Spec Targets_Spec Scheduler_Spec
begin

text \<open>
  What main.go promises: the label names of a configuration, what a preparation makes of its
  groups, the order of stops, resets and starts, and the consistency of a running prober: what is
  registered is what the pingers, the recorders and the collector write to.
\<close>

section \<open>Label names\<close>

lemma base_names_eq: "base_label_names = base_names"
  by (simp add: base_label_names_def base_names_def)

lemma set_build_label_names:
  "set (build_label_names c) = set base_label_names \<union> (\<Union>tg \<in> set (cf_targets c). fst ` set (tg_labels tg))"
  by (auto simp: build_label_names_def)

lemma distinct_build_label_names: "distinct (build_label_names c)"
  by (auto simp: build_label_names_def) (auto simp: base_label_names_def)

lemma extras_sorted: "sorted (drop 5 (build_label_names c))"
  by (simp add: build_label_names_def base_label_names_def)

text \<open>A configuration's label names are determined by which ones there are.\<close>

lemma label_names_eq:
  assumes "set (build_label_names c) = set (build_label_names d)"
  shows "build_label_names c = build_label_names d"
proof -
  let ?x = "\<lambda>c. sort (remdups (filter (\<lambda>k. k \<notin> set base_label_names)
       (concat (map (\<lambda>tg. map fst (tg_labels tg)) (cf_targets c)))))"
  have b: "build_label_names c = base_label_names @ ?x c" for c by (simp add: build_label_names_def)
  have x: "set (?x c) = set (build_label_names c) - set base_label_names" for c unfolding b by auto
  have "?x c = ?x d"
    by (rule sorted_distinct_set_unique) (simp_all only: x assms sorted_sort distinct_sort distinct_remdups)
  then show ?thesis unfolding b by simp
qed

lemma label_names_iff:
  "set (build_label_names c) = set (build_label_names d) \<longleftrightarrow> build_label_names c = build_label_names d"
  using label_names_eq by metis

lemma nth_label_value:
  "distinct names \<Longrightarrow> i < length names \<Longrightarrow> map_of (zip names (map f names)) (names ! i) = Some (f (names ! i))"
  by (simp add: map_of_zip_nth)

section \<open>Preparing\<close>

lemma prepare_hosts_length:
  "for_each (prepare_host e fl) ps hs = Inr ps' \<Longrightarrow> length ps' = length ps + length hs"
  by (induction hs arbitrary: ps) (auto simp: prepare_host_def split: sum.splits)

lemma prepare_group_hosts_length:
  "for_each (prepare_group_host e tg d) ps hs = Inr ps' \<Longrightarrow> length ps' = length ps + length hs"
  by (induction hs arbitrary: ps) (auto simp: prepare_group_host_def split: sum.splits)

text \<open>The targets a group adds to its router.\<close>

definition group_targets :: "('p, 'd, 'o, 'y, 'file, 't) env \<Rightarrow> config \<Rightarrow> target_group \<Rightarrow> target list" where
  "group_targets e c tg =
     (case build_targets tg (fst (find_router c (tg_router tg))) (resolve (en_lookup e)) of
        Inl _ \<Rightarrow> [] | Inr ts \<Rightarrow> ts)"

lemma prepare_group_Inr:
  assumes "prepare_group e c pp tg = Inr pp'"
  shows "valid_packet_size (tg_size tg)"
    and "length (pp_probes pp') = length (pp_probes pp) + length (tg_hosts tg)"
    and "tg_router tg = [] \<Longrightarrow> pp_remote pp' = pp_remote pp"
    and "tg_router tg \<noteq> [] \<Longrightarrow> build_targets tg (fst (find_router c (tg_router tg))) (resolve (en_lookup e)) = Inr (group_targets e c tg)
       \<and> pp_remote pp' = (let n = rt_name (fst (find_router c (tg_router tg))) in
          (pp_remote pp)(n := pp_remote pp n @ group_targets e c tg))"
proof -
  obtain pp1 d where p1: "prepare_remote e c pp tg = Inr (pp1, d)" and v: "valid_packet_size (tg_size tg)"
    using assms by (auto simp: prepare_group_def split: if_splits sum.splits)
  let ?pp2 = "if sint (pp_max_interval pp1) < sint d then pp1\<lparr>pp_max_interval := d\<rparr> else pp1"
  obtain probes where p2: "for_each (prepare_group_host e tg d) (pp_probes ?pp2) (tg_hosts tg) = Inr probes"
    and pp': "pp' = ?pp2\<lparr>pp_probes := probes\<rparr>"
    using assms v p1 by (auto simp: prepare_group_def Let_def split: if_splits sum.splits)
  have pr: "pp_probes pp1 = pp_probes pp"
    using p1 by (auto simp: prepare_remote_def Let_def split: if_splits sum.splits)
  show "valid_packet_size (tg_size tg)" by (rule v)
  show "length (pp_probes pp') = length (pp_probes pp) + length (tg_hosts tg)"
    using prepare_group_hosts_length [OF p2] pr pp' by simp
  show "tg_router tg = [] \<Longrightarrow> pp_remote pp' = pp_remote pp"
    using p1 pp' by (simp add: prepare_remote_def)
  show "tg_router tg \<noteq> [] \<Longrightarrow> build_targets tg (fst (find_router c (tg_router tg))) (resolve (en_lookup e)) = Inr (group_targets e c tg)
       \<and> pp_remote pp' = (let n = rt_name (fst (find_router c (tg_router tg))) in
          (pp_remote pp)(n := pp_remote pp n @ group_targets e c tg))"
    using p1 pp' by (auto simp: prepare_remote_def group_targets_def Let_def split: sum.splits)
qed

lemma prepare_groups_remote:
  assumes "for_each (prepare_group e c) pp tgs = Inr pp'"
    and "\<And>tg. tg \<in> set tgs \<Longrightarrow> tg_router tg \<noteq> [] \<Longrightarrow> rt_name (fst (find_router c (tg_router tg))) = tg_router tg"
    and "n \<noteq> []"
  shows "pp_remote pp' n = pp_remote pp n @ concat (map (group_targets e c) (filter (\<lambda>tg. tg_router tg = n) tgs))"
    and "length (pp_probes pp') = length (pp_probes pp) + sum_list (map (\<lambda>tg. length (tg_hosts tg)) tgs)"
proof -
  have "pp_remote pp' n = pp_remote pp n @ concat (map (group_targets e c) (filter (\<lambda>tg. tg_router tg = n) tgs)) \<and>
    length (pp_probes pp') = length (pp_probes pp) + sum_list (map (\<lambda>tg. length (tg_hosts tg)) tgs)"
    using assms(1,2)
  proof (induction tgs arbitrary: pp)
    case (Cons tg tgs)
    then obtain pp1 where p: "prepare_group e c pp tg = Inr pp1" "for_each (prepare_group e c) pp1 tgs = Inr pp'"
      by (auto split: sum.splits)
    have IH: "pp_remote pp' n = pp_remote pp1 n @ concat (map (group_targets e c) (filter (\<lambda>tg. tg_router tg = n) tgs)) \<and>
      length (pp_probes pp') = length (pp_probes pp1) + sum_list (map (\<lambda>tg. length (tg_hosts tg)) tgs)"
      using Cons.IH [OF p(2)] Cons.prems(2) by simp
    show ?case
    proof (cases "tg_router tg = []")
      case True
      then show ?thesis using IH prepare_group_Inr(2,3) [OF p(1)] assms(3) by simp
    next
      case False
      then show ?thesis using IH prepare_group_Inr(2,4) [OF p(1)] Cons.prems(2) [of tg] by (simp add: Let_def)
    qed
  qed simp
  then show "pp_remote pp' n = pp_remote pp n @ concat (map (group_targets e c) (filter (\<lambda>tg. tg_router tg = n) tgs))"
    "length (pp_probes pp') = length (pp_probes pp) + sum_list (map (\<lambda>tg. length (tg_hosts tg)) tgs)" by blast+
qed

definition prober_of ::
  "('p, 'd, 'o, 'y, 'file, 't) env \<Rightarrow> recorder \<Rightarrow> router \<Rightarrow> target list \<Rightarrow> remote_prober \<Rightarrow> bool" where
  "prober_of e rec r ts p \<longleftrightarrow>
     rm_sched p = new_scheduler (rt_name r) (rt_sessions r) ts \<and> rm_recorder p = rec \<and>
     new_ssh_dialer (en_read_file e) r = Inr (rm_dial p)"

lemma prepare_routers_Inr:
  assumes "for_each (prepare_router e rec targets) rs routers = Inr rs'"
  shows "\<exists>new. rs' = rs @ new \<and>
     list_all2 (\<lambda>r. prober_of e rec r (targets (rt_name r)))
       (filter (\<lambda>r. targets (rt_name r) \<noteq> []) routers) new"
  using assms
proof (induction routers arbitrary: rs)
  case (Cons r routers)
  then obtain rs1 where p: "prepare_router e rec targets rs r = Inr rs1"
    "for_each (prepare_router e rec targets) rs1 routers = Inr rs'"
    by (auto split: sum.splits)
  obtain new where new: "rs' = rs1 @ new" "list_all2 (\<lambda>r. prober_of e rec r (targets (rt_name r)))
       (filter (\<lambda>r. targets (rt_name r) \<noteq> []) routers) new"
    using Cons.IH [OF p(2)] by blast
  show ?case
  proof (cases "targets (rt_name r) = []")
    case True
    with p(1) new show ?thesis by (auto simp: prepare_router_def)
  next
    case False
    with p(1) obtain ssh where ssh: "new_ssh_dialer (en_read_file e) r = Inr ssh"
      "rs1 = rs @ [\<lparr>rm_sched = new_scheduler (rt_name r) (rt_sessions r) (targets (rt_name r)), rm_dial = ssh, rm_recorder = rec\<rparr>]"
      by (auto simp: prepare_router_def split: sum.splits)
    moreover from ssh(1) have "prober_of e rec r (targets (rt_name r))
        \<lparr>rm_sched = new_scheduler (rt_name r) (rt_sessions r) (targets (rt_name r)), rm_dial = ssh, rm_recorder = rec\<rparr>"
      by (simp add: prober_of_def)
    ultimately obtain q where "rs1 = rs @ [q]" "prober_of e rec r (targets (rt_name r)) q" by blast
    with False new show ?thesis by (intro exI [of _ "q # new"]) simp
  qed
qed simp

text \<open>
  A preparation, described: one probe per host, and per router with targets one scheduler with the
  targets of its groups.
\<close>

definition router_targets :: "('p, 'd, 'o, 'y, 'file, 't) env \<Rightarrow> config \<Rightarrow> router \<Rightarrow> target list" where
  "router_targets e c r =
     concat (map (group_targets e c) (filter (\<lambda>tg. tg_router tg = rt_name r) (cf_targets c)))"

lemma prepare_Inr:
  assumes "prepare e fl c rec s = Inr s'" and "config_ok c"
  shows "length (slice (sp_prepared s')) = length (fl_hosts fl) + sum_list (map (\<lambda>tg. length (tg_hosts tg)) (cf_targets c))"
    and "list_all2 (\<lambda>r. prober_of e rec r (router_targets e c r))
       (filter (\<lambda>r. router_targets e c r \<noteq> []) (cf_routers c)) (sp_prepared_remote s')"
    and "sp_started s' = sp_started s" and "sp_started_remote s' = sp_started_remote s" and "sp_running s' = sp_running s"
proof -
  obtain ps pp rs where p: "for_each (prepare_host e fl) [] (fl_hosts fl) = Inr ps"
    "for_each (prepare_group e c) \<lparr>pp_probes = ps, pp_max_interval = fl_interval fl, pp_remote = (\<lambda>_. [])\<rparr> (cf_targets c) = Inr pp"
    "for_each (prepare_router e rec (pp_remote pp)) [] (cf_routers c) = Inr rs"
    "s' = s\<lparr>sp_prepared := Some (pp_probes pp), sp_prepared_remote := rs, sp_max_interval := pp_max_interval pp\<rparr>"
    using assms(1) by (auto simp: prepare_def split: sum.splits)
  have names: "rt_name (fst (find_router c (tg_router tg))) = tg_router tg"
    if "tg \<in> set (cf_targets c)" "tg_router tg \<noteq> []" for tg
    using find_router_ok [OF assms(2) that] by (metis fst_conv)
  have "pp_remote pp (rt_name r) = router_targets e c r" if "r \<in> set (cf_routers c)" for r
  proof -
    have "rt_name r \<noteq> []" using assms(2) that by (auto simp: config_ok_def router_ok_def list_all_iff)
    then show ?thesis using prepare_groups_remote(1) [OF p(2) names] by (simp add: router_targets_def)
  qed
  then have "filter (\<lambda>r. pp_remote pp (rt_name r) \<noteq> []) (cf_routers c) = filter (\<lambda>r. router_targets e c r \<noteq> []) (cf_routers c)"
    and eq: "\<And>r. r \<in> set (cf_routers c) \<Longrightarrow> pp_remote pp (rt_name r) = router_targets e c r"
    by (auto cong: filter_cong)
  then have "list_all2 (\<lambda>r. prober_of e rec r (pp_remote pp (rt_name r))) (filter (\<lambda>r. router_targets e c r \<noteq> []) (cf_routers c)) rs"
    using prepare_routers_Inr [OF p(3)] by auto
  then have "list_all2 (\<lambda>r. prober_of e rec r (router_targets e c r)) (filter (\<lambda>r. router_targets e c r \<noteq> []) (cf_routers c)) rs"
    by (rule list.rel_mono_strong) (use eq in auto)
  then show "list_all2 (\<lambda>r. prober_of e rec r (router_targets e c r))
       (filter (\<lambda>r. router_targets e c r \<noteq> []) (cf_routers c)) (sp_prepared_remote s')"
    by (simp add: p(4))
  show "length (slice (sp_prepared s')) = length (fl_hosts fl) + sum_list (map (\<lambda>tg. length (tg_hosts tg)) (cf_targets c))"
    using prepare_groups_remote(2) [OF p(2) names, of "''x''"] prepare_hosts_length [OF p(1)] p(4) by (simp add: slice_def)
  show "sp_started s' = sp_started s" "sp_started_remote s' = sp_started_remote s" "sp_running s' = sp_running s"
    by (simp_all add: p(4))
qed

section \<open>Consistency\<close>

text \<open>
  The library's side: vectors of every family are registered at most once, the histogram and the
  collector of the prober among them.
\<close>

definition registry_ok :: "('f, 't) prober \<Rightarrow> bool" where
  "registry_ok pb \<longleftrightarrow>
     metrics_ok (pb_metrics pb) \<and> fst (pb_hist pb) = ResponseDuration \<and> fst (cl_id (pb_collector pb)) = Requests \<and>
     {v \<in> registered (pb_metrics pb). fst v = ResponseDuration} = {pb_hist pb} \<and>
     {v \<in> registered (pb_metrics pb). fst v = Requests} = {cl_id (pb_collector pb)}"

text \<open>
  The program's side: the running pingers and schedulers write to the vectors that are current and
  registered, under the label names of the loaded configuration.
\<close>

definition writers_ok :: "('f, 't) prober \<Rightarrow> bool" where
  "writers_ok pb \<longleftrightarrow>
     (let names = build_label_names (sc_config (pb_config pb)); m = pb_metrics pb; c = pb_collector pb in
      current_ok (length names) m \<and> arity m (pb_hist pb) = Some (length names) \<and>
      cl_names c = names \<and> cl_hist c = pb_hist pb \<and>
      cl_probes c = slice (sp_started (pb_pingers pb)) \<and> cl_remote c = remote_targets (pb_pingers pb) \<and>
      (\<forall>r \<in> set (sp_started_remote (pb_pingers pb)).
         rm_recorder r = \<lparr>rc_names = names, rc_hist = pb_hist pb, rc_ttl = mt_ttl m\<rparr>))"

text \<open>
  A prober that the metrics client accepts, whether or not a reload has failed half way: the families
  are registered under the label names of the configuration, which is valid.
\<close>

definition sound :: "('f, 't) prober \<Rightarrow> bool" where
  "sound pb \<longleftrightarrow>
     registry_ok pb \<and> config_ok (sc_config (pb_config pb)) \<and>
     labels_are (build_label_names (sc_config (pb_config pb))) (pb_metrics pb)"

definition prober_ok :: "('f, 't) prober \<Rightarrow> bool" where
  "prober_ok pb \<longleftrightarrow> sound pb \<and> writers_ok pb"

lemma fits_emit: "fits (emit cs m) \<longleftrightarrow> fits m \<and> calls_fit (arity m) (registered m) cs"
  by (simp add: calls_fit_append)

lemma registry_emit: "registered (emit cs m) = registry (registered m) cs"
  by simp

lemma emit_register:
  assumes "metrics_ok m" and "fst v \<in> {ResponseDuration, Requests}" and "snd v < mt_next m"
    and "\<And>u. u \<in> registered m \<Longrightarrow> fst u \<noteq> fst v"
  shows "metrics_ok (emit [Register v] m)" and "arity (emit [Register v] m) = arity m"
    and "registered (emit [Register v] m) = insert v (registered m)"
    and "current_ok n m \<Longrightarrow> current_ok n (emit [Register v] m)"
proof -
  show ar: "arity (emit [Register v] m) = arity m"
    and rg: "registered (emit [Register v] m) = insert v (registered m)" by simp_all
  note mo = assms(1) [unfolded metrics_ok_def, THEN conjunct1]
    assms(1) [unfolded metrics_ok_def, THEN conjunct2, THEN conjunct1]
    assms(1) [unfolded metrics_ok_def, THEN conjunct2, THEN conjunct2, THEN conjunct1]
    assms(1) [unfolded metrics_ok_def, THEN conjunct2, THEN conjunct2, THEN conjunct2, THEN conjunct1]
    assms(1) [unfolded metrics_ok_def, THEN conjunct2, THEN conjunct2, THEN conjunct2, THEN conjunct2]
  have "fst v \<notin> fst ` registered m" using assms(4) by (metis imageE)
  then have "fits (emit [Register v] m)"
    unfolding fits_emit using assms(1) by (simp add: metrics_ok_def)
  moreover have "snd u < mt_next m" if "u \<in> dom (arity m) \<union> insert v (registered m)" for u
    using that mo(2) assms(3) by (cases "u = v") simp_all
  moreover have "(fst u = ResponseTtl \<longrightarrow> mt_ttl m = Some u) \<and> (fst u = Duplicates \<longrightarrow> mt_duplicates m = Some u) \<and>
      (fst u = RecvErrors \<longrightarrow> mt_recv_errors m = Some u) \<and> (fst u = SendErrors \<longrightarrow> mt_send_errors m = Some u)"
    if "u \<in> insert v (registered m)" for u
    using that mo(3) assms(2) by (cases "u = v") auto
  ultimately show "metrics_ok (emit [Register v] m)"
    unfolding metrics_ok_def ar rg using mo(4,5) by simp
  show "current_ok n m \<Longrightarrow> current_ok n (emit [Register v] m)"
    unfolding current_ok_def ar rg by simp blast
qed

lemma setup_vectors_ok:
  assumes "metrics_ok m" and "setup_vectors names bs factor m = (hist, m')"
    and "{v \<in> registered m. fst v = ResponseDuration} = {}"
  shows "metrics_ok m'" and "current_ok (length names) m'" and "arity m' hist = Some (length names)"
    and "fst hist = ResponseDuration" and "{v \<in> registered m'. fst v = ResponseDuration} = {hist}"
    and "{v \<in> registered m'. fst v = Requests} = {v \<in> registered m. fst v = Requests}"
    and "hist \<notin> dom (arity m)"
proof -
  obtain m1 where i: "init_metrics names bs factor m = (hist, m1)" and m': "m' = emit [Register hist] m1"
    using assms(2) by (auto simp: setup_vectors_def split: prod.splits)
  note ok = init_metrics_ok [OF assms(1) i]
  have reg: "registered m' = insert hist (registered m1)" and ar: "arity m' = arity m1" by (simp_all add: m')
  have none: "v \<notin> registered m1" if "fst v = ResponseDuration" for v
  proof
    assume "v \<in> registered m1"
    with that have "v \<in> {v \<in> registered m. fst v = ResponseDuration}" using ok(7) [of v] by simp
    with assms(3) show False by blast
  qed
  have "hist \<in> dom (arity m1)" using ok(3) by (rule domI)
  then have lt: "snd hist < mt_next m1" using ok(1) by (simp add: metrics_ok_def)
  have "fst hist \<in> {ResponseDuration, Requests}" using ok(4) by simp
  note em = emit_register [OF ok(1) this lt, folded m']
  have other: "fst u \<noteq> fst hist" if "u \<in> registered m1" for u using none [of u] that ok(4) by auto
  show "metrics_ok m'" by (rule em(1)) (rule other)
  show "current_ok (length names) m'" by (rule em(4) [OF _ ok(2)]) (rule other)
  show "arity m' hist = Some (length names)" unfolding ar by (rule ok(3))
  show "fst hist = ResponseDuration" by (rule ok(4))
  show "{v \<in> registered m'. fst v = ResponseDuration} = {hist}" unfolding reg using other ok(4) by force
  show "{v \<in> registered m'. fst v = Requests} = {v \<in> registered m. fst v = Requests}"
    unfolding reg using ok(4,7) by auto
  show "hist \<notin> dom (arity m)" using ok(5) by auto
qed

lemma emit_unregister:
  assumes "metrics_ok m" and "fst v \<in> {ResponseDuration, Requests}"
  shows "metrics_ok (emit [Unregister v] m)" and "arity (emit [Unregister v] m) = arity m"
    and "registered (emit [Unregister v] m) = registered m - {v}"
    and "current_ok n m \<Longrightarrow> current_ok n (emit [Unregister v] m)"
proof -
  show "metrics_ok (emit [Unregister v] m)" using assms(1) by (auto simp: metrics_ok_def calls_fit_append)
  show "arity (emit [Unregister v] m) = arity m" "registered (emit [Unregister v] m) = registered m - {v}" by simp_all
  assume "current_ok n m"
  then show "current_ok n (emit [Unregister v] m)"
    using assms unfolding current_ok_def metrics_ok_def by (auto 4 3)
qed

lemma setup_vectors_calls:
  assumes "setup_vectors names bs factor m = (hist, m')"
  shows "mt_calls m' = mt_calls m @ setup_calls m names bs factor" and "mt_valid m' = mt_valid m"
  using assms by (auto simp: setup_vectors_def init_metrics_calls setup_calls_def)

text \<open>The new vectors are accepted exactly if they have the label names of the old ones.\<close>

lemma setup_vectors_labels:
  assumes "labels_are N m" and "distinct names" and "setup_vectors names bs factor m = (hist, m')"
  shows "label_fits m' \<longleftrightarrow> set names = set N" and "names = N \<Longrightarrow> labels_are N m'"
  by (rule setup_same_labels [OF assms(1,2) setup_vectors_calls [OF assms(3)]],
      rule setup_same_labels(2) [OF assms(1,2) setup_vectors_calls [OF assms(3)]])

text \<open>What a launch needs: new vectors, their histogram registered, and no collector once \<open>unregister\<close> ran.\<close>

definition launchable :: "string list \<Rightarrow> vec \<Rightarrow> 'f metrics \<Rightarrow> bool" where
  "launchable names hist m \<longleftrightarrow>
     metrics_ok m \<and> current_ok (length names) m \<and> arity m hist = Some (length names) \<and>
     fst hist = ResponseDuration \<and> {v \<in> registered m. fst v = ResponseDuration} = {hist} \<and>
     {v \<in> registered m. fst v = Requests} = {}"

lemma family_minus: "fst c \<noteq> f \<Longrightarrow> {v \<in> R - {c}. fst v = f} = {v \<in> R. fst v = f}"
  by blast

lemma family_minus_only: "{v \<in> R. fst v = f} = {c} \<Longrightarrow> {v \<in> R - {c}. fst v = f} = {}"
  by blast

lemma family_insert:
  "{v \<in> insert c R. fst v = f} = (if fst c = f then insert c {v \<in> R. fst v = f} else {v \<in> R. fst v = f})"
  by auto

lemma launchable_unregister:
  assumes "metrics_ok m" and "current_ok (length names) m" and "arity m hist = Some (length names)"
    and "fst hist = ResponseDuration" and "{v \<in> registered m. fst v = ResponseDuration} = {hist}"
    and "{v \<in> registered m. fst v = Requests} = {c}"
  shows "launchable names hist (emit [Unregister c] m)"
proof -
  have c: "fst c = Requests" using assms(6) by blast
  then have "fst c \<in> {ResponseDuration, Requests}" by simp
  note un = emit_unregister [OF assms(1) this]
  have "{v \<in> registered (emit [Unregister c] m). fst v = ResponseDuration} = {hist}"
    unfolding un(3) using family_minus [of c ResponseDuration "registered m"] assms(5) c by simp
  moreover have "{v \<in> registered (emit [Unregister c] m). fst v = Requests} = {}"
    unfolding un(3) using family_minus_only [OF assms(6)] .
  ultimately show ?thesis
    unfolding launchable_def un(2) using un(1) un(4) [OF assms(2)] assms(3,4) by simp
qed

lemma metrics_ok_next:
  "metrics_ok m \<Longrightarrow> metrics_ok (m\<lparr>mt_next := mt_next m + 1\<rparr>)"
proof -
  assume m: "metrics_ok m"
  have "\<forall>v \<in> dom (arity m) \<union> registered m. snd v < mt_next m + 1"
    using m unfolding metrics_ok_def by (metis less_SucI Suc_eq_plus1)
  with m show ?thesis unfolding metrics_ok_def by simp
qed

lemma emit_desc:
  "metrics_ok (emit [NewDesc v ns] m) = metrics_ok m" "arity (emit [NewDesc v ns] m) = arity m"
  "registered (emit [NewDesc v ns] m) = registered m" "current_ok n (emit [NewDesc v ns] m) = current_ok n m"
  by (simp_all add: metrics_ok_def current_ok_def calls_fit_append)

text \<open>The metrics when the collector has its description.\<close>

definition described :: "string list \<Rightarrow> 'f metrics \<Rightarrow> 'f metrics" where
  "described names m = emit [NewDesc (Requests, mt_next m) names] (m\<lparr>mt_next := mt_next m + 1\<rparr>)"

lemma described_fields [simp]:
  "arity (described names m) = arity m" "registered (described names m) = registered m"
  "mt_next (described names m) = mt_next m + 1" "mt_ttl (described names m) = mt_ttl m"
  "made (described names m) (Requests, mt_next m) = Some names" "mt_valid (described names m) = mt_valid m"
  "current_ok n (described names m) = current_ok n m" "labels_are N (described names m) = labels_are N m"
  by (simp_all add: described_def emit_desc current_ok_def)

lemma new_collector_ok:
  assumes "launchable names hist m"
  obtains c cs where "new_collector probes remote names hist m = Some (c, emit cs (described names m))"
    and "c = \<lparr>cl_id = (Requests, mt_next m), cl_names = names, cl_remote = remote, cl_probes = probes, cl_hist = hist\<rparr>"
    and "plain_calls (arity m) cs"
proof -
  let ?m = "described names m"
  have "current_ok (length names) ?m" "arity ?m hist = Some (length names)"
    using assms by (simp_all add: launchable_def)
  then obtain cs where "update_probes names probes remote hist ?m = Some (emit cs ?m)" "plain_calls (arity ?m) cs"
    by (rule update_probes_ok)
  with that show ?thesis by (simp add: new_collector_def Let_def described_def)
qed

lemma launch_metrics:
  assumes "launchable names hist m" and "plain_calls (arity m) cs"
    and "m3 = emit [Register (Requests, mt_next m)] (emit cs (described names m))"
  shows "metrics_ok m3" and "current_ok (length names) m3" and "arity m3 hist = Some (length names)"
    and "{v \<in> registered m3. fst v = ResponseDuration} = {hist}"
    and "{v \<in> registered m3. fst v = Requests} = {(Requests, mt_next m)}" and "mt_ttl m3 = mt_ttl m"
    and "labels_are names m \<Longrightarrow> labels_are names m3"
proof -
  let ?m1 = "described names m"
  have l: "metrics_ok m" "current_ok (length names) m" "arity m hist = Some (length names)"
    "{v \<in> registered m. fst v = ResponseDuration} = {hist}" "{v \<in> registered m. fst v = Requests} = {}"
    using assms(1) by (simp_all add: launchable_def)
  have "plain_calls (arity ?m1) cs" using assms(2) by simp
  moreover have "metrics_ok ?m1" using metrics_ok_next [OF l(1)] by (simp add: described_def emit_desc(1))
  ultimately have e: "metrics_ok (emit cs ?m1)" "arity (emit cs ?m1) = arity m" "registered (emit cs ?m1) = registered m"
    using emit_plain [of ?m1 cs] by simp_all
  have none: "fst u \<noteq> fst (Requests, mt_next m)" if "u \<in> registered (emit cs ?m1)" for u
    using that l(5) unfolding e(3) by (metis (mono_tags, lifting) empty_iff fst_conv mem_Collect_eq)
  have cur: "current_ok (length names) (emit cs ?m1)"
    using l(2) current_emit [of ?m1 cs] assms(2) by simp
  have "fst (Requests, mt_next m) \<in> {ResponseDuration, Requests}" "snd (Requests, mt_next m) < mt_next (emit cs ?m1)"
    by simp_all
  note r = emit_register [OF e(1) this, folded assms(3)]
  show "metrics_ok m3" by (rule r(1)) (rule none)
  show "current_ok (length names) m3" by (rule r(4) [OF _ cur]) (rule none)
  have r3: "registered m3 = insert (Requests, mt_next m) (registered m)" using r(3) none e(3) by simp
  have "arity m3 = arity m" using r(2) none e(2) by simp
  then show "arity m3 hist = Some (length names)" using l(3) by simp
  show "{v \<in> registered m3. fst v = ResponseDuration} = {hist}" unfolding r3 family_insert l(4) by simp
  show "{v \<in> registered m3. fst v = Requests} = {(Requests, mt_next m)}" unfolding r3 family_insert l(5) by simp
  show "mt_ttl m3 = mt_ttl m" by (simp add: assms(3))
  assume "labels_are names m"
  then have "labels_are names (emit cs ?m1)" by (simp add: labels_are_plain [OF assms(2)])
  moreover have "made (emit cs ?m1) (Requests, mt_next m) = Some names"
    using plain_calls_labels(2) [OF assms(2)] described_fields(5) [of names m] by simp
  ultimately show "labels_are names m3" unfolding assms(3) by (intro labels_are_register) simp_all
qed

lemma labels_are_log: "metrics_ok m \<Longrightarrow> labels_are N m \<Longrightarrow> log_ok m"
  by (simp add: log_ok_iff metrics_ok_def labels_are_def)

lemma start_pingers_fields:
  "size_of_prepared s \<noteq> 0 \<Longrightarrow> sp_started_remote (snd (start_pingers s)) = sp_prepared_remote s"
  "size_of_prepared s \<noteq> 0 \<Longrightarrow> sp_started (snd (start_pingers s)) = sp_prepared s"
  by (simp_all add: start_pingers_def stop_pingers_def Let_def)

lemma launch_ok:
  assumes "launchable names hist (unregister m)" and "names = build_label_names (sc_config sc)"
    and "size_of_prepared s \<noteq> 0" and "labels_are names (unregister m)" and "config_ok (sc_config sc)"
    and "\<And>r. r \<in> set (sp_prepared_remote s) \<Longrightarrow>
      rm_recorder r = \<lparr>rc_names = names, rc_hist = hist, rc_ttl = mt_ttl (unregister m)\<rparr>"
  shows "\<exists>pb. launch sc log names hist m unregister s = Some pb \<and> prober_ok pb \<and>
    pb_config pb = sc \<and> pb_hist pb = hist \<and> sp_started (pb_pingers pb) = sp_prepared s \<and>
    sp_started_remote (pb_pingers pb) = sp_prepared_remote s"
proof -
  obtain evs s' where s': "start_pingers s = (evs :: 'a event list, s')" by (cases "start_pingers s :: 'a event list \<times> _")
  have st: "sp_started_remote s' = sp_prepared_remote s" "sp_started s' = sp_prepared s"
    using start_pingers_fields [OF assms(3)] s' by (metis snd_conv)+
  let ?m = "unregister m"
  obtain c cs where c: "new_collector (slice (sp_started s')) (remote_targets s') names hist ?m =
      Some (c, emit cs (described names ?m))"
    "c = \<lparr>cl_id = (Requests, mt_next ?m), cl_names = names, cl_remote = remote_targets s',
      cl_probes = slice (sp_started s'), cl_hist = hist\<rparr>" "plain_calls (arity ?m) cs"
    by (rule new_collector_ok [OF assms(1)])
  define m3 where "m3 = emit [Register (Requests, mt_next ?m)] (emit cs (described names ?m))"
  note m3 = launch_metrics [OF assms(1) c(3) m3_def]
  let ?pb = "\<lparr>pb_config = sc, pb_metrics = m3, pb_hist = hist, pb_pingers = s', pb_collector = c,
     pb_log = log @ evs @ calls_since m m3 @ start_remote s'\<rparr>"
  have "log_ok m3" using labels_are_log [OF m3(1) m3(7) [OF assms(4)]] .
  then have "launch sc log names hist m unregister s = Some ?pb"
    using s' c(1,2) by (simp add: launch_def Let_def m3_def)
  moreover have "registry_ok ?pb"
    using m3(1,4,5) assms(1) by (simp add: registry_ok_def c(2) launchable_def)
  moreover have "writers_ok ?pb"
    using m3(2,3,6) assms(6) st by (simp add: writers_ok_def Let_def c(2) assms(2) [symmetric])
  ultimately show ?thesis
    using st m3(7) [OF assms(4)] assms(5) unfolding assms(2) by (intro exI [of _ ?pb]) (simp add: prober_ok_def sound_def)
qed

section \<open>Startup and reload\<close>

lemma list_all2_right: "list_all2 P xs ys \<Longrightarrow> y \<in> set ys \<Longrightarrow> \<exists>x \<in> set xs. P x y"
  by (induction rule: list_all2_induct) auto

lemma prepare_recorders:
  assumes "prepare e fl c rec s = Inr s'"
  shows "\<And>r. r \<in> set (sp_prepared_remote s') \<Longrightarrow> rm_recorder r = rec"
    and "sp_started s' = sp_started s" and "sp_started_remote s' = sp_started_remote s"
proof -
  obtain ps pp rs where "for_each (prepare_host e fl) [] (fl_hosts fl) = Inr ps"
    "for_each (prepare_group e c) \<lparr>pp_probes = ps, pp_max_interval = fl_interval fl, pp_remote = (\<lambda>_. [])\<rparr> (cf_targets c) = Inr pp"
    and p: "for_each (prepare_router e rec (pp_remote pp)) [] (cf_routers c) = Inr rs"
    "s' = s\<lparr>sp_prepared := Some (pp_probes pp), sp_prepared_remote := rs, sp_max_interval := pp_max_interval pp\<rparr>"
    using assms(1) by (auto simp: prepare_def split: sum.splits)
  show "rm_recorder r = rec" if "r \<in> set (sp_prepared_remote s')" for r
  proof -
    obtain routers where all: "list_all2 (\<lambda>r. prober_of e rec r (pp_remote pp (rt_name r))) routers rs"
      using prepare_routers_Inr [OF p(1)] by auto
    have "r \<in> set rs" using that p(2) by simp
    from list_all2_right [OF all this]
    obtain q where "prober_of e rec q (pp_remote pp (rt_name q)) r" by blast
    then show ?thesis by (simp add: prober_of_def)
  qed
  show "sp_started s' = sp_started s" "sp_started_remote s' = sp_started_remote s" by (simp_all add: p(2))
qed

lemma empty_metrics_ok [simp]: "metrics_ok (empty_metrics valid)" "registered (empty_metrics valid) = {}"
  by (simp_all add: metrics_ok_def empty_metrics_def)

lemma setup_launchable:
  assumes "metrics_ok m" and "setup_vectors names bs factor m = (hist, m')"
    and "registered m = {}"
  shows "launchable names hist m'"
  using setup_vectors_ok [OF assms(1,2)] assms(3) by (simp add: launchable_def)

lemma setup_vectors_ttl:
  "setup_vectors names bs factor m = (hist, m') \<Longrightarrow> mt_ttl m' = Some (ResponseTtl, mt_next m)"
  by (auto simp: setup_vectors_def init_metrics_calls)

text \<open>
  From startup a consistent prober comes, or an error, or, only if the library does not allow a label
  name of the file that was loaded, if one was, a panic.
\<close>

lemma startup_vectors:
  assumes "setup_vectors (build_label_names c) bs factor (empty_metrics valid) = (hist, m)"
  shows "log_ok m \<longleftrightarrow> list_all valid (build_label_names c)" and "log_ok m \<Longrightarrow> labels_are (build_label_names c) m"
    and "launchable (build_label_names c) hist m"
proof -
  show la: "launchable (build_label_names c) hist m" using assms by (rule setup_launchable [rotated]) simp_all
  note calls = setup_vectors_calls [OF assms]
  have "fits m" using la by (simp add: launchable_def metrics_ok_def)
  then have log: "log_ok m \<longleftrightarrow> label_fits m" by (simp add: log_ok_iff)
  show "log_ok m \<longleftrightarrow> list_all valid (build_label_names c)"
    using distinct_build_label_names [of c]
    by (simp add: log calls) (simp add: empty_metrics_def setup_labels_fit accepts_labels_def)
  show "log_ok m \<Longrightarrow> labels_are (build_label_names c) m"
    using calls(1) by (intro setup_first_labels) (simp_all add: log empty_metrics_def)
qed

lemma startup_launches:
  assumes "startup e not_exist parse_float fl buckets factor = r"
  shows "r = None \<Longrightarrow> \<exists>c. (load_config (en_open e) (en_decode e) (fl_config_file fl) = Inr c \<or> c = empty_config) \<and>
      \<not> list_all (en_valid_label e) (build_label_names c)"
    and "r = Some (Inr pb) \<Longrightarrow> prober_ok pb"
proof -
  obtain err sc where rc: "reload_config (en_open e) (en_decode e) (en_now e)
      \<lparr>sc_config = empty_config, sc_success = None, sc_seconds = None\<rparr> (fl_config_file fl) = (err, sc)"
    by (cases "reload_config (en_open e) (en_decode e) (en_now e)
      \<lparr>sc_config = empty_config, sc_success = None, sc_seconds = None\<rparr> (fl_config_file fl)")
  have ok: "config_ok (sc_config sc)"
    using rc load_config_ok by (auto simp: reload_config_def split: sum.splits)
  have go: "\<exists>pb. launch sc (calls_since (empty_metrics valid) m) names hist m (\<lambda>m. m) s = Some pb \<and> prober_ok pb"
    if r: "names = build_label_names (sc_config sc)" "setup_vectors names bs factor (empty_metrics valid) = (hist, m)"
      "prepare e fl (sc_config sc) (new_remote_recorder names hist m) no_pingers = Inr s" "size_of_prepared s \<noteq> 0" "log_ok m"
    for names bs hist m s valid
  proof -
    note sv = startup_vectors [OF r(2) [unfolded r(1)], folded r(1)]
    have "rm_recorder r = \<lparr>rc_names = names, rc_hist = hist, rc_ttl = mt_ttl m\<rparr>"
      if "r \<in> set (sp_prepared_remote s)" for r
      using prepare_recorders(1) [OF r(3) that] by (simp add: new_remote_recorder_def)
    with launch_ok [of names hist "\<lambda>m. m" m sc s "calls_since (empty_metrics valid) m"] r(1,4) sv(2) [OF r(5)] sv(3) ok
    show ?thesis by auto
  qed
  let ?names = "build_label_names (sc_config sc)"
  show "\<exists>c. (load_config (en_open e) (en_decode e) (fl_config_file fl) = Inr c \<or> c = empty_config) \<and>
      \<not> list_all (en_valid_label e) (build_label_names c)" if "r = None"
  proof -
    have "load_config (en_open e) (en_decode e) (fl_config_file fl) = Inr (sc_config sc) \<or> sc_config sc = empty_config"
      using rc by (auto simp: reload_config_def split: sum.splits)
    moreover
    have "\<not> list_all (en_valid_label e) ?names"
    proof
      assume "list_all (en_valid_label e) ?names"
      then have l: "log_ok m" if "setup_vectors ?names bs factor (empty_metrics (en_valid_label e)) = (hist, m)" for bs hist m
        using startup_vectors(1) [OF that] by simp
      show False
        using assms rc that go
        by (auto simp: startup_def Let_def split: if_splits option.splits sum.splits prod.splits dest: l) (fastforce dest: l)+
    qed
    ultimately show ?thesis by blast
  qed
  show "prober_ok pb" if "r = Some (Inr pb)"
    using assms rc go that
    by (auto simp: startup_def Let_def split: if_splits option.splits sum.splits prod.splits) (fastforce)+
qed

lemma metrics_ok_registered: "metrics_ok m \<Longrightarrow> v \<in> registered m \<Longrightarrow> snd v < mt_next m"
  by (simp add: metrics_ok_def)

text \<open>What the first half of a reload does to the library, whether or not the second half happens.\<close>

lemma reload_vectors:
  assumes "registry_ok pb" and "setup_vectors names bs factor (emit [Unregister (pb_hist pb)] (pb_metrics pb)) = (hist, m)"
  shows "metrics_ok m" and "fst hist = ResponseDuration" and "pb_hist pb \<notin> registered m"
    and "{v \<in> registered m. fst v = ResponseDuration} = {hist}"
    and "{v \<in> registered m. fst v = Requests} = {cl_id (pb_collector pb)}"
    and "current_ok (length names) m" and "arity m hist = Some (length names)"
    and "launchable names hist (emit [Unregister (cl_id (pb_collector pb))] m)"
proof -
  let ?m0 = "pb_metrics pb" and ?h = "pb_hist pb" and ?c = "cl_id (pb_collector pb)"
  have r: "metrics_ok ?m0" "fst ?h = ResponseDuration" "fst ?c = Requests"
    "{v \<in> registered ?m0. fst v = ResponseDuration} = {?h}" "{v \<in> registered ?m0. fst v = Requests} = {?c}"
    using assms(1) by (simp_all add: registry_ok_def)
  have "fst ?h \<in> {ResponseDuration, Requests}" using r(2) by simp
  note un = emit_unregister [OF r(1) this]
  have none: "{v \<in> registered (emit [Unregister ?h] ?m0). fst v = ResponseDuration} = {}"
    unfolding un(3) by (rule family_minus_only [OF r(4)])
  have coll: "{v \<in> registered (emit [Unregister ?h] ?m0). fst v = Requests} = {?c}"
    unfolding un(3) using family_minus [of ?h Requests "registered ?m0"] r(2,5) by simp
  note su = setup_vectors_ok [OF un(1) assms(2) none]
  show "metrics_ok m" "fst hist = ResponseDuration" "current_ok (length names) m" "arity m hist = Some (length names)"
    by (rule su)+
  show h: "{v \<in> registered m. fst v = ResponseDuration} = {hist}" by (rule su(5))
  show c: "{v \<in> registered m. fst v = Requests} = {?c}" using su(6) coll by simp
  have "hist \<noteq> ?h"
  proof
    assume "hist = ?h"
    moreover have "?h \<in> registered ?m0" using r(4) by blast
    ultimately have "snd hist < mt_next ?m0" using metrics_ok_registered [OF r(1)] by simp
    moreover have "snd hist = mt_next ?m0 + 4"
      using assms(2) by (auto simp: setup_vectors_def init_metrics_calls)
    ultimately show False by simp
  qed
  then have "?h \<notin> {v \<in> registered m. fst v = ResponseDuration}" unfolding h by simp
  then show "?h \<notin> registered m" using r(2) by simp
  show "launchable names hist (emit [Unregister ?c] m)"
    by (rule launchable_unregister [OF su(1-5) c])
qed

text \<open>The state of a reload that loaded a configuration, before it prepares anything.\<close>

definition revectored :: "'t safe_config \<Rightarrow> vec \<Rightarrow> 'f metrics \<Rightarrow> ('f, 't) prober \<Rightarrow> ('f, 't) prober" where
  "revectored sc hist m pb =
     pb\<lparr>pb_config := sc, pb_metrics := m, pb_hist := hist, pb_log := pb_log pb @ calls_since (pb_metrics pb) m\<rparr>"

lemma reload_config_failed:
  assumes "reload_config (en_open e) (en_decode e) (en_now e) (pb_config pb) (fl_config_file fl) = (Some x, sc)"
  shows "reload e fl bs factor pb = Some (Some (ConfigFailed x), pb\<lparr>pb_config := sc\<rparr>)"
  using assms by (simp add: reload_def)

lemma reload_loaded:
  assumes "reload_config (en_open e) (en_decode e) (en_now e) (pb_config pb) (fl_config_file fl) = (None, sc)"
    and "names = build_label_names (sc_config sc)"
    and "setup_vectors names bs factor (emit [Unregister (pb_hist pb)] (pb_metrics pb)) = (hist, m)"
    and "prepare e fl (sc_config sc) (new_remote_recorder names hist m) (pb_pingers pb) = p"
  shows "reload e fl bs factor pb =
    (if \<not> log_ok m then None
     else case p of
       Inl x \<Rightarrow> Some (Some (PrepareFailed x), revectored sc hist m pb)
     | Inr s \<Rightarrow>
         if size_of_prepared s = 0 then Some (Some NoTargets, (revectored sc hist m pb)\<lparr>pb_pingers := s\<rparr>)
         else map_option (Pair None) (launch sc (pb_log pb @ calls_since (pb_metrics pb) m) names hist m
             (\<lambda>m. emit [Unregister (cl_id (pb_collector pb))] m) s))"
  using assms by (simp add: reload_def Let_def revectored_def split: sum.split option.split)

text \<open>The new vectors of a reload are accepted exactly if the label names stay the same.\<close>

lemma reload_vectors_labels:
  assumes "sound pb" and "setup_vectors (build_label_names c) bs factor (emit [Unregister (pb_hist pb)] (pb_metrics pb)) = (hist, m)"
  shows "log_ok m \<longleftrightarrow> build_label_names c = build_label_names (sc_config (pb_config pb))"
    and "log_ok m \<Longrightarrow> labels_are (build_label_names c) m"
proof -
  let ?N = "build_label_names (sc_config (pb_config pb))"
  have l: "labels_are ?N (emit [Unregister (pb_hist pb)] (pb_metrics pb))" and r: "registry_ok pb"
    using assms(1) by (simp_all add: sound_def)
  note sv = setup_vectors_labels [OF l distinct_build_label_names assms(2)]
  have "fits m" using reload_vectors(1) [OF r assms(2)] by (simp add: metrics_ok_def)
  then show iff: "log_ok m \<longleftrightarrow> build_label_names c = ?N"
    using sv(1) label_names_eq by (auto simp: log_ok_iff)
  show "log_ok m \<Longrightarrow> labels_are (build_label_names c) m" using sv(2) iff by simp
qed

lemma reload_cases:
  assumes "sound pb" and "reload e fl bs factor pb = Some (r, pb')"
  shows "sound pb'" and "r = None \<Longrightarrow> prober_ok pb'"
    and "r = Some (ConfigFailed x) \<Longrightarrow> pb' = pb\<lparr>pb_config := (pb_config pb)\<lparr>sc_success := Some 0\<rparr>\<rparr>"
    and "build_label_names (sc_config (pb_config pb')) = build_label_names (sc_config (pb_config pb))"
proof -
  obtain err sc where rc: "reload_config (en_open e) (en_decode e) (en_now e) (pb_config pb) (fl_config_file fl) = (err, sc)"
    by (cases "reload_config (en_open e) (en_decode e) (en_now e) (pb_config pb) (fl_config_file fl)")
  have s: "registry_ok pb" "config_ok (sc_config (pb_config pb))"
    "labels_are (build_label_names (sc_config (pb_config pb))) (pb_metrics pb)" using assms(1) by (simp_all add: sound_def)
  have ok: "config_ok (sc_config sc)"
    using rc s(2) load_config_ok by (auto simp: reload_config_def split: sum.splits)
  have "sound pb' \<and> (r = None \<longrightarrow> prober_ok pb') \<and>
    (r = Some (ConfigFailed x) \<longrightarrow> pb' = pb\<lparr>pb_config := (pb_config pb)\<lparr>sc_success := Some 0\<rparr>\<rparr>) \<and>
    build_label_names (sc_config (pb_config pb')) = build_label_names (sc_config (pb_config pb))"
  proof (cases err)
    case (Some y)
    then have sc: "sc = (pb_config pb)\<lparr>sc_success := Some 0\<rparr>"
      using rc by (auto simp: reload_config_def split: sum.splits)
    have "r = Some (ConfigFailed y)" "pb' = pb\<lparr>pb_config := sc\<rparr>"
      using assms(2) by (simp_all add: reload_config_failed [OF rc [unfolded Some]])
    then show ?thesis using s ok sc by (simp add: sound_def registry_ok_def)
  next
    case None
    let ?names = "build_label_names (sc_config sc)"
    obtain hist m where su: "setup_vectors ?names bs factor (emit [Unregister (pb_hist pb)] (pb_metrics pb)) = (hist, m)"
      by (cases "setup_vectors ?names bs factor (emit [Unregister (pb_hist pb)] (pb_metrics pb))")
    note rv = reload_vectors [OF s(1) su] and re = reload_loaded [OF rc [unfolded None] refl su refl]
    have log: "log_ok m" using assms(2) by (auto simp: re split: if_splits)
    note lb = reload_vectors_labels [OF assms(1) su]
    have names: "?names = build_label_names (sc_config (pb_config pb))" using lb(1) log by simp
    have half: "sound (revectored sc hist m pb)" "sound ((revectored sc hist m pb)\<lparr>pb_pingers := s\<rparr>)"
      "pb_config (revectored sc hist m pb) = sc" for s
      using rv(1,2,4,5) s(1) ok lb(2) [OF log] by (simp_all add: sound_def registry_ok_def revectored_def)
    show ?thesis
    proof (cases "prepare e fl (sc_config sc) (new_remote_recorder ?names hist m) (pb_pingers pb)")
      case (Inl y)
      then have "r = Some (PrepareFailed y)" "pb' = revectored sc hist m pb" using assms(2) log by (simp_all add: re)
      then show ?thesis using half names by simp
    next
      case (Inr s)
      show ?thesis
      proof (cases "size_of_prepared s = 0")
        case True
        then have "r = Some NoTargets" "pb' = (revectored sc hist m pb)\<lparr>pb_pingers := s\<rparr>" using assms(2) Inr log by (simp_all add: re)
        then show ?thesis using half names by simp
      next
        case False
        have rec: "rm_recorder r = \<lparr>rc_names = ?names, rc_hist = hist, rc_ttl = mt_ttl (emit [Unregister (cl_id (pb_collector pb))] m)\<rparr>"
          if "r \<in> set (sp_prepared_remote s)" for r
          using prepare_recorders(1) [OF Inr that] by (simp add: new_remote_recorder_def)
        have "labels_are ?names (emit [Unregister (cl_id (pb_collector pb))] m)" using lb(2) [OF log] by simp
        from launch_ok [of ?names hist "\<lambda>m. emit [Unregister (cl_id (pb_collector pb))] m" m, OF rv(8) refl False this ok rec,
            of "pb_log pb @ calls_since (pb_metrics pb) m"]
        obtain pb1 where l: "launch sc (pb_log pb @ calls_since (pb_metrics pb) m) ?names hist m
             (\<lambda>m. emit [Unregister (cl_id (pb_collector pb))] m) s = Some pb1" "prober_ok pb1" "pb_config pb1 = sc" by blast
        then have "r = None" "pb' = pb1" using assms(2) Inr False log by (simp_all add: re)
        then show ?thesis using l names by (simp add: prober_ok_def)
      qed
    qed
  qed
  then show "sound pb'" "r = None \<Longrightarrow> prober_ok pb'"
    "r = Some (ConfigFailed x) \<Longrightarrow> pb' = pb\<lparr>pb_config := (pb_config pb)\<lparr>sc_success := Some 0\<rparr>\<rparr>"
    "build_label_names (sc_config (pb_config pb')) = build_label_names (sc_config (pb_config pb))"
    by blast+
qed

text \<open>A reload panics exactly if it loads a file with other label names.\<close>

lemma reload_panics:
  assumes "sound pb"
  shows "reload e fl bs factor pb = None \<longleftrightarrow>
    (\<exists>c. load_config (en_open e) (en_decode e) (fl_config_file fl) = Inr c \<and>
      build_label_names c \<noteq> build_label_names (sc_config (pb_config pb)))"
proof (cases "load_config (en_open e) (en_decode e) (fl_config_file fl)")
  case (Inl x)
  then have "reload_config (en_open e) (en_decode e) (en_now e) (pb_config pb) (fl_config_file fl) =
      (Some x, (pb_config pb)\<lparr>sc_success := Some 0\<rparr>)" by (simp add: reload_config_def)
  then show ?thesis using Inl by (simp add: reload_config_failed)
next
  case (Inr c)
  define sc where "sc = (pb_config pb)\<lparr>sc_config := c, sc_success := Some 1, sc_seconds := Some (en_now e)\<rparr>"
  have rc: "reload_config (en_open e) (en_decode e) (en_now e) (pb_config pb) (fl_config_file fl) = (None, sc)"
    and c: "sc_config sc = c" using Inr by (simp_all add: reload_config_def sc_def)
  let ?names = "build_label_names (sc_config sc)"
  obtain hist m where su: "setup_vectors ?names bs factor (emit [Unregister (pb_hist pb)] (pb_metrics pb)) = (hist, m)"
    by (cases "setup_vectors ?names bs factor (emit [Unregister (pb_hist pb)] (pb_metrics pb))")
  have ok: "config_ok (sc_config sc)" using Inr load_config_ok c by simp
  have r: "registry_ok pb" using assms by (simp add: sound_def)
  note rv = reload_vectors [OF r su] and re = reload_loaded [OF rc refl su refl] and lb = reload_vectors_labels [OF assms su]
  have "reload e fl bs factor pb = None \<longleftrightarrow> \<not> log_ok m"
  proof
    assume "\<not> log_ok m"
    then show "reload e fl bs factor pb = None" by (simp add: re)
  next
    assume n: "reload e fl bs factor pb = None"
    show "\<not> log_ok m"
    proof
      assume log: "log_ok m"
      then obtain s where s: "prepare e fl (sc_config sc) (new_remote_recorder ?names hist m) (pb_pingers pb) = Inr s"
        "size_of_prepared s \<noteq> 0"
        using n by (auto simp: re split: sum.splits if_splits)
      have rec: "rm_recorder r = \<lparr>rc_names = ?names, rc_hist = hist, rc_ttl = mt_ttl (emit [Unregister (cl_id (pb_collector pb))] m)\<rparr>"
        if "r \<in> set (sp_prepared_remote s)" for r
        using prepare_recorders(1) [OF s(1) that] by (simp add: new_remote_recorder_def)
      have "labels_are ?names (emit [Unregister (cl_id (pb_collector pb))] m)" using lb(2) [OF log] by simp
      from launch_ok [of ?names hist "\<lambda>m. emit [Unregister (cl_id (pb_collector pb))] m" m, OF rv(8) refl s(2) this ok rec,
          of "pb_log pb @ calls_since (pb_metrics pb) m"] n log s
      show False by (auto simp: re)
    qed
  qed
  with Inr lb(1) show ?thesis by (simp add: c)
qed

end
