(* ===== verification/Prober_Life.thy ===== *)
theory Prober_Life
  imports Prober_Spec
begin

text \<open>
  A prober while it runs: every event between two reloads keeps it consistent, and so does a
  reload that succeeds or rejects its file.  A reload that fails later, in its preparation, does
  not: what it has replaced by then stays replaced.
\<close>

section \<open>A running prober\<close>

text \<open>Calls that only address existing series keep a consistent prober consistent.\<close>

definition absorb :: "'f metrics \<Rightarrow> ('f, 't) prober \<Rightarrow> ('f, 't) prober" where
  "absorb m pb = pb\<lparr>pb_metrics := m, pb_log := pb_log pb @ calls_since (pb_metrics pb) m\<rparr>"

lemma prober_ok_metrics:
  assumes "prober_ok pb" and "metrics_ok m" and "arity m = arity (pb_metrics pb)"
    and "registered m = registered (pb_metrics pb)" and "mt_ttl m = mt_ttl (pb_metrics pb)"
    and "mt_duplicates m = mt_duplicates (pb_metrics pb)" and "mt_recv_errors m = mt_recv_errors (pb_metrics pb)"
    and "mt_send_errors m = mt_send_errors (pb_metrics pb)" and "\<And>N. labels_are N m = labels_are N (pb_metrics pb)"
  shows "prober_ok (absorb m pb)"
  using assms by (simp add: prober_ok_def sound_def registry_ok_def writers_ok_def current_ok_def absorb_def Let_def)

lemma absorb_ok:
  assumes "prober_ok pb" and "plain_calls (arity (pb_metrics pb)) cs"
  shows "prober_ok (absorb (emit cs (pb_metrics pb)) pb)"
proof -
  have "metrics_ok (pb_metrics pb)" using assms(1) by (simp add: prober_ok_def sound_def registry_ok_def)
  note e = emit_plain [OF this assms(2)]
  show ?thesis by (rule prober_ok_metrics [OF assms(1) e]) (simp_all add: labels_are_plain [OF assms(2)])
qed

text \<open>The handlers of the running pingers and the recorders of the running schedulers make such calls.\<close>

lemma handlers_plain:
  assumes "writers_ok pb"
  shows "\<exists>cs. on_recv (pb_collector pb) p pkt (pb_metrics pb) = Some (emit cs (pb_metrics pb)) \<and> plain_calls (arity (pb_metrics pb)) cs"
    and "\<exists>cs. on_duplicate_recv (pb_collector pb) p pkt (pb_metrics pb) = Some (emit cs (pb_metrics pb)) \<and> plain_calls (arity (pb_metrics pb)) cs"
    and "\<exists>cs. on_recv_error err (pb_metrics pb) = Some (emit cs (pb_metrics pb)) \<and> plain_calls (arity (pb_metrics pb)) cs"
    and "\<exists>cs. on_send_error (pb_collector pb) p pkt (pb_metrics pb) = Some (emit cs (pb_metrics pb)) \<and> plain_calls (arity (pb_metrics pb)) cs"
proof -
  have "current_ok (length (cl_names (pb_collector pb))) (pb_metrics pb)"
    "arity (pb_metrics pb) (cl_hist (pb_collector pb)) = Some (length (cl_names (pb_collector pb)))"
    using assms by (simp_all add: writers_ok_def Let_def)
  note h = handlers_plain_at [OF this]
  show "\<exists>cs. on_recv (pb_collector pb) p pkt (pb_metrics pb) = Some (emit cs (pb_metrics pb)) \<and> plain_calls (arity (pb_metrics pb)) cs"
    by (rule h(1))
  show "\<exists>cs. on_duplicate_recv (pb_collector pb) p pkt (pb_metrics pb) = Some (emit cs (pb_metrics pb)) \<and> plain_calls (arity (pb_metrics pb)) cs"
    by (rule h(2))
  show "\<exists>cs. on_recv_error err (pb_metrics pb) = Some (emit cs (pb_metrics pb)) \<and> plain_calls (arity (pb_metrics pb)) cs"
    by (rule h(3))
  show "\<exists>cs. on_send_error (pb_collector pb) p pkt (pb_metrics pb) = Some (emit cs (pb_metrics pb)) \<and> plain_calls (arity (pb_metrics pb)) cs"
    by (rule h(4))
qed

lemma recorder_plain:
  assumes "writers_ok pb" and "r \<in> set (sp_started_remote (pb_pingers pb))"
  shows "\<exists>cs. record_result (rm_recorder r) t res (pb_metrics pb) = Some (emit cs (pb_metrics pb)) \<and>
    plain_calls (arity (pb_metrics pb)) cs"
proof -
  have "recorder_ok (pb_metrics pb) (rm_recorder r)"
    using assms by (auto simp: writers_ok_def current_ok_def recorder_ok_def Let_def)
  then show ?thesis by (rule recorder_ok_plain)
qed

text \<open>
  The life of a running prober, one event at a time: echo replies and errors of its pingers,
  results of its schedulers, and reloads that succeed or keep the old configuration.  \<open>envs\<close> are the
  environments a reload may find.
\<close>

inductive live_step ::
  "('p, 'd, 'o, 'y, 'file, 't) env set \<Rightarrow> flags \<Rightarrow> 'f list \<Rightarrow> 'f \<Rightarrow> ('f, 't) prober \<Rightarrow> ('f, 't) prober \<Rightarrow> bool"
  for envs fl bs factor where
  live_recv: "on_recv (pb_collector pb) p pkt (pb_metrics pb) = Some m \<Longrightarrow> live_step envs fl bs factor pb (absorb m pb)"
| live_duplicate: "on_duplicate_recv (pb_collector pb) p pkt (pb_metrics pb) = Some m \<Longrightarrow>
    live_step envs fl bs factor pb (absorb m pb)"
| live_recv_error: "on_recv_error err (pb_metrics pb) = Some m \<Longrightarrow> live_step envs fl bs factor pb (absorb m pb)"
| live_send_error: "on_send_error (pb_collector pb) p pkt (pb_metrics pb) = Some m \<Longrightarrow>
    live_step envs fl bs factor pb (absorb m pb)"
| live_result: "r \<in> set (sp_started_remote (pb_pingers pb)) \<Longrightarrow>
    record_result (rm_recorder r) t res (pb_metrics pb) = Some m \<Longrightarrow> live_step envs fl bs factor pb (absorb m pb)"
| live_reload: "e \<in> envs \<Longrightarrow>
    reload e fl bs factor pb = Some (None :: ('p, 'd, 'o, 'y, unit) failure option, pb') \<Longrightarrow>
    live_step envs fl bs factor pb pb'"
| live_kept: "e \<in> envs \<Longrightarrow>
    reload e fl bs factor pb = Some (Some (ConfigFailed x) :: ('p, 'd, 'o, 'y, unit) failure option, pb') \<Longrightarrow>
    live_step envs fl bs factor pb pb'"

lemma kept_ok: "prober_ok pb \<Longrightarrow> prober_ok (pb\<lparr>pb_config := (pb_config pb)\<lparr>sc_success := Some 0\<rparr>\<rparr>)"
  by (simp add: prober_ok_def sound_def registry_ok_def writers_ok_def Let_def)

lemma live_step_ok: "live_step envs fl bs factor pb pb' \<Longrightarrow> prober_ok pb \<Longrightarrow> prober_ok pb'"
proof (induction rule: live_step.induct)
  case (live_recv pb p pkt m)
  then show ?case using handlers_plain(1) [of pb p pkt] absorb_ok [of pb] by (auto simp: prober_ok_def [of pb])
next
  case (live_duplicate pb p pkt m)
  then show ?case using handlers_plain(2) [of pb p pkt] absorb_ok [of pb] by (auto simp: prober_ok_def [of pb])
next
  case (live_recv_error err pb m)
  then show ?case using handlers_plain(3) [of pb err] absorb_ok [of pb] by (auto simp: prober_ok_def [of pb])
next
  case (live_send_error pb p pkt m)
  then show ?case using handlers_plain(4) [of pb p pkt] absorb_ok [of pb] by (auto simp: prober_ok_def [of pb])
next
  case (live_result r pb t res m)
  then show ?case using recorder_plain [of pb r t res] absorb_ok [of pb] by (auto simp: prober_ok_def [of pb])
next
  case (live_reload e pb pb')
  then show ?case using reload_cases(2) [OF _ live_reload(2)] by (simp add: prober_ok_def [of pb])
next
  case (live_kept e pb x pb')
  then have "pb' = pb\<lparr>pb_config := (pb_config pb)\<lparr>sc_success := Some 0\<rparr>\<rparr>"
    using reload_cases(3) [OF _ live_kept(2) refl] by (simp add: prober_ok_def [of pb])
  then show ?case using kept_ok live_kept by simp
qed

lemma live_ok: "(live_step envs fl bs factor)\<^sup>*\<^sup>* pb pb' \<Longrightarrow> prober_ok pb \<Longrightarrow> prober_ok pb'"
  by (induction rule: rtranclp_induct) (auto dest: live_step_ok)

section \<open>A reload whose preparation fails\<close>

lemma setup_keeps_arity:
  assumes "metrics_ok m" and "setup_vectors names bs factor m = (hist, m')" and "v \<in> dom (arity m)"
  shows "arity m' v = arity m v"
proof -
  obtain m1 where i: "init_metrics names bs factor m = (hist, m1)" and m': "m' = emit [Register hist] m1"
    using assms(2) by (auto simp: setup_vectors_def split: prod.splits)
  show ?thesis using init_metrics_ok(6) [OF assms(1) i assms(3)] by (simp add: m')
qed

text \<open>
  Such a reload keeps the label names, replaces all vectors and the configuration, and nothing else.
\<close>

lemma reload_prepare_failed:
  assumes "prober_ok pb" and "reload e fl bs factor pb = Some (Some (PrepareFailed x), pb')"
  obtains sc hist m where "pb' = revectored sc hist m pb" and "metrics_ok m" and "sound pb'"
    and "current_ok (length (build_label_names (sc_config sc))) m" and "pb_hist pb \<notin> registered m"
    and "arity m (pb_hist pb) = arity (pb_metrics pb) (pb_hist pb)" and "cl_id (pb_collector pb) \<in> registered m"
    and "hist \<in> registered m" and "build_label_names (sc_config sc) = build_label_names (sc_config (pb_config pb))"
proof -
  have so: "sound pb" and r: "registry_ok pb" and w: "writers_ok pb" using assms(1) by (simp_all add: prober_ok_def sound_def)
  obtain err sc where rc: "reload_config (en_open e) (en_decode e) (en_now e) (pb_config pb) (fl_config_file fl) = (err, sc)"
    by (cases "reload_config (en_open e) (en_decode e) (en_now e) (pb_config pb) (fl_config_file fl)")
  have err: "err = None"
  proof (cases err)
    case (Some y)
    then show ?thesis using assms(2) by (simp add: reload_config_failed [OF rc [unfolded Some]])
  qed simp
  let ?names = "build_label_names (sc_config sc)" and ?m0 = "emit [Unregister (pb_hist pb)] (pb_metrics pb)"
  obtain hist m where su: "setup_vectors ?names bs factor ?m0 = (hist, m)" by (cases "setup_vectors ?names bs factor ?m0")
  note rv = reload_vectors [OF r su]
  note re = reload_loaded [OF rc [unfolded err] refl su refl]
  have pb': "pb' = revectored sc hist m pb"
    using assms(2) unfolding re by (auto split: sum.splits if_splits)
  moreover have "arity m (pb_hist pb) = arity (pb_metrics pb) (pb_hist pb)"
  proof -
    have mo: "metrics_ok (pb_metrics pb)" "fst (pb_hist pb) \<in> {ResponseDuration, Requests}"
      using r by (simp_all add: registry_ok_def)
    have "pb_hist pb \<in> dom (arity ?m0)"
      using w by (auto simp: writers_ok_def Let_def)
    then show ?thesis using setup_keeps_arity [OF emit_unregister(1) [OF mo] su] by simp
  qed
  moreover have "cl_id (pb_collector pb) \<in> registered m" "hist \<in> registered m" using rv(4,5) by blast+
  moreover note reload_cases(1,4) [OF so assms(2)]
  ultimately show ?thesis using that rv by (simp add: revectored_def)
qed

end
