(* ===== verification/Reloading.thy ===== *)
theory Reloading
  imports Prober_Life
begin

text \<open>
  The goroutine of main.go that reloads, step by step, while the pingers, the handlers and the
  schedulers of the program keep running: a state machine whose counter says how far the reload is,
  interleaved with the replies and results that arrive meanwhile.

  A step of the reload is one statement of its loop, or one iteration of the loops inside
  \<open>stop\<close>, \<open>start\<close> and \<open>startRemote\<close>.  A call on the metrics client that it does not accept, by the reload,
  a handler or a recorder, and a call on a nil vector, panic and end the program: the counter is then
  \<open>Crashed\<close>, and nothing happens any more.
\<close>

section \<open>State\<close>

text \<open>The label names are the local variable \<open>newLabelNames\<close>.\<close>

datatype pc =
    Listening
  | Loaded
  | Revectored "string list"
  | Stopping "string list"
  | Starting "string list"
  | Serving
  | Crashed

text \<open>
  The fields of \<open>prober\<close>, and what is running: \<open>lv_running\<close> the pingers between \<open>Run\<close> and \<open>Stop\<close>, each
  with the collector whose handlers it has, if any, and whether its \<open>Run\<close> goes on, and \<open>lv_scheds\<close> the
  schedulers between \<open>Start\<close> and the end of \<open>Stop\<close>.  \<open>lv_lost\<close> counts the replies that met no handler and
  \<open>lv_errors\<close> is the counter \<open>proberErrors\<close>, both from the moment the state is taken.
\<close>

record ('f, 't) live =
  lv_pc :: pc
  lv_config :: "'t safe_config"
  lv_metrics :: "'f metrics"
  lv_hist :: vec
  lv_pingers :: smoke_pingers
  lv_collector :: collector
  lv_running :: "(probe \<times> collector option \<times> bool) list"
  lv_scheds :: "remote_prober list"
  lv_lost :: nat
  lv_errors :: nat

definition live_of :: "nat \<Rightarrow> ('f, 't) prober \<Rightarrow> ('f, 't) live" where
  "live_of missed pb =
     \<lparr>lv_pc = Listening, lv_config = pb_config pb, lv_metrics = pb_metrics pb, lv_hist = pb_hist pb,
      lv_pingers = pb_pingers pb, lv_collector = pb_collector pb,
      lv_running = map (\<lambda>p. (p, Some (pb_collector pb), True)) (slice (sp_started (pb_pingers pb))),
      lv_scheds = sp_started_remote (pb_pingers pb), lv_lost = missed, lv_errors = 0\<rparr>"

section \<open>The reload\<close>

text \<open>What \<open>start\<close> leaves in \<open>smokePingers\<close>.\<close>

definition after_start :: "smoke_pingers \<Rightarrow> smoke_pingers" where
  "after_start s = snd (start_pingers s :: unit event list \<times> smoke_pingers)"

inductive reload_step ::
  "('p, 'd, 'o, 'y, 'file, 't) env set \<Rightarrow> flags \<Rightarrow> 'f list \<Rightarrow> 'f \<Rightarrow> ('f, 't) live \<Rightarrow> ('f, 't) live \<Rightarrow> bool"
  for envs fl bs factor where
  rejects: "reload_step envs fl bs factor lv (lv\<lparr>lv_config := sc\<rparr>)"
    if "lv_pc lv = Listening" "e \<in> envs"
       "reload_config (en_open e) (en_decode e) (en_now e) (lv_config lv) (fl_config_file fl) = (Some x, sc)"
| loads: "reload_step envs fl bs factor lv (lv\<lparr>lv_pc := Loaded, lv_config := sc\<rparr>)"
    if "lv_pc lv = Listening" "e \<in> envs"
       "reload_config (en_open e) (en_decode e) (en_now e) (lv_config lv) (fl_config_file fl) = (None, sc)"
| makes_vectors: "reload_step envs fl bs factor lv (lv\<lparr>lv_pc := Revectored names, lv_metrics := m, lv_hist := hist\<rparr>)"
    if "lv_pc lv = Loaded" "names = build_label_names (sc_config (lv_config lv))"
       "setup_vectors names bs factor (emit [Unregister (lv_hist lv)] (lv_metrics lv)) = (hist, m)" "log_ok m"
| refuses_vectors: "reload_step envs fl bs factor lv (lv\<lparr>lv_pc := Crashed\<rparr>)"
    if "lv_pc lv = Loaded" "names = build_label_names (sc_config (lv_config lv))"
       "setup_vectors names bs factor (emit [Unregister (lv_hist lv)] (lv_metrics lv)) = (hist, m)" "\<not> log_ok m"
| fails: "reload_step envs fl bs factor lv (lv\<lparr>lv_pc := Listening\<rparr>)"
    if "lv_pc lv = Revectored names" "e \<in> envs"
       "prepare e fl (sc_config (lv_config lv)) (new_remote_recorder names (lv_hist lv) (lv_metrics lv)) (lv_pingers lv) = Inl x"
| has_no_targets: "reload_step envs fl bs factor lv (lv\<lparr>lv_pc := Listening, lv_pingers := s\<rparr>)"
    if "lv_pc lv = Revectored names" "e \<in> envs"
       "prepare e fl (sc_config (lv_config lv)) (new_remote_recorder names (lv_hist lv) (lv_metrics lv)) (lv_pingers lv) = Inr s"
       "size_of_prepared s = 0"
| prepares: "reload_step envs fl bs factor lv (lv\<lparr>lv_pc := Stopping names, lv_pingers := s\<rparr>)"
    if "lv_pc lv = Revectored names" "e \<in> envs"
       "prepare e fl (sc_config (lv_config lv)) (new_remote_recorder names (lv_hist lv) (lv_metrics lv)) (lv_pingers lv) = Inr s"
       "size_of_prepared s \<noteq> 0"
| stops_scheduler: "reload_step envs fl bs factor lv (lv\<lparr>lv_scheds := rs\<rparr>)"
    if "lv_pc lv = Stopping names" "lv_scheds lv = r # rs"
| stops_pingers: "reload_step envs fl bs factor lv
      (lv\<lparr>lv_pc := Starting names, lv_pingers := after_start (lv_pingers lv), lv_running := []\<rparr>)"
    if "lv_pc lv = Stopping names" "lv_scheds lv = []"
| runs_pinger: "reload_step envs fl bs factor lv
      (lv\<lparr>lv_running := lv_running lv @ [(slice (sp_started (lv_pingers lv)) ! length (lv_running lv), None, True)]\<rparr>)"
    if "lv_pc lv = Starting names" "length (lv_running lv) < length (slice (sp_started (lv_pingers lv)))"
| makes_collector: "reload_step envs fl bs factor lv
      (lv\<lparr>lv_pc := Serving, lv_metrics := emit [Register (cl_id c)] m, lv_collector := c,
          lv_running := map (\<lambda>(p, _, b). (p, Some c, b)) (lv_running lv)\<rparr>)"
    if "lv_pc lv = Starting names" "length (lv_running lv) = length (slice (sp_started (lv_pingers lv)))"
       "new_collector (slice (sp_started (lv_pingers lv))) (remote_targets (lv_pingers lv)) names (lv_hist lv)
          (emit [Unregister (cl_id (lv_collector lv))] (lv_metrics lv)) = Some (c, m)" "log_ok (emit [Register (cl_id c)] m)"
| refuses_collector: "reload_step envs fl bs factor lv (lv\<lparr>lv_pc := Crashed\<rparr>)"
    if "lv_pc lv = Starting names" "length (lv_running lv) = length (slice (sp_started (lv_pingers lv)))"
       "new_collector (slice (sp_started (lv_pingers lv))) (remote_targets (lv_pingers lv)) names (lv_hist lv)
          (emit [Unregister (cl_id (lv_collector lv))] (lv_metrics lv)) = Some (c, m)" "\<not> log_ok (emit [Register (cl_id c)] m)"
| meets_nil: "reload_step envs fl bs factor lv (lv\<lparr>lv_pc := Crashed\<rparr>)"
    if "lv_pc lv = Starting names" "length (lv_running lv) = length (slice (sp_started (lv_pingers lv)))"
       "new_collector (slice (sp_started (lv_pingers lv))) (remote_targets (lv_pingers lv)) names (lv_hist lv)
          (emit [Unregister (cl_id (lv_collector lv))] (lv_metrics lv)) = None"
| starts_scheduler: "reload_step envs fl bs factor lv
      (lv\<lparr>lv_scheds := lv_scheds lv @ [sp_started_remote (lv_pingers lv) ! length (lv_scheds lv)]\<rparr>)"
    if "lv_pc lv = Serving" "length (lv_scheds lv) < length (sp_started_remote (lv_pingers lv))"
| finishes: "reload_step envs fl bs factor lv (lv\<lparr>lv_pc := Listening\<rparr>)"
    if "lv_pc lv = Serving" "length (lv_scheds lv) = length (sp_started_remote (lv_pingers lv))"

section \<open>What arrives meanwhile\<close>

text \<open>A handler or recorder ran, or tried to.\<close>

definition happens :: "'f metrics option \<Rightarrow> ('f, 't) live \<Rightarrow> ('f, 't) live" where
  "happens r lv =
     (case r of
        None \<Rightarrow> lv\<lparr>lv_pc := Crashed\<rparr>
      | Some m \<Rightarrow> if log_ok m then lv\<lparr>lv_metrics := m\<rparr> else lv\<lparr>lv_pc := Crashed\<rparr>)"

text \<open>\<open>Run\<close> of a pinger may also end on its own, with an error that is counted or without.\<close>

inductive arrival :: "('f, 't) live \<Rightarrow> ('f, 't) live \<Rightarrow> bool" where
  reply: "arrival lv (happens (on_recv c p pkt (lv_metrics lv)) lv)"
    if "lv_pc lv \<noteq> Crashed" "(p, Some c, True) \<in> set (lv_running lv)"
| early_reply: "arrival lv (lv\<lparr>lv_lost := lv_lost lv + 1\<rparr>)"
    if "lv_pc lv \<noteq> Crashed" "(p, None, True) \<in> set (lv_running lv)"
| duplicate: "arrival lv (happens (on_duplicate_recv c p pkt (lv_metrics lv)) lv)"
    if "lv_pc lv \<noteq> Crashed" "(p, Some c, True) \<in> set (lv_running lv)"
| recv_error: "arrival lv (happens (on_recv_error err (lv_metrics lv)) lv)"
    if "lv_pc lv \<noteq> Crashed" "(p, Some c, True) \<in> set (lv_running lv)"
| send_error: "arrival lv (happens (on_send_error c p pkt (lv_metrics lv)) lv)"
    if "lv_pc lv \<noteq> Crashed" "(p, Some c, True) \<in> set (lv_running lv)"
| pinger_ends: "arrival lv (lv\<lparr>lv_running := (lv_running lv)[i := (p, c, False)],
      lv_errors := (if failed then lv_errors lv + 1 else lv_errors lv)\<rparr>)"
    if "lv_pc lv \<noteq> Crashed" "i < length (lv_running lv)" "lv_running lv ! i = (p, c, True)"
| remote_result: "arrival lv (happens (record_result (rm_recorder r) t res (lv_metrics lv)) lv)"
    if "lv_pc lv \<noteq> Crashed" "r \<in> set (lv_scheds lv)"

text \<open>The program from one state to another, in any interleaving.\<close>

definition evolves ::
  "('p, 'd, 'o, 'y, 'file, 't) env set \<Rightarrow> flags \<Rightarrow> 'f list \<Rightarrow> 'f \<Rightarrow> ('f, 't) live \<Rightarrow> ('f, 't) live \<Rightarrow> bool" where
  "evolves envs fl bs factor = (\<lambda>lv lv'. reload_step envs fl bs factor lv lv' \<or> arrival lv lv')\<^sup>*\<^sup>*"

end
