(* ===== verification/Prober_Theorems.thy ===== *)
theory Prober_Theorems
  imports Prober_Life
begin

text \<open>
  The properties of main.go: the series a configuration defines, what a preparation makes of it,
  the order of a reload, and what startup and reloads keep true of the running prober.
\<close>

section \<open>A sample prober\<close>

text \<open>
  One host on the command line; the file has at startup a local group with a label, and later what
  \<open>Validate\<close> accepts although \<open>prepare\<close> will not, or other groups, with the same label names.
\<close>

definition sample_flags :: flags where
  "sample_flags = \<lparr>fl_config_file = ''f'', fl_interval = 1000000000, fl_privileged = True, fl_size = 56,
     fl_tos = 0, fl_hosts = [''h'']\<rparr>"

definition sample_pinger :: "string \<Rightarrow> pinger" where
  "sample_pinger h = \<lparr>pg_addr = h, pg_ip = ''192.0.2.7'', pg_interval = 1000000000, pg_network = ''ip'',
     pg_size = 24, pg_tos = 0, pg_source = [], pg_privileged = False\<rparr>"

definition sample_ip :: "string \<Rightarrow> string" where
  "sample_ip host = (case parse_ip host of Some a \<Rightarrow> ip_string a | None \<Rightarrow> ''192.0.2.7'')"

definition sample_env :: "config option \<Rightarrow> (unit, unit, unit, unit, unit, nat) env" where
  "sample_env file =
     \<lparr>en_open = (\<lambda>_. if file = None then Inl () else Inr ()), en_decode = (\<lambda>_. Inr (the file)), en_now = 0,
      en_lookup = sample_lookup, en_read_file = (\<lambda>_. Inr ''secret''), en_new_pinger = sample_pinger,
      en_resolve_pinger = (\<lambda>_ p. Inr (p\<lparr>pg_ip := sample_ip (pg_addr p)\<rparr>)), en_valid_label = (\<lambda>_. True)\<rparr>"

definition start_group :: target_group where
  "start_group = default_target_group\<lparr>tg_hosts := [''g''], tg_labels := [(''site'', ''y'')]\<rparr>"

definition start_config :: config where
  "start_config = \<lparr>cf_routers = [], cf_targets = [start_group]\<rparr>"

definition sample_startup :: "((unit, unit, unit, unit, unit) failure + (nat, nat) prober) option" where
  "sample_startup = startup (sample_env (Some start_config)) (\<lambda>_. True) (\<lambda>_. Inr 0) sample_flags ''1'' 0"

definition small_group :: target_group where
  "small_group = default_target_group\<lparr>tg_hosts := [''h''], tg_size := 8, tg_labels := [(''site'', ''x'')]\<rparr>"

definition small_config :: config where
  "small_config = \<lparr>cf_routers = [], cf_targets = [small_group]\<rparr>"

lemma start_config_ok: "config_ok start_config"
  by (simp add: config_ok_def start_config_def start_group_def target_ok_def local_group_ok_def default_defs)

text \<open>The label names of the sample files; the last one has no label of its own.\<close>

definition plain_config :: config where
  "plain_config = \<lparr>cf_routers = [], cf_targets = [sample_local_group]\<rparr>"

lemma plain_config_ok: "config_ok plain_config"
  by (simp add: config_ok_def plain_config_def target_ok_def local_group_ok_def sample_defs)

lemma sample_label_names:
  "build_label_names start_config = base_label_names @ [''site'']"
  "build_label_names small_config = base_label_names @ [''site'']"
  "build_label_names sample_config = base_label_names @ [''site'']"
  "build_label_names plain_config = base_label_names"
  by (simp_all add: build_label_names_def base_label_names_def start_config_def start_group_def small_config_def
      small_group_def plain_config_def sample_defs)

lemma sample_load: "config_ok c \<Longrightarrow> load_config (en_open (sample_env (Some c))) (en_decode (sample_env (Some c))) f = Inr c"
  using validate_Inr [of c] by (simp add: load_config_def sample_env_def)

lemma start_reload_config:
  "reload_config (en_open (sample_env (Some start_config))) (en_decode (sample_env (Some start_config)))
     (en_now (sample_env (Some start_config))) sc f =
   (None, sc\<lparr>sc_config := start_config, sc_success := Some 1, sc_seconds := Some 0\<rparr>)"
  by (simp add: reload_config_def sample_load [OF start_config_ok]) (simp add: sample_env_def)

lemma start_prepare:
  "\<exists>s. prepare (sample_env (Some start_config)) sample_flags start_config rec no_pingers = Inr s \<and> size_of_prepared s \<noteq> 0"
  by (simp add: prepare_def sample_flags_def prepare_host_def sample_env_def start_config_def start_group_def
      prepare_group_def prepare_remote_def prepare_group_host_def valid_packet_size_def size_of_prepared_def slice_def
      group_pinger_def default_defs Let_def)

lemma sample_startup_Inr: "\<exists>pb. sample_startup = Some (Inr pb) \<and> sc_config (pb_config pb) = start_config"
proof -
  let ?e = "sample_env (Some start_config)" and ?names = "build_label_names start_config"
  obtain hist and m :: "nat metrics" where su: "setup_vectors ?names [0] 0 (empty_metrics (\<lambda>_. True)) = (hist, m)"
    by (cases "setup_vectors ?names [0 :: nat] 0 (empty_metrics (\<lambda>_. True))")
  note sv = startup_vectors [OF su]
  have log: "log_ok m" by (simp add: sv(1) list_all_iff)
  obtain s where s: "prepare ?e sample_flags start_config (new_remote_recorder ?names hist m) no_pingers = Inr s"
    "size_of_prepared s \<noteq> 0"
    using start_prepare by blast
  define sc where "sc = \<lparr>sc_config = start_config, sc_success = Some 1, sc_seconds = Some (0 :: nat)\<rparr>"
  have "rm_recorder r = \<lparr>rc_names = ?names, rc_hist = hist, rc_ttl = mt_ttl m\<rparr>" if "r \<in> set (sp_prepared_remote s)" for r
    using prepare_recorders(1) [OF s(1) that] by (simp add: new_remote_recorder_def)
  then have "rm_recorder r = \<lparr>rc_names = ?names, rc_hist = hist, rc_ttl = mt_ttl ((\<lambda>m. m) m)\<rparr>"
    if "r \<in> set (sp_prepared_remote s)" for r using that by simp
  moreover have "?names = build_label_names (sc_config sc)" "config_ok (sc_config sc)"
    using start_config_ok by (simp_all add: sc_def)
  moreover note sv(2) [OF log] sv(3) s(2)
  ultimately obtain pb where pb: "launch sc (calls_since (empty_metrics (\<lambda>_. True)) m) ?names hist m (\<lambda>m. m) s = Some pb" "pb_config pb = sc"
    using launch_ok [where unregister = "\<lambda>m. m" and names = ?names and hist = hist and m = m and sc = sc and s = s] by blast
  have e: "en_valid_label ?e = (\<lambda>_. True)" "fl_size sample_flags = 56" by (simp_all add: sample_env_def sample_flags_def)
  have "sample_startup = Some (Inr pb)"
    unfolding sample_startup_def startup_def start_reload_config
    by (simp add: e valid_packet_size_def parse_buckets_def su s log pb(1) [unfolded sc_def One_nat_def] Let_def)
  with pb(2) show ?thesis by (intro exI [of _ pb]) (simp add: sc_def)
qed

lemma small_config_ok: "config_ok small_config"
  by (simp add: config_ok_def small_config_def small_group_def target_ok_def local_group_ok_def default_defs)
section \<open>Series\<close>

lemma map_of_zip_map:
  "distinct names \<Longrightarrow> map_of (zip names (map f names)) k = (if k \<in> set names then Some (f k) else None)"
  by (induction names) auto

lemma label_values_map:
  assumes "distinct names" and "set base_names \<subseteq> set names" and "dom base = set base_names"
  shows "map_of (zip names (label_values names base custom)) k =
    (if k \<in> set base_names then base k
     else if k \<in> set names then Some (case custom k of None \<Rightarrow> [] | Some v \<Rightarrow> v) else None)"
proof (cases "k \<in> set base_names")
  case True
  then obtain v where "base k = Some v" using assms(3) by (metis domD)
  moreover have "k \<in> set names" using True assms(2) by blast
  ultimately show ?thesis using True assms(1) by (simp add: label_values_def map_of_zip_map)
next
  case False
  then have "base k = None" using assms(3) by (metis domIff)
  with False assms(1) show ?thesis by (simp add: label_values_def map_of_zip_map)
qed

lemma names_cover: "set base_names \<subseteq> set (build_label_names c)"
  by (simp add: set_build_label_names base_names_eq)

section \<open>Starting\<close>

definition slept :: "'f event list \<Rightarrow> int" where
  "slept evs = sum_list (map (\<lambda>e. case e of Slept d \<Rightarrow> sint d | _ \<Rightarrow> 0) evs)"

lemma slept_append [simp]: "slept (xs @ ys) = slept xs + slept ys"
  by (simp add: slept_def)

lemma slept_stopped [simp]:
  "slept (map SchedulerStopped rs) = 0" "slept (map (\<lambda>pr. PingerStopped (pr_pinger pr)) ps) = 0" "slept [PingersWaited] = 0"
  "slept [] = 0"
proof -
  show "slept (map SchedulerStopped rs) = 0" by (induction rs) (simp_all add: slept_def)
  show "slept (map (\<lambda>pr. PingerStopped (pr_pinger pr)) ps) = 0" by (induction ps) (simp_all add: slept_def)
qed (simp_all add: slept_def)

lemma slept_stops [simp]: "slept (fst (stop_pingers s)) = 0"
  by (simp add: stop_pingers_def)

lemma slept_runs: "slept (concat (map (\<lambda>pr. [PingerRuns (pr_pinger pr), Slept d]) ps)) = int (length ps) * sint d"
  by (induction ps) (simp_all add: slept_def algebra_simps)

lemma pinger_splay_value:
  assumes "0 < n" and "int n \<le> i64_max" and "0 \<le> sint mx"
  shows "sint (pinger_splay mx n) = sint mx div int n"
proof -
  have n: "sint (of_nat n :: i64) = int n" using assms sint_word_of_int64 [of "int n"] by (simp add: fits64_nonneg)
  then show ?thesis using sint_quot64_nonneg [OF assms(3), of "of_nat n"] assms(1) by (simp add: pinger_splay_def)
qed

text \<open>The events of a start: what ran before is stopped, then the pingers run.\<close>

lemma start_pingers_events:
  "size_of_prepared s \<noteq> 0 \<Longrightarrow>
   fst (start_pingers s) = fst (stop_pingers s) @
     concat (map (\<lambda>pr. [PingerRuns (pr_pinger pr), Slept (pinger_splay (sp_max_interval s) (length (slice (sp_prepared s))))])
       (slice (sp_prepared s)))"
  by (simp add: start_pingers_def stop_pingers_def Let_def)

lemma prepared_schedulers_ok:
  assumes "config_ok c" and "dns_ok (en_lookup e)" and "prepare e fl c rec s = Inr s'"
    and "p \<in> set (sp_prepared_remote s')"
  shows "fresh (sd_targets (rm_sched p))" and "sd_targets (rm_sched p) \<noteq> []" and "1 \<le> sint (sd_sessions (rm_sched p))"
    and "\<And>t. t \<in> set (sd_targets (rm_sched p)) \<Longrightarrow> job_ok (t_job t) \<and> 1 \<le> sint (j_count (t_job t)) \<and> 0 < sint (t_interval t)"
proof -
  obtain r where r: "r \<in> set (cf_routers c)" "router_targets e c r \<noteq> []" "prober_of e rec r (router_targets e c r) p"
    using list_all2_right [OF prepare_Inr(2) [OF assms(3,1)] assms(4)] by auto
  then have p: "sd_targets (rm_sched p) = router_targets e c r" "sd_sessions (rm_sched p) = rt_sessions r"
    by (simp_all add: prober_of_def new_scheduler_def)
  have rok: "router_ok r" using assms(1) r(1) by (simp add: config_ok_def list_all_iff)
  then show "1 \<le> sint (sd_sessions (rm_sched p))" by (simp add: p router_ok_def)
  show "sd_targets (rm_sched p) \<noteq> []" using r(2) by (simp add: p)
  have t: "job_ok (t_job t) \<and> 1 \<le> sint (j_count (t_job t)) \<and> 0 < sint (t_interval t) \<and> \<not> t_pending t \<and> t_sent t = 0"
    if mem: "t \<in> set (router_targets e c r)" for t
  proof -
    obtain tg where tg: "tg \<in> set (cf_targets c)" "tg_router tg = rt_name r" "t \<in> set (group_targets e c tg)"
      using mem by (auto simp: router_targets_def)
    have ne: "tg_router tg \<noteq> []" using tg(2) rok by (simp add: router_ok_def)
    obtain r' where fr: "find_router c (tg_router tg) = (r', True)" "router_ok r'" "router_group_ok r' tg"
      using find_router_ok [OF assms(1) tg(1) ne] by metis
    obtain ts where "build_targets tg r' (resolve (en_lookup e)) = Inr ts" "t \<in> set ts"
      using tg(3) fr(1) by (cases "build_targets tg r' (resolve (en_lookup e))") (auto simp: group_targets_def)
    note b = built_job_ok [OF fr(2) assms(2) this]
    show ?thesis using b fr(3) by (simp add: router_group_ok_def)
  qed
  show "fresh (sd_targets (rm_sched p))" using t by (simp add: fresh_def list_all_iff p)
  show "\<And>t. t \<in> set (sd_targets (rm_sched p)) \<Longrightarrow> job_ok (t_job t) \<and> 1 \<le> sint (j_count (t_job t)) \<and> 0 < sint (t_interval t)"
    using t by (simp add: p)
qed

section \<open>Accepted calls\<close>

definition accepted :: "'f metrics option \<Rightarrow> bool" where
  "accepted r \<longleftrightarrow> (case r of None \<Rightarrow> False | Some m \<Rightarrow> log_ok m)"

lemma sound_log: "sound pb \<Longrightarrow> log_ok (pb_metrics pb)"
  using labels_are_log by (auto simp: sound_def registry_ok_def)

lemma accepted_calls:
  assumes "sound pb" and "\<exists>cs. r = Some (emit cs (pb_metrics pb)) \<and> plain_calls (arity (pb_metrics pb)) cs"
  shows "accepted r"
proof -
  obtain cs where r: "r = Some (emit cs (pb_metrics pb))" and cs: "plain_calls (arity (pb_metrics pb)) cs" using assms(2) by blast
  have m: "metrics_ok (pb_metrics pb)" "labels_are (build_label_names (sc_config (pb_config pb))) (pb_metrics pb)"
    using assms(1) by (simp_all add: sound_def registry_ok_def)
  have "log_ok (emit cs (pb_metrics pb))"
    using labels_are_log [OF emit_plain(1) [OF m(1) cs]] m(2) by (simp add: labels_are_plain [OF cs])
  then show ?thesis by (simp add: accepted_def r)
qed

lemma live_names:
  assumes "(live_step envs fl bs factor)\<^sup>*\<^sup>* pb pb'" and "prober_ok pb"
  shows "build_label_names (sc_config (pb_config pb')) = build_label_names (sc_config (pb_config pb))"
  using assms(1)
proof (induction rule: rtranclp_induct)
  case (step pb1 pb2)
  have so: "sound pb1" using live_ok [OF step(1) assms(2)] by (simp add: prober_ok_def)
  from step(2) have "build_label_names (sc_config (pb_config pb2)) = build_label_names (sc_config (pb_config pb1))"
    by (cases rule: live_step.cases) (simp_all add: absorb_def reload_cases(4) [OF so])
  with step(3) show ?case by simp
qed simp

lemma on_recv_observes:
  assumes "on_recv c p pkt m = Some m'" and "cl_hist c \<noteq> v"
  shows "observations v vals (mt_calls m') = observations v vals (mt_calls m)"
  using assms by (auto simp: on_recv_def Let_def emit_emit observations_def List.map_filter_def)

section \<open>The order of a reload\<close>

lemma launch_log:
  assumes "launch sc log names hist m unregister s = Some pb" and "size_of_prepared s \<noteq> 0"
  shows "pb_log pb = log @ fst (stop_pingers s) @
      concat (map (\<lambda>pr. [PingerRuns (pr_pinger pr), Slept (pinger_splay (sp_max_interval s) (length (slice (sp_prepared s))))])
        (slice (sp_prepared s))) @
      calls_since m (pb_metrics pb) @ map SchedulerStarted (sp_prepared_remote s)"
    and "sp_started_remote (pb_pingers pb) = sp_prepared_remote s"
proof -
  obtain evs s' where s': "start_pingers s = (evs :: 'a event list, s')" by (cases "start_pingers s :: 'a event list \<times> _")
  have evs: "fst (stop_pingers s) @
      concat (map (\<lambda>pr. [PingerRuns (pr_pinger pr), Slept (pinger_splay (sp_max_interval s) (length (slice (sp_prepared s))))])
        (slice (sp_prepared s))) = evs" and st: "sp_started_remote s' = sp_prepared_remote s"
    using start_pingers_fields(1) [OF assms(2)] start_pingers_events [OF assms(2)] s' by (metis fst_conv, metis snd_conv)
  obtain c m2 where pb: "pb = \<lparr>pb_config = sc, pb_metrics = emit [Register (cl_id c)] m2, pb_hist = hist, pb_pingers = s',
      pb_collector = c, pb_log = log @ evs @ calls_since m (emit [Register (cl_id c)] m2) @ start_remote s'\<rparr>"
    using assms(1) s' by (auto simp: launch_def Let_def split: option.splits if_splits)
  show "sp_started_remote (pb_pingers pb) = sp_prepared_remote s" by (simp add: pb st)
  show "pb_log pb = log @ fst (stop_pingers s) @
      concat (map (\<lambda>pr. [PingerRuns (pr_pinger pr), Slept (pinger_splay (sp_max_interval s) (length (slice (sp_prepared s))))])
        (slice (sp_prepared s))) @
      calls_since m (pb_metrics pb) @ map SchedulerStarted (sp_prepared_remote s)"
    unfolding append.assoc [symmetric] using evs by (simp add: pb start_remote_def st)
qed

text \<open>What \<open>NewSmokepingCollector\<close> calls, and the rest of a launch.\<close>

definition update_calls :: "'f metrics \<Rightarrow> string list \<Rightarrow> probe list \<Rightarrow> target list \<Rightarrow> vec \<Rightarrow> 'f call list" where
  "update_calls m names probes remote hist =
     (let dup = the (mt_duplicates m); ttl = the (mt_ttl m); send = the (mt_send_errors m) in
      [Reset dup, Reset hist, Reset ttl, Reset send] @
      concat (map (\<lambda>pr. let vals = build_label_values names pr [] in
          [Series dup vals, Series hist vals, Series ttl vals, Series send vals]) probes) @
      concat (map (\<lambda>t. let vals = remote_label_values names t in [Series hist vals, Series ttl vals]) remote))"

lemma new_collector_calls:
  assumes "new_collector probes remote names hist m = Some (c, m')"
  shows "mt_calls m' = mt_calls m @ [NewDesc (cl_id c) names] @ update_calls m' names probes remote hist"
  using assms by (auto simp: new_collector_def update_probes_def update_calls_def Let_def split: option.splits)

lemma launch_calls:
  fixes pb :: "('f, 't) prober"
  assumes "launch sc lg names hist m (\<lambda>m. emit [Unregister c] m) s = Some pb" and "size_of_prepared s \<noteq> 0"
  shows "mt_calls (pb_metrics pb) = mt_calls m @ [Unregister c, NewDesc (cl_id (pb_collector pb)) names] @
      update_calls (pb_metrics pb) names (slice (sp_started (pb_pingers pb))) (remote_targets (pb_pingers pb)) (pb_hist pb) @
      [Register (cl_id (pb_collector pb))]"
    and "sp_started (pb_pingers pb) = sp_prepared s" and "sp_max_interval (pb_pingers pb) = sp_max_interval s"
proof -
  obtain evs s' where s': "start_pingers s = (evs :: 'f event list, s')" by (cases "start_pingers s :: 'f event list \<times> _")
  obtain d m2 where nc: "new_collector (slice (sp_started s')) (remote_targets s') names hist (emit [Unregister c] m) = Some (d, m2)"
    and pb: "pb_metrics pb = emit [Register (cl_id d)] m2" "pb_collector pb = d" "pb_pingers pb = s'" "pb_hist pb = hist"
    using assms(1) s' by (auto simp: launch_def Let_def split: option.splits if_splits)
  have "update_calls (emit cs m2) = update_calls m2" for cs by (simp add: update_calls_def fun_eq_iff)
  with new_collector_calls [OF nc] show "mt_calls (pb_metrics pb) = mt_calls m @ [Unregister c, NewDesc (cl_id (pb_collector pb)) names] @
      update_calls (pb_metrics pb) names (slice (sp_started (pb_pingers pb))) (remote_targets (pb_pingers pb)) (pb_hist pb) @
      [Register (cl_id (pb_collector pb))]"
    by (simp add: pb)
  show "sp_started (pb_pingers pb) = sp_prepared s" "sp_max_interval (pb_pingers pb) = sp_max_interval s"
    using s' assms(2) by (auto simp: pb(3) start_pingers_def stop_pingers_def Let_def)
qed

lemma setup_calls_emit: "setup_calls (emit cs m) = setup_calls m"
  by (simp add: setup_calls_def unregister_calls_def fun_eq_iff)

lemma prepare_running: "prepare e fl c rec s = Inr s' \<Longrightarrow> sp_running s' = sp_running s"
  by (auto simp: prepare_def split: sum.splits)

lemma reload_succeeded:
  assumes "reload e fl bs factor pb = Some (None, pb')"
  obtains c sc hist m s where "load_config (en_open e) (en_decode e) (fl_config_file fl) = Inr c" and "sc_config sc = c"
    and "pb_config pb' = sc"
    and "setup_vectors (build_label_names c) bs factor (emit [Unregister (pb_hist pb)] (pb_metrics pb)) = (hist, m)"
    and "prepare e fl c (new_remote_recorder (build_label_names c) hist m) (pb_pingers pb) = Inr s"
    and "size_of_prepared s \<noteq> 0"
    and "launch sc (pb_log pb @ calls_since (pb_metrics pb) m) (build_label_names c) hist m
      (\<lambda>m. emit [Unregister (cl_id (pb_collector pb))] m) s = Some pb'"
proof (cases "load_config (en_open e) (en_decode e) (fl_config_file fl)")
  case (Inl x)
  then have "reload_config (en_open e) (en_decode e) (en_now e) (pb_config pb) (fl_config_file fl) =
      (Some x, (pb_config pb)\<lparr>sc_success := Some 0\<rparr>)" by (simp add: reload_config_def)
  then show ?thesis using assms by (simp add: reload_config_failed)
next
  case (Inr c)
  let ?sc = "(pb_config pb)\<lparr>sc_config := c, sc_success := Some 1, sc_seconds := Some (en_now e)\<rparr>"
  have rc: "reload_config (en_open e) (en_decode e) (en_now e) (pb_config pb) (fl_config_file fl) = (None, ?sc)"
    using Inr by (simp add: reload_config_def)
  let ?names = "build_label_names (sc_config ?sc)" and ?m0 = "emit [Unregister (pb_hist pb)] (pb_metrics pb)"
  obtain hist m where su: "setup_vectors ?names bs factor ?m0 = (hist, m)" by (cases "setup_vectors ?names bs factor ?m0")
  obtain s where s: "prepare e fl c (new_remote_recorder (build_label_names c) hist m) (pb_pingers pb) = Inr s"
      "size_of_prepared s \<noteq> 0"
    and l: "launch ?sc (pb_log pb @ calls_since (pb_metrics pb) m) (build_label_names c) hist m
      (\<lambda>m. emit [Unregister (cl_id (pb_collector pb))] m) s = Some pb'"
    using assms unfolding reload_loaded [OF rc refl su refl]
    by (auto split: sum.splits if_splits)
  have "pb_config pb' = ?sc" using l by (auto simp: launch_def Let_def split: option.splits prod.splits if_splits)
  with s l Inr su show ?thesis by (intro that [of c ?sc hist m s]) simp_all
qed

lemma reloads_ok:
  assumes "sound pb"
  shows "reloads fl bs factor es pb = Some pb' \<Longrightarrow>
      sound pb' \<and> build_label_names (sc_config (pb_config pb')) = build_label_names (sc_config (pb_config pb))"
    and "reloads fl bs factor es pb = None \<longleftrightarrow>
      (\<exists>e \<in> set es. \<exists>c. load_config (en_open e) (en_decode e) (fl_config_file fl) = Inr c \<and>
        build_label_names c \<noteq> build_label_names (sc_config (pb_config pb)))"
proof -
  have "(reloads fl bs factor es pb = Some pb' \<longrightarrow>
      sound pb' \<and> build_label_names (sc_config (pb_config pb')) = build_label_names (sc_config (pb_config pb))) \<and>
    (reloads fl bs factor es pb = None \<longleftrightarrow>
      (\<exists>e \<in> set es. \<exists>c. load_config (en_open e) (en_decode e) (fl_config_file fl) = Inr c \<and>
        build_label_names c \<noteq> build_label_names (sc_config (pb_config pb))))"
    using assms
  proof (induction es arbitrary: pb)
    case (Cons e es)
    have p: "reload e fl bs factor pb = (None :: ((_, _, _, _, unit) failure option \<times> _) option) \<longleftrightarrow>
      (\<exists>c. load_config (en_open e) (en_decode e) (fl_config_file fl) = Inr c \<and>
        build_label_names c \<noteq> build_label_names (sc_config (pb_config pb)))" by (rule reload_panics [OF Cons.prems])
    show ?case
    proof (cases "reload e fl bs factor pb :: ((_, _, _, _, unit) failure option \<times> _) option")
      case None
      with p show ?thesis by auto
    next
      case (Some x)
      obtain r pb1 where x: "x = (r, pb1)" by (cases x)
      note c = reload_cases(1,4) [OF Cons.prems Some [unfolded x]]
      have "\<not> (\<exists>c. load_config (en_open e) (en_decode e) (fl_config_file fl) = Inr c \<and>
          build_label_names c \<noteq> build_label_names (sc_config (pb_config pb)))"
        using p Some by simp
      with Cons.IH [OF c(1)] c(2) Some x show ?thesis by auto
    qed
  qed auto
  then show "reloads fl bs factor es pb = Some pb' \<Longrightarrow>
      sound pb' \<and> build_label_names (sc_config (pb_config pb')) = build_label_names (sc_config (pb_config pb))"
    "reloads fl bs factor es pb = None \<longleftrightarrow>
      (\<exists>e \<in> set es. \<exists>c. load_config (en_open e) (en_decode e) (fl_config_file fl) = Inr c \<and>
        build_label_names c \<noteq> build_label_names (sc_config (pb_config pb)))" by blast+
qed

lemma sample_prober:
  obtains pb where "startup (sample_env (Some start_config)) (\<lambda>_. True) (\<lambda>_. Inr 0) sample_flags ''1'' 0 =
      Some (Inr pb :: (unit, unit, unit, unit, unit) failure + (nat, nat) prober)"
    and "prober_ok pb" and "sc_config (pb_config pb) = start_config"
proof -
  obtain pb where pb: "sample_startup = Some (Inr pb)" "sc_config (pb_config pb) = start_config"
    using sample_startup_Inr by blast
  then have "startup (sample_env (Some start_config)) (\<lambda>_. True) (\<lambda>_. Inr 0) sample_flags ''1'' 0 =
      Some (Inr pb :: (unit, unit, unit, unit, unit) failure + (nat, nat) prober)"
    by (simp add: sample_startup_def)
  from that [OF this startup_launches(2) [OF this refl] pb(2)] show ?thesis .
qed

text \<open>Its pingers: the host of the command line and that of the group.\<close>

lemma sample_started:
  assumes "startup (sample_env (Some start_config)) (\<lambda>_. True) (\<lambda>_. Inr 0) sample_flags ''1'' 0 =
      Some (Inr pb :: (unit, unit, unit, unit, unit) failure + (nat, nat) prober)"
  shows "slice (sp_started (pb_pingers pb)) \<noteq> []"
proof -
  let ?e = "sample_env (Some start_config)" and ?names = "build_label_names start_config"
  obtain hist and m :: "nat metrics" where su: "setup_vectors ?names [0] 0 (empty_metrics (\<lambda>_. True)) = (hist, m)"
    by (cases "setup_vectors ?names [0 :: nat] 0 (empty_metrics (\<lambda>_. True))")
  obtain s where s: "prepare ?e sample_flags start_config (new_remote_recorder ?names hist m) no_pingers = Inr s"
    "size_of_prepared s \<noteq> 0"
    using start_prepare by blast
  have e: "en_valid_label ?e = (\<lambda>_. True)" "fl_size sample_flags = 56" by (simp_all add: sample_env_def sample_flags_def)
  have "log_ok m" using startup_vectors(1) [OF su] by (simp add: list_all_iff)
  then obtain sc lg where l: "launch sc lg ?names hist m (\<lambda>m. m) s = Some pb"
    using assms unfolding startup_def start_reload_config
    by (fastforce simp: e valid_packet_size_def parse_buckets_def su s Let_def)
  have "sp_started (pb_pingers pb) = sp_prepared s"
    using l s(2) by (auto simp: launch_def Let_def start_pingers_def stop_pingers_def split: option.splits if_splits prod.splits)
  moreover have "length (slice (sp_prepared s)) = 2"
    using prepare_Inr(1) [OF s(1) start_config_ok] by (simp add: sample_flags_def start_config_def start_group_def)
  ultimately show ?thesis by auto
qed

lemma sample_reload_config:
  "config_ok c \<Longrightarrow> \<exists>sc. sc_config sc = c \<and>
     reload_config (en_open (sample_env (Some c))) (en_decode (sample_env (Some c))) (en_now (sample_env (Some c)))
       (pb_config pb) f = (None, sc)"
  by (simp add: reload_config_def sample_load)

text \<open>The reloads of the samples that keep the label names.\<close>

lemma sample_reload_prepares:
  fixes pb :: "(nat, nat) prober"
  assumes "sound pb" and "config_ok c" and "build_label_names c = build_label_names (sc_config (pb_config pb))"
  obtains sc hist m where "sc_config sc = c"
    and "reload (sample_env (Some c)) sample_flags [0] 0 pb =
      (case prepare (sample_env (Some c)) sample_flags c (new_remote_recorder (build_label_names c) hist m) (pb_pingers pb) of
         Inl x \<Rightarrow> Some (Some (PrepareFailed x), revectored sc hist m pb)
       | Inr s \<Rightarrow>
           if size_of_prepared s = 0 then Some (Some NoTargets, (revectored sc hist m pb)\<lparr>pb_pingers := s\<rparr>)
           else map_option (Pair None) (launch sc (pb_log pb @ calls_since (pb_metrics pb) m) (build_label_names c) hist m
               (\<lambda>m. emit [Unregister (cl_id (pb_collector pb))] m) s))"
proof -
  let ?e = "sample_env (Some c)"
  obtain sc where sc: "sc_config sc = c"
    "reload_config (en_open ?e) (en_decode ?e) (en_now ?e) (pb_config pb) (fl_config_file sample_flags) = (None, sc)"
    using sample_reload_config [OF assms(2)] by blast
  let ?m0 = "emit [Unregister (pb_hist pb)] (pb_metrics pb)"
  obtain hist m where su: "setup_vectors (build_label_names c) [0] 0 ?m0 = (hist, m)"
    by (cases "setup_vectors (build_label_names c) [0 :: nat] 0 ?m0")
  have "log_ok m" using reload_vectors_labels(1) [OF assms(1) su] assms(3) by simp
  then show ?thesis
    by (intro that [of sc hist m]) (simp_all only: reload_loaded [OF sc(2) refl su [folded sc(1)] refl] sc(1) not_True_eq_False if_False)
qed

lemma small_prepare: "prepare (sample_env e) sample_flags small_config rec s = Inl (BadPacketSize 8)"
  by (simp add: prepare_def sample_flags_def prepare_host_def sample_env_def small_config_def small_group_def
      prepare_group_def valid_packet_size_def)

text \<open>A reload into \<open>small_config\<close> fails when it prepares.\<close>

lemma small_reload:
  fixes pb :: "(nat, nat) prober"
  assumes "sound pb" and "build_label_names (sc_config (pb_config pb)) = base_label_names @ [''site'']"
  obtains pb' where "reload (sample_env (Some small_config)) sample_flags [0] 0 pb =
      Some (Some (PrepareFailed (BadPacketSize 8)) :: (unit, unit, unit, unit, unit) failure option, pb')"
    and "sc_config (pb_config pb') = small_config"
proof -
  have n: "build_label_names small_config = build_label_names (sc_config (pb_config pb))"
    by (simp add: assms(2) sample_label_names)
  obtain sc hist and m :: "nat metrics" where "sc_config sc = small_config" and "reload (sample_env (Some small_config)) sample_flags [0] 0 pb =
      Some (Some (PrepareFailed (BadPacketSize 8)) :: (unit, unit, unit, unit, unit) failure option, revectored sc hist m pb)"
    by (rule sample_reload_prepares [OF assms(1) small_config_ok n]) (simp add: small_prepare)
  then show ?thesis by (intro that [of "revectored sc hist m pb"]) (simp_all add: revectored_def)
qed

text \<open>A reload into \<open>sample_config\<close> succeeds.\<close>

lemma sample_env_fields [simp]:
  "en_lookup (sample_env e) = sample_lookup" "en_new_pinger (sample_env e) = sample_pinger"
  "en_resolve_pinger (sample_env e) = (\<lambda>_ p. Inr (p\<lparr>pg_ip := sample_ip (pg_addr p)\<rparr>))" "en_read_file (sample_env e) = (\<lambda>_. Inr ''secret'')"
  by (simp_all add: sample_env_def)

lemma sample_prepare_hosts: "\<exists>ps'. for_each (prepare_group_host (sample_env e) tg d) ps hs = Inr ps'"
  by (induction hs arbitrary: ps) (simp_all add: prepare_group_host_def)

lemma sample_pinger_addr [simp]: "pg_addr (sample_pinger h) = h"
  by (simp add: sample_pinger_def)

lemma sample_prepare_group:
  assumes "valid_packet_size (tg_size tg)" and "prepare_remote (sample_env e) c pp tg = Inr (pp1, d)"
  shows "\<exists>pp'. prepare_group (sample_env e) c pp tg = Inr pp' \<and> pp_remote pp' = pp_remote pp1"
proof -
  let ?pp2 = "if sint (pp_max_interval pp1) < sint d then pp1\<lparr>pp_max_interval := d\<rparr> else pp1"
  obtain ps where ps: "for_each (prepare_group_host (sample_env e) tg d) (pp_probes ?pp2) (tg_hosts tg) = Inr ps"
    using sample_prepare_hosts by blast
  have "prepare_group (sample_env e) c pp tg = Inr (?pp2\<lparr>pp_probes := ps\<rparr>)"
    using assms ps by (simp add: prepare_group_def Let_def)
  then show ?thesis by simp
qed

definition sample_with :: "target_group \<Rightarrow> config" where
  "sample_with tg = \<lparr>cf_routers = [sample_router], cf_targets = [sample_group, tg]\<rparr>"

lemma sample_config_with: "sample_config = sample_with sample_local_group"
  by (simp add: sample_config_def sample_with_def)

lemma sample_prepared_with:
  assumes "valid_packet_size (tg_size tg)" and "tg_router tg = []"
  shows "\<exists>s'. prepare (sample_env e) sample_flags (sample_with tg) rec s = Inr s' \<and> size_of_prepared s' \<noteq> 0 \<and>
    sp_prepared_remote s' \<noteq> []"
proof -
  obtain ts t where ts: "build_targets sample_group sample_router (resolve sample_lookup) = Inr ts" "t \<in> set ts"
    by (rule sample_target)
  have router: "fst (find_router (sample_with tg) (tg_router sample_group)) = sample_router" "rt_name sample_router = ''r1''"
    "tg_router sample_group \<noteq> []"
    by (simp_all add: find_router_def sample_with_def sample_defs)
  have size: "valid_packet_size (tg_size sample_group)" by (simp add: valid_packet_size_def sample_defs)
  have g: "prepare_remote (sample_env e) (sample_with tg) pp sample_group =
      Inr (pp\<lparr>pp_remote := (pp_remote pp)(''r1'' := pp_remote pp ''r1'' @ ts)\<rparr>, tg_local_interval sample_group)" for pp
    using router ts(1) by (simp add: prepare_remote_def Let_def)
  let ?pp = "\<lparr>pp_probes = [\<lparr>pr_pinger = (sample_pinger ''h'')\<lparr>pg_ip := sample_ip ''h'', pg_interval := 1000000000, pg_privileged := True, pg_size := 56, pg_tos := 0\<rparr>,
      pr_labels = []\<rparr>], pp_max_interval = 1000000000, pp_remote = (\<lambda>_. [])\<rparr>"
  obtain pp1 where pp1: "prepare_group (sample_env e) (sample_with tg) ?pp sample_group = Inr pp1" "pp_remote pp1 ''r1'' = ts"
    using sample_prepare_group [OF size g, of ?pp] by auto
  obtain pp2 where pp2: "prepare_group (sample_env e) (sample_with tg) pp1 tg = Inr pp2" "pp_remote pp2 ''r1'' = ts"
    using sample_prepare_group [OF assms(1), of e "sample_with tg" pp1 pp1 "tg_interval tg"] assms(2) pp1(2)
    by (auto simp: prepare_remote_def)
  have "\<exists>r. for_each (prepare_router (sample_env e) rec (pp_remote pp2)) [] (cf_routers (sample_with tg)) = Inr [r] \<and>
      sd_targets (rm_sched r) = ts"
    using pp2(2) ts(2) by (auto simp: sample_with_def sample_router_def prepare_router_def new_ssh_dialer_def new_scheduler_def Let_def)
  then obtain r where r: "for_each (prepare_router (sample_env e) rec (pp_remote pp2)) [] (cf_routers (sample_with tg)) = Inr [r]"
    "sd_targets (rm_sched r) = ts" by blast
  have h: "for_each (prepare_host (sample_env e) sample_flags) [] (fl_hosts sample_flags) = Inr (pp_probes ?pp)"
    "fl_interval sample_flags = 1000000000"
    by (simp_all add: sample_flags_def prepare_host_def)
  have "for_each (prepare_group (sample_env e) (sample_with tg)) ?pp (cf_targets (sample_with tg)) = Inr pp2"
    using pp1(1) pp2(1) by (simp add: sample_with_def)
  then have "prepare (sample_env e) sample_flags (sample_with tg) rec s =
      Inr (s\<lparr>sp_prepared := Some (pp_probes pp2), sp_prepared_remote := [r], sp_max_interval := pp_max_interval pp2\<rparr>)"
    using h r(1) by (simp add: prepare_def)
  then show ?thesis using r(2) ts(2) by (auto simp: size_of_prepared_def)
qed

lemma sample_local_ok: "valid_packet_size (tg_size sample_local_group)" "tg_router sample_local_group = []"
  by (simp_all add: valid_packet_size_def sample_defs)

lemmas sample_prepared = sample_prepared_with [OF sample_local_ok, folded sample_config_with]

lemma sample_prepare: "\<exists>s'. prepare (sample_env e) sample_flags sample_config rec s = Inr s' \<and> size_of_prepared s' \<noteq> 0"
  using sample_prepared by blast

lemma sample_reload_with:
  fixes pb :: "(nat, nat) prober"
  assumes "sound pb" and "config_ok (sample_with tg)"
    and "build_label_names (sample_with tg) = build_label_names (sc_config (pb_config pb))"
    and "valid_packet_size (tg_size tg)" and "tg_router tg = []"
  obtains pb' where "reload (sample_env (Some (sample_with tg))) sample_flags [0] 0 pb =
      Some (None :: (unit, unit, unit, unit, unit) failure option, pb')"
proof -
  let ?e = "sample_env (Some (sample_with tg))"
  obtain sc hist and m :: "nat metrics" where re: "reload ?e sample_flags [0] 0 pb =
      ((case prepare ?e sample_flags (sample_with tg) (new_remote_recorder (build_label_names (sample_with tg)) hist m) (pb_pingers pb) of
         Inl x \<Rightarrow> Some (Some (PrepareFailed x), revectored sc hist m pb)
       | Inr s \<Rightarrow>
           if size_of_prepared s = 0 then Some (Some NoTargets, (revectored sc hist m pb)\<lparr>pb_pingers := s\<rparr>)
           else map_option (Pair None) (launch sc (pb_log pb @ calls_since (pb_metrics pb) m) (build_label_names (sample_with tg)) hist m
               (\<lambda>m. emit [Unregister (cl_id (pb_collector pb))] m) s)) :: ((unit, unit, unit, unit, unit) failure option \<times> _) option)"
    by (rule sample_reload_prepares [OF assms(1-3)])
  obtain s where s: "prepare ?e sample_flags (sample_with tg) (new_remote_recorder (build_label_names (sample_with tg)) hist m) (pb_pingers pb) = Inr s"
    "size_of_prepared s \<noteq> 0"
    using sample_prepared_with [OF assms(4,5)] by blast
  have "reload ?e sample_flags [0] 0 pb =
      (map_option (Pair None) (launch sc (pb_log pb @ calls_since (pb_metrics pb) m) (build_label_names (sample_with tg)) hist m
               (\<lambda>m. emit [Unregister (cl_id (pb_collector pb))] m) s) :: ((unit, unit, unit, unit, unit) failure option \<times> _) option)"
    unfolding re by (simp add: s)
  moreover have "reload ?e sample_flags [0] 0 pb \<noteq> (None :: ((unit, unit, unit, unit, unit) failure option \<times> _) option)"
    using assms(3) by (simp add: reload_panics [OF assms(1)] sample_load [OF assms(2)])
  ultimately show ?thesis using that by fastforce
qed

lemma sample_reload:
  fixes pb :: "(nat, nat) prober"
  assumes "sound pb" and "build_label_names (sc_config (pb_config pb)) = base_label_names @ [''site'']"
  obtains pb' where "reload (sample_env (Some sample_config)) sample_flags [0] 0 pb =
      Some (None :: (unit, unit, unit, unit, unit) failure option, pb')"
  by (rule sample_reload_with [OF assms(1) sample_config_ok [unfolded sample_config_with] _ sample_local_ok,
        folded sample_config_with]) (simp_all add: assms(2) sample_label_names)

text \<open>A reload into \<open>plain_config\<close> ends the process.\<close>

lemma plain_reload:
  fixes pb :: "(nat, nat) prober"
  assumes "sound pb" and "build_label_names (sc_config (pb_config pb)) = base_label_names @ [''site'']"
  shows "reload (sample_env (Some plain_config)) sample_flags [0] 0 pb =
      (None :: ((unit, unit, unit, unit, unit) failure option \<times> _) option)"
  using assms(2) by (simp add: reload_panics [OF assms(1)] sample_load [OF plain_config_ok] sample_label_names)

text \<open>From the start of the sample.\<close>

lemma started_reload:
  fixes pb :: "(nat, nat) prober"
  assumes "prober_ok pb" and "sc_config (pb_config pb) = start_config"
  obtains pb' where "reload (sample_env (Some sample_config)) sample_flags [0] 0 pb =
      Some (None :: (unit, unit, unit, unit, unit) failure option, pb')"
proof -
  have "sound pb" using assms(1) by (simp add: prober_ok_def)
  from sample_reload [OF this] assms(2) that show ?thesis by (auto simp: sample_label_names)
qed

section \<open>Properties\<close>

text \<open>
  The label names of a configuration are the five built-in ones in their order, then every
  other key that some group uses as a label, sorted and each once.
\<close>

theorem label_names_exact:
  "take 5 (build_label_names c) = base_label_names \<and> distinct (build_label_names c) \<and>
   sorted (drop 5 (build_label_names c)) \<and>
   set (build_label_names c) = set base_label_names \<union> (\<Union>tg \<in> set (cf_targets c). fst ` set (tg_labels tg))"
  using distinct_build_label_names [of c] extras_sorted [of c] set_build_label_names [of c]
  by (simp add: build_label_names_def base_label_names_def)

text \<open>
  C35: No custom label replaces a built-in one.  Under the names of any configuration the series of
  a remote target and of a local probe carry, label by label, the built-in value for a built-in
  name, and for any other name the group's value or the empty string.
\<close>

theorem builtin_labels_win:
  "map_of (zip (build_label_names c) (remote_label_values (build_label_names c) t)) k =
     (if k \<in> set base_names
      then base_labels (j_target (t_job t)) (t_host t) (j_source (t_job t)) (j_tos (t_job t)) (t_link t) k
      else if k \<in> set (build_label_names c)
      then Some (case map_of (t_labels t) k of None \<Rightarrow> [] | Some v \<Rightarrow> v) else None) \<and>
   map_of (zip (build_label_names c) (build_label_values (build_label_names c) pr ip)) k =
     (if k \<in> set base_names
      then base_labels (if ip = [] then pg_ip (pr_pinger pr) else ip) (pg_addr (pr_pinger pr))
        (pg_source (pr_pinger pr)) (pg_tos (pr_pinger pr)) [] k
      else if k \<in> set (build_label_names c)
      then Some (case map_of (pr_labels pr) k of None \<Rightarrow> [] | Some v \<Rightarrow> v) else None)"
  unfolding remote_label_values_def build_label_values_def Let_def
  by (simp only: label_values_map [OF distinct_build_label_names names_cover dom_base_labels])

text \<open>
  C26: A preparation that succeeds makes one local probe per host, of the command line and of every
  group, and exactly one scheduler per router that has targets, in the order of the routers, with
  the targets of its groups, the router's sessions and credentials and the given recorder.  Every
  target is new, has a job the router can be sent, a count of at least one and a positive interval.
\<close>

theorem prepare_exact:
  assumes "config_ok c" and "dns_ok (en_lookup e)" and "prepare e fl c rec s = Inr s'"
  shows "length (slice (sp_prepared s')) = length (fl_hosts fl) + sum_list (map (\<lambda>tg. length (tg_hosts tg)) (cf_targets c)) \<and>
    list_all2 (\<lambda>r. prober_of e rec r (router_targets e c r))
      (filter (\<lambda>r. router_targets e c r \<noteq> []) (cf_routers c)) (sp_prepared_remote s') \<and>
    list_all (\<lambda>p. fresh (sd_targets (rm_sched p)) \<and> 1 \<le> sint (sd_sessions (rm_sched p)) \<and>
      list_all (\<lambda>t. job_ok (t_job t) \<and> 1 \<le> sint (j_count (t_job t)) \<and> 0 < sint (t_interval t)) (sd_targets (rm_sched p)))
      (sp_prepared_remote s') \<and>
    sp_started s' = sp_started s \<and> sp_started_remote s' = sp_started_remote s"
  using prepare_Inr [OF assms(3,1)] prepared_schedulers_ok [OF assms]
  by (simp add: list_all_iff)

lemma prepare_exact_witness:
  "\<exists>s'. prepare (sample_env None) sample_flags sample_config \<lparr>rc_names = [], rc_hist = (ResponseDuration, 0), rc_ttl = None\<rparr> no_pingers = Inr s' \<and>
     length (slice (sp_prepared s')) = 4 \<and>
     list_all (\<lambda>p. 1 \<le> sint (sd_sessions (rm_sched p))) (sp_prepared_remote s')"
proof -
  obtain s' where s': "prepare (sample_env None) sample_flags sample_config \<lparr>rc_names = [], rc_hist = (ResponseDuration, 0), rc_ttl = None\<rparr> no_pingers = Inr s'"
    using sample_prepare by blast
  have "dns_ok (en_lookup (sample_env None))" using sample_lookup_ok by simp
  from prepare_exact [OF sample_config_ok this s'] s' show ?thesis
    by (auto simp: sample_flags_def list_all_iff sample_config_def sample_group_def sample_local_group_def)
qed

text \<open>
  The pingers start spread over the largest interval: what \<open>start\<close> sleeps between them adds up to
  no more than it, and it does not divide by zero.
\<close>

theorem pingers_start_spread:
  assumes "size_of_prepared s \<noteq> 0" and "0 \<le> sint (sp_max_interval s)" and "int (length (slice (sp_prepared s))) \<le> i64_max"
  shows "0 \<le> slept (fst (start_pingers s)) \<and> slept (fst (start_pingers s)) \<le> sint (sp_max_interval s)"
proof (cases "slice (sp_prepared s) = []")
  case True
  then show ?thesis using assms(2) by (simp add: start_pingers_events [OF assms(1)])
next
  case False
  let ?n = "length (slice (sp_prepared s))"
  have n: "0 < ?n" using False by simp
  have "int ?n * (sint (sp_max_interval s) div int ?n) \<le> sint (sp_max_interval s)"
    using n mult_div_mod_eq [of "int ?n" "sint (sp_max_interval s)"] pos_mod_sign [of "int ?n" "sint (sp_max_interval s)"]
    by linarith
  moreover have "0 \<le> int ?n * (sint (sp_max_interval s) div int ?n)"
    using n assms(2) by (simp add: pos_imp_zdiv_nonneg_iff)
  ultimately show ?thesis
    by (simp add: start_pingers_events [OF assms(1)] slept_runs pinger_splay_value [OF n assms(3,2)])
qed

lemma pingers_start_spread_witness:
  "slept (fst (start_pingers (no_pingers\<lparr>sp_prepared := Some (replicate 3 \<lparr>pr_pinger = sample_pinger ''h'', pr_labels = []\<rparr>),
     sp_max_interval := 1000000000\<rparr>) :: nat event list \<times> smoke_pingers)) \<le> 1000000000"
  by (rule order_trans [OF pingers_start_spread [THEN conjunct2]]) (simp_all add: size_of_prepared_def slice_def)

text \<open>
  C3: A prober that started stays consistent.  After any sequence of replies, errors, results,
  reloads that succeed and reloads whose file is rejected, the configuration is valid and has the
  label names of the start, what is registered is what the running pingers, recorders and the
  collector write to, and the metrics client has accepted every call and will accept those of the
  next handler or recorder: none has a wrong number of labels, registers a metric twice or with other
  label names, or meets a nil vector.  (A reload into other label names ends the process and is not
  among the steps; \<open>label_change_panics\<close> is about it.)
\<close>

theorem running_prober_consistent:
  assumes "startup e not_exist parse_float fl buckets factor = Some (Inr pb0)" and "(live_step envs fl bs factor)\<^sup>*\<^sup>* pb0 pb"
  shows "prober_ok pb \<and> log_ok (pb_metrics pb) \<and>
    build_label_names (sc_config (pb_config pb)) = build_label_names (sc_config (pb_config pb0)) \<and>
    accepted (on_recv (pb_collector pb) p pkt (pb_metrics pb)) \<and>
    accepted (on_duplicate_recv (pb_collector pb) p pkt (pb_metrics pb)) \<and>
    accepted (on_recv_error err (pb_metrics pb)) \<and> accepted (on_send_error (pb_collector pb) p pkt (pb_metrics pb)) \<and>
    list_all (\<lambda>r. accepted (record_result (rm_recorder r) t res (pb_metrics pb))) (sp_started_remote (pb_pingers pb))"
proof -
  have ok: "prober_ok pb0" by (rule startup_launches(2) [OF assms(1) refl])
  note l = live_ok [OF assms(2) ok] live_names [OF assms(2) ok]
  have w: "writers_ok pb" and so: "sound pb" using l(1) by (simp_all add: prober_ok_def)
  have "list_all (\<lambda>r. accepted (record_result (rm_recorder r) t res (pb_metrics pb))) (sp_started_remote (pb_pingers pb))"
    using recorder_plain [OF w] accepted_calls [OF so] by (auto simp: list_all_iff)
  with l handlers_plain [OF w] accepted_calls [OF so] sound_log [OF so] show ?thesis by blast
qed

lemma running_prober_consistent_witness:
  "\<exists>pb0 pb. sample_startup = Some (Inr pb0) \<and>
     (live_step {sample_env (Some sample_config)} sample_flags [0] 0)\<^sup>*\<^sup>* pb0 pb \<and> prober_ok pb \<and> log_ok (pb_metrics pb) \<and>
     sc_config (pb_config pb) = sample_config"
proof -
  obtain pb0 where pb0: "startup (sample_env (Some start_config)) (\<lambda>_. True) (\<lambda>_. Inr 0) sample_flags ''1'' 0 =
      Some (Inr pb0 :: (unit, unit, unit, unit, unit) failure + (nat, nat) prober)" "prober_ok pb0"
      "sc_config (pb_config pb0) = start_config"
    by (rule sample_prober)
  obtain pb where pb: "reload (sample_env (Some sample_config)) sample_flags [0] 0 pb0 =
      Some (None :: (unit, unit, unit, unit, unit) failure option, pb)"
    by (rule started_reload [OF pb0(2,3)])
  have "live_step {sample_env (Some sample_config)} sample_flags [0] 0 pb0 pb" by (rule live_reload [OF _ pb]) simp
  then have live: "(live_step {sample_env (Some sample_config)} sample_flags [0] 0)\<^sup>*\<^sup>* pb0 pb" by (rule r_into_rtranclp)
  have "sc_config (pb_config pb) = sample_config"
    using pb by (rule reload_succeeded) (simp add: sample_load [OF sample_config_ok])
  with live running_prober_consistent [OF pb0(1) live] pb0(1) show ?thesis by (auto simp: sample_startup_def)
qed

text \<open>
  C28: A reload that changes the label names ends the program.  In a prober that the metrics client has
  accepted so far a reload panics exactly if its file loads and its groups have other label names than
  the running configuration, whatever its preparation would give: the client keeps the label names of a
  metric for the life of the process, also after \<open>Unregister\<close>, and \<open>initMetrics\<close> registers the same
  metrics with the new ones.  So after any other reload the label names are the old ones.
\<close>

theorem label_change_panics:
  assumes "sound pb" and "reload e fl bs factor pb = r"
  shows "(r = None \<longleftrightarrow>
      (\<exists>c. load_config (en_open e) (en_decode e) (fl_config_file fl) = Inr c \<and>
        set (build_label_names c) \<noteq> set (build_label_names (sc_config (pb_config pb))))) \<and>
    (case r of
       None \<Rightarrow> True
     | Some (x, pb') \<Rightarrow> sound pb' \<and> build_label_names (sc_config (pb_config pb')) = build_label_names (sc_config (pb_config pb)))"
proof
  show "r = None \<longleftrightarrow>
      (\<exists>c. load_config (en_open e) (en_decode e) (fl_config_file fl) = Inr c \<and>
        set (build_label_names c) \<noteq> set (build_label_names (sc_config (pb_config pb))))"
    unfolding assms(2) [symmetric] reload_panics [OF assms(1)] label_names_iff ..
  show "case r of
       None \<Rightarrow> True
     | Some (x, pb') \<Rightarrow> sound pb' \<and> build_label_names (sc_config (pb_config pb')) = build_label_names (sc_config (pb_config pb))"
  proof (cases r)
    case (Some y)
    obtain x pb' where y: "y = (x, pb')" by (cases y)
    from reload_cases(1,4) [OF assms(1) assms(2) [unfolded Some y]] show ?thesis by (simp add: Some y)
  qed simp
qed

lemma label_change_panics_witness:
  "\<exists>pb. sample_startup = Some (Inr pb) \<and>
     reload (sample_env (Some plain_config)) sample_flags [0] 0 pb =
       (None :: ((unit, unit, unit, unit, unit) failure option \<times> _) option) \<and>
     reload (sample_env (Some sample_config)) sample_flags [0] 0 pb \<noteq>
       (None :: ((unit, unit, unit, unit, unit) failure option \<times> _) option)"
proof -
  obtain pb where pb: "sample_startup = Some (Inr pb)" "prober_ok pb" "sc_config (pb_config pb) = start_config"
    by (rule sample_prober) (simp add: sample_startup_def)
  have so: "sound pb" using pb(2) by (simp add: prober_ok_def)
  note l = label_change_panics [OF so refl, THEN conjunct1]
  have "''site'' \<notin> set base_label_names" by (simp add: base_label_names_def)
  then have "reload (sample_env (Some plain_config)) sample_flags [0] 0 pb =
       (None :: ((unit, unit, unit, unit, unit) failure option \<times> _) option)"
    unfolding l by (auto simp: sample_load [OF plain_config_ok] pb(3) sample_label_names)
  moreover have "reload (sample_env (Some sample_config)) sample_flags [0] 0 pb \<noteq>
       (None :: ((unit, unit, unit, unit, unit) failure option \<times> _) option)"
    unfolding l by (simp add: sample_load [OF sample_config_ok] pb(3) sample_label_names)
  ultimately show ?thesis using pb(1) by blast
qed

text \<open>
  C33: Reloads either end the process or keep the registry.  A sequence of reloads ends it exactly if
  one of the files that load has other label names than at startup; otherwise, whatever errors the
  reloads meet, preparations that fail included, exactly one histogram and one collector stay
  registered, the four other metrics are the current ones, all under the label names of the start, the
  calls on the metrics client are all accepted and the configuration is valid.
\<close>

theorem reloads_keep_registry:
  assumes "startup e not_exist parse_float fl buckets factor = Some (Inr pb)"
  shows "case reloads fl bs factor es pb of
      None \<Rightarrow> \<exists>e \<in> set es. \<exists>c. load_config (en_open e) (en_decode e) (fl_config_file fl) = Inr c \<and>
        build_label_names c \<noteq> build_label_names (sc_config (pb_config pb))
    | Some pb' \<Rightarrow>
        registry_ok pb' \<and> log_ok (pb_metrics pb') \<and> validate (sc_config (pb_config pb')) = Inr () \<and>
        labels_are (build_label_names (sc_config (pb_config pb))) (pb_metrics pb') \<and>
        list_all (\<lambda>e. case load_config (en_open e) (en_decode e) (fl_config_file fl) of
            Inl x \<Rightarrow> True | Inr c \<Rightarrow> build_label_names c = build_label_names (sc_config (pb_config pb))) es"
proof -
  have so: "sound pb" using startup_launches(2) [OF assms refl] by (simp add: prober_ok_def)
  note r = reloads_ok [OF so, of fl bs factor es]
  show ?thesis
  proof (cases "reloads fl bs factor es pb")
    case None
    then show ?thesis using r(2) by simp
  next
    case (Some pb')
    have s: "sound pb'" "build_label_names (sc_config (pb_config pb')) = build_label_names (sc_config (pb_config pb))"
      using r(1) [OF Some] by simp_all
    then have "registry_ok pb' \<and> log_ok (pb_metrics pb') \<and> validate (sc_config (pb_config pb')) = Inr () \<and>
        labels_are (build_label_names (sc_config (pb_config pb))) (pb_metrics pb')"
      using sound_log [OF s(1)] by (simp add: sound_def validate_Inr)
    moreover have "list_all (\<lambda>e. case load_config (en_open e) (en_decode e) (fl_config_file fl) of
            Inl x \<Rightarrow> True | Inr c \<Rightarrow> build_label_names c = build_label_names (sc_config (pb_config pb))) es"
      using r(2) Some by (auto simp: list_all_iff split: sum.split)
    ultimately show ?thesis by (simp add: Some)
  qed
qed

lemma reloads_keep_registry_witness:
  "\<exists>pb pb'. sample_startup = Some (Inr pb) \<and>
     reloads sample_flags [0] 0 [sample_env (Some small_config), sample_env None, sample_env (Some sample_config)] pb = Some pb' \<and>
     registry_ok pb' \<and> log_ok (pb_metrics pb') \<and>
     reloads sample_flags [0] 0 [sample_env (Some small_config), sample_env (Some plain_config)] pb = None"
proof -
  obtain pb where pb: "startup (sample_env (Some start_config)) (\<lambda>_. True) (\<lambda>_. Inr 0) sample_flags ''1'' 0 =
      Some (Inr pb :: (unit, unit, unit, unit, unit) failure + (nat, nat) prober)" "prober_ok pb"
      "sc_config (pb_config pb) = start_config" by (rule sample_prober)
  note r = reloads_keep_registry [OF pb(1), where bs = "[0]", unfolded pb(3)]
  let ?es = "[sample_env (Some small_config), sample_env None, sample_env (Some sample_config)]"
  have "load_config (en_open (sample_env None)) (en_decode (sample_env None)) (fl_config_file sample_flags) = Inl (ReadError ())"
    by (simp add: load_config_def sample_env_def)
  then have "reloads sample_flags [0] 0 ?es pb \<noteq> None"
    using r [where es = ?es] sample_label_names
    by (cases "reloads sample_flags [0] 0 ?es pb")
      (simp_all add: sample_load [OF small_config_ok] sample_load [OF sample_config_ok] del: reloads.simps)
  then obtain pb' where es: "reloads sample_flags [0] 0 ?es pb = Some pb'" by blast
  have "registry_ok pb' \<and> log_ok (pb_metrics pb')" using r [where es = ?es] unfolding es by simp
  moreover have "reloads sample_flags [0] 0 [sample_env (Some small_config), sample_env (Some plain_config)] pb = None"
    using r [where es = "[sample_env (Some small_config), sample_env (Some plain_config)]"] sample_label_names
    by (cases "reloads sample_flags [0] 0 [sample_env (Some small_config), sample_env (Some plain_config)] pb")
      (simp_all add: sample_load [OF plain_config_ok] sample_load [OF small_config_ok] del: reloads.simps)
  ultimately show ?thesis using es pb(1) unfolding sample_startup_def by blast
qed

text \<open>
  A file that cannot be read, decoded or validated changes nothing but the gauge of the last
  reload: pingers, schedulers, metrics and configuration stay as they were.
\<close>

theorem rejected_file_keeps_prober:
  assumes "prober_ok pb" and "reload e fl bs factor pb = Some (Some (ConfigFailed x), pb')"
  shows "pb' = pb\<lparr>pb_config := (pb_config pb)\<lparr>sc_success := Some 0\<rparr>\<rparr> \<and> prober_ok pb'"
proof -
  have "sound pb" using assms(1) by (simp add: prober_ok_def)
  from reload_cases(3) [OF this assms(2) refl] show ?thesis using kept_ok [OF assms(1)] by simp
qed

text \<open>
  C6: A reload that fails in its preparation does not leave the old prober running as it was.  The
  same pingers and schedulers go on and the old collector stays registered, but the histogram they
  write to no longer is: the new one is registered in its place, and nothing writes to it.  The
  handlers do not panic; the next echo reply is observed in the old histogram only, so no scrape sees
  it, while the packets are still counted as sent.
\<close>

theorem failed_preparation_detaches:
  assumes "prober_ok pb" and "reload e fl bs factor pb = Some (Some (PrepareFailed x), pb')"
  shows "pb_pingers pb' = pb_pingers pb \<and> pb_collector pb' = pb_collector pb \<and>
    cl_id (pb_collector pb') \<in> registered (pb_metrics pb') \<and> pb_hist pb' \<in> registered (pb_metrics pb') \<and>
    cl_hist (pb_collector pb') \<notin> registered (pb_metrics pb') \<and>
    list_all (\<lambda>r. rc_hist (rm_recorder r) \<notin> registered (pb_metrics pb')) (sp_started_remote (pb_pingers pb')) \<and>
    (\<exists>m. on_recv (pb_collector pb') p pkt (pb_metrics pb') = Some m \<and> log_ok m \<and>
      (\<forall>vals. observations (pb_hist pb') vals (mt_calls m) = observations (pb_hist pb') vals (mt_calls (pb_metrics pb'))))"
proof -
  obtain sc hist m where m: "pb' = revectored sc hist m pb" "metrics_ok m" "sound pb'"
    "current_ok (length (build_label_names (sc_config sc))) m" "pb_hist pb \<notin> registered m"
    "arity m (pb_hist pb) = arity (pb_metrics pb) (pb_hist pb)"
    "cl_id (pb_collector pb) \<in> registered m" "hist \<in> registered m"
    "build_label_names (sc_config sc) = build_label_names (sc_config (pb_config pb))"
    using assms by (rule reload_prepare_failed)
  let ?c = "pb_collector pb"
  have w: "cl_names ?c = build_label_names (sc_config (pb_config pb))" "cl_hist ?c = pb_hist pb"
    "arity (pb_metrics pb) (pb_hist pb) = Some (length (cl_names ?c))"
    and rec: "\<forall>r \<in> set (sp_started_remote (pb_pingers pb)). rc_hist (rm_recorder r) = pb_hist pb"
    using assms(1) by (auto simp: prober_ok_def writers_ok_def Let_def)
  have pb': "pb_metrics pb' = m" "pb_hist pb' = hist" "pb_pingers pb' = pb_pingers pb" "pb_collector pb' = ?c"
    by (simp_all add: m(1) revectored_def)
  have "current_ok (length (cl_names ?c)) m" "arity m (cl_hist ?c) = Some (length (cl_names ?c))"
    using m(4,6,9) w by simp_all
  from handlers_plain_at(1) [OF this] obtain cs where
    cs: "on_recv ?c p pkt m = Some (emit cs m)" "plain_calls (arity m) cs" by blast
  have "log_ok (emit cs m)" using accepted_calls [OF m(3)] cs by (fastforce simp: pb' accepted_def)
  moreover have "cl_hist ?c \<noteq> hist" using m(5,8) w(2) by auto
  then have "observations hist vals (mt_calls (emit cs m)) = observations hist vals (mt_calls m)" for vals
    by (rule on_recv_observes [OF cs(1)])
  ultimately show ?thesis using m(5,7,8) w(2) rec cs(1) by (simp add: pb' list_all_iff)
qed

lemma failed_preparation_detaches_witness:
  "\<exists>pb pb'. sample_startup = Some (Inr pb) \<and>
     reload (sample_env (Some small_config)) sample_flags [0] 0 pb =
       Some (Some (PrepareFailed (BadPacketSize 8)) :: (unit, unit, unit, unit, unit) failure option, pb') \<and>
     slice (sp_started (pb_pingers pb')) \<noteq> [] \<and> cl_hist (pb_collector pb') \<notin> registered (pb_metrics pb')"
proof -
  obtain pb where pb: "startup (sample_env (Some start_config)) (\<lambda>_. True) (\<lambda>_. Inr 0) sample_flags ''1'' 0 =
      Some (Inr pb :: (unit, unit, unit, unit, unit) failure + (nat, nat) prober)" "prober_ok pb"
      "sc_config (pb_config pb) = start_config" by (rule sample_prober)
  have so: "sound pb" using pb(2) by (simp add: prober_ok_def)
  obtain pb' where r: "reload (sample_env (Some small_config)) sample_flags [0] 0 pb =
       Some (Some (PrepareFailed (BadPacketSize 8)) :: (unit, unit, unit, unit, unit) failure option, pb')"
    by (rule small_reload [OF so]) (simp add: pb(3) sample_label_names)
  note f = failed_preparation_detaches [OF pb(2) r, of undefined undefined]
  have "slice (sp_started (pb_pingers pb)) \<noteq> []" by (rule sample_started [OF pb(1)])
  with f r pb(1) show ?thesis by (auto simp: sample_startup_def)
qed

text \<open>
  C27: The order of a reload that succeeds, to the call.  The old histogram and vectors are
  unregistered and the new ones made and registered; then the old schedulers are stopped, and the
  old pingers, and waited for; then the new pingers run, with a pause after each; then the old collector
  is unregistered and the new one made, which resets the new vectors and makes the series of all probes
  and targets, and registered; and only then the new schedulers start, so that none of their results
  can be reset.
\<close>

theorem reload_order:
  assumes "reload e fl bs factor pb = Some (None, pb')"
  shows "let names = build_label_names (sc_config (pb_config pb'));
      old = pb_pingers pb; new = pb_pingers pb'; c = pb_collector pb' in
    pb_log pb' = pb_log pb @
      map Call (Unregister (pb_hist pb) # setup_calls (pb_metrics pb) names bs factor) @
      map SchedulerStopped (sp_started_remote old) @
      (if sp_running old \<and> sp_started old \<noteq> None
       then map (\<lambda>p. PingerStopped (pr_pinger p)) (slice (sp_started old)) @ [PingersWaited] else []) @
      concat (map (\<lambda>p. [PingerRuns (pr_pinger p), Slept (pinger_splay (sp_max_interval new) (length (slice (sp_started new))))])
        (slice (sp_started new))) @
      map Call ([Unregister (cl_id (pb_collector pb)), NewDesc (cl_id c) names] @
        update_calls (pb_metrics pb') names (slice (sp_started new)) (remote_targets new) (pb_hist pb') @
        [Register (cl_id c)]) @
      map SchedulerStarted (sp_started_remote new)"
proof -
  obtain c sc hist m s where c: "sc_config sc = c" "pb_config pb' = sc"
    and su: "setup_vectors (build_label_names c) bs factor (emit [Unregister (pb_hist pb)] (pb_metrics pb)) = (hist, m)"
    and s: "prepare e fl c (new_remote_recorder (build_label_names c) hist m) (pb_pingers pb) = Inr s"
      "size_of_prepared s \<noteq> 0"
    and l: "launch sc (pb_log pb @ calls_since (pb_metrics pb) m) (build_label_names c) hist m
      (\<lambda>m. emit [Unregister (cl_id (pb_collector pb))] m) s = Some pb'"
    using assms by (rule reload_succeeded)
  note ll = launch_log [OF l s(2)] and lc = launch_calls [OF l s(2)]
  have st: "sp_started_remote s = sp_started_remote (pb_pingers pb)" "sp_started s = sp_started (pb_pingers pb)"
    "sp_running s = sp_running (pb_pingers pb)"
    using prepare_recorders(2,3) [OF s(1)] prepare_running [OF s(1)] by simp_all
  have "calls_since (pb_metrics pb) m = map Call (Unregister (pb_hist pb) # setup_calls (pb_metrics pb) (build_label_names c) bs factor)"
    by (simp add: calls_since_def setup_vectors_calls(1) [OF su] setup_calls_emit)
  moreover have "calls_since m (pb_metrics pb') =
      map Call ([Unregister (cl_id (pb_collector pb)), NewDesc (cl_id (pb_collector pb')) (build_label_names c)] @
        update_calls (pb_metrics pb') (build_label_names c) (slice (sp_started (pb_pingers pb'))) (remote_targets (pb_pingers pb'))
          (pb_hist pb') @ [Register (cl_id (pb_collector pb'))])"
    by (simp add: calls_since_def lc(1))
  ultimately show ?thesis
    using ll(1) by (simp add: Let_def c ll(2) lc(2,3) st stop_pingers_def)
qed

lemma reload_order_witness:
  "\<exists>pb pb' evs calls. sample_startup = Some (Inr pb) \<and>
     reload (sample_env (Some sample_config)) sample_flags [0] 0 pb =
       Some (None :: (unit, unit, unit, unit, unit) failure option, pb') \<and>
     pb_log pb' = evs @ map Call (calls @ [Register (cl_id (pb_collector pb'))]) @ map SchedulerStarted (sp_started_remote (pb_pingers pb'))"
proof -
  obtain pb where pb: "startup (sample_env (Some start_config)) (\<lambda>_. True) (\<lambda>_. Inr 0) sample_flags ''1'' 0 =
      Some (Inr pb :: (unit, unit, unit, unit, unit) failure + (nat, nat) prober)" "prober_ok pb"
      "sc_config (pb_config pb) = start_config" by (rule sample_prober)
  obtain pb' where r: "reload (sample_env (Some sample_config)) sample_flags [0] 0 pb =
      Some (None :: (unit, unit, unit, unit, unit) failure option, pb')" by (rule started_reload [OF pb(2,3)])
  obtain evs calls where "pb_log pb' = evs @ map Call (calls @ [Register (cl_id (pb_collector pb'))]) @
      map SchedulerStarted (sp_started_remote (pb_pingers pb'))"
    by (metis reload_order [OF r, unfolded Let_def] append.assoc)
  with r pb(1) show ?thesis unfolding sample_startup_def by blast
qed

section \<open>Requests\<close>








end
