(* ===== verification/Reloading_Spec.thy ===== *)
theory Reloading_Spec
  imports Reloading Prober_Theorems
begin

text \<open>
  What the interleaved reload guarantees.  Left alone it is the reload of \<open>Prober\<close>, panics included;
  whatever arrives meanwhile, the library's registry stays consistent and every vector that a handler
  or a recorder uses has the number of labels they pass.
\<close>

section \<open>The reload in one go\<close>

lemma after_start_fields:
  assumes "size_of_prepared s \<noteq> 0"
  shows "sp_started (after_start s) = sp_prepared s" and "sp_started_remote (after_start s) = sp_prepared_remote s"
    and "sp_prepared_remote (after_start s) = []"
  using assms by (simp_all add: after_start_def start_pingers_def stop_pingers_def Let_def)

lemma after_start_any: "snd (start_pingers s :: 'f event list \<times> smoke_pingers) = after_start s"
  by (simp add: after_start_def start_pingers_def stop_pingers_def Let_def)

lemma stop_all:
  "lv_pc lv = Stopping names \<Longrightarrow> (reload_step envs fl bs factor)\<^sup>*\<^sup>* lv (lv\<lparr>lv_scheds := []\<rparr>)"
proof (induction "lv_scheds lv" arbitrary: lv)
  case Nil
  then show ?case by (simp add: Nil)
next
  case (Cons r rs)
  have "reload_step envs fl bs factor lv (lv\<lparr>lv_scheds := rs\<rparr>)"
    by (rule stops_scheduler [OF Cons.prems Cons.hyps(2) [symmetric]])
  moreover have "(reload_step envs fl bs factor)\<^sup>*\<^sup>* (lv\<lparr>lv_scheds := rs\<rparr>) (lv\<lparr>lv_scheds := rs\<rparr>\<lparr>lv_scheds := []\<rparr>)"
    by (rule Cons.hyps(1)) (simp_all add: Cons.prems)
  ultimately show ?case by (simp add: converse_rtranclp_into_rtranclp)
qed

lemma live_update_same:
  "lv_running lv = xs \<Longrightarrow> lv\<lparr>lv_running := xs\<rparr> = lv" "lv_scheds lv = rs \<Longrightarrow> lv\<lparr>lv_scheds := rs\<rparr> = lv"
  by (cases lv, simp)+

lemma run_all:
  assumes "lv_pc lv = Starting names"
    and "lv_running lv = map (\<lambda>p. (p, None, True)) (take k (slice (sp_started (lv_pingers lv))))"
    and "k \<le> length (slice (sp_started (lv_pingers lv)))"
  shows "(reload_step envs fl bs factor)\<^sup>*\<^sup>* lv
     (lv\<lparr>lv_running := map (\<lambda>p. (p, None, True)) (slice (sp_started (lv_pingers lv)))\<rparr>)"
  using assms
proof (induction "length (slice (sp_started (lv_pingers lv))) - k" arbitrary: k lv)
  case 0
  then show ?case by (simp add: live_update_same)
next
  case (Suc d)
  let ?ps = "slice (sp_started (lv_pingers lv))"
  have k: "k < length ?ps" using Suc.hyps(2) by simp
  let ?lv = "lv\<lparr>lv_running := lv_running lv @ [(?ps ! length (lv_running lv), None, True)]\<rparr>"
  have "reload_step envs fl bs factor lv ?lv" by (rule runs_pinger [OF Suc.prems(1)]) (use Suc.prems k in simp)
  moreover have "(reload_step envs fl bs factor)\<^sup>*\<^sup>* ?lv
     (?lv\<lparr>lv_running := map (\<lambda>p. (p, None, True)) (slice (sp_started (lv_pingers ?lv)))\<rparr>)"
    by (rule Suc.hyps(1) [of ?lv "Suc k"]) (use Suc.hyps(2) Suc.prems k in \<open>simp_all add: take_Suc_conv_app_nth\<close>)
  ultimately show ?case by (simp add: converse_rtranclp_into_rtranclp)
qed

lemma start_all:
  assumes "lv_pc lv = Serving" and "lv_scheds lv = take k (sp_started_remote (lv_pingers lv))"
    and "k \<le> length (sp_started_remote (lv_pingers lv))"
  shows "(reload_step envs fl bs factor)\<^sup>*\<^sup>* lv
     (lv\<lparr>lv_scheds := sp_started_remote (lv_pingers lv), lv_pc := Listening\<rparr>)"
  using assms
proof (induction "length (sp_started_remote (lv_pingers lv)) - k" arbitrary: k lv)
  case 0
  then have "reload_step envs fl bs factor lv (lv\<lparr>lv_pc := Listening\<rparr>)" by (intro finishes) simp_all
  with 0 show ?case by (simp add: live_update_same)
next
  case (Suc d)
  let ?rs = "sp_started_remote (lv_pingers lv)"
  have k: "k < length ?rs" using Suc.hyps(2) by simp
  let ?lv = "lv\<lparr>lv_scheds := lv_scheds lv @ [?rs ! length (lv_scheds lv)]\<rparr>"
  have "reload_step envs fl bs factor lv ?lv" by (rule starts_scheduler [OF Suc.prems(1)]) (use Suc.prems k in simp)
  moreover have "(reload_step envs fl bs factor)\<^sup>*\<^sup>* ?lv
     (?lv\<lparr>lv_scheds := sp_started_remote (lv_pingers ?lv), lv_pc := Listening\<rparr>)"
    by (rule Suc.hyps(1) [of ?lv "Suc k"]) (use Suc.hyps(2) Suc.prems k in \<open>simp_all add: take_Suc_conv_app_nth\<close>)
  ultimately show ?case by (simp add: converse_rtranclp_into_rtranclp)
qed

text \<open>From the first statement of a reload that loads to its failure or its preparation.\<close>

lemma reload_first_steps:
  assumes "e \<in> envs" and "lv_pc lv = Listening"
    and "reload_config (en_open e) (en_decode e) (en_now e) (lv_config lv) (fl_config_file fl) = (None, sc)"
    and "names = build_label_names (sc_config sc)"
    and "setup_vectors names bs factor (emit [Unregister (lv_hist lv)] (lv_metrics lv)) = (hist, m)" and "log_ok m"
  shows "(reload_step envs fl bs factor)\<^sup>*\<^sup>* lv
    (lv\<lparr>lv_config := sc, lv_pc := Revectored names, lv_metrics := m, lv_hist := hist\<rparr>)"
proof -
  let ?lv = "lv\<lparr>lv_pc := Loaded, lv_config := sc\<rparr>"
  have "reload_step envs fl bs factor lv ?lv" by (rule loads [OF assms(2,1,3)])
  moreover have "reload_step envs fl bs factor ?lv (?lv\<lparr>lv_pc := Revectored names, lv_metrics := m, lv_hist := hist\<rparr>)"
    by (rule makes_vectors) (use assms(4-6) in simp_all)
  ultimately show ?thesis by (simp add: converse_rtranclp_into_rtranclp)
qed

text \<open>
  From a preparation with targets to the moment when the new pingers run, and from there to the end
  of the reload.
\<close>

definition launched :: "string list \<Rightarrow> ('f, 't) live \<Rightarrow> ('f, 't) live" where
  "launched names lv =
     (let s = after_start (lv_pingers lv) in
      lv\<lparr>lv_scheds := [], lv_pc := Starting names, lv_pingers := s,
         lv_running := map (\<lambda>p. (p, None, True)) (slice (sp_started s))\<rparr>)"

lemma reload_run_steps:
  assumes "lv_pc lv = Stopping names"
  shows "(reload_step envs fl bs factor)\<^sup>*\<^sup>* lv (launched names lv)"
proof -
  let ?s = "after_start (lv_pingers lv)" and ?l1 = "lv\<lparr>lv_scheds := []\<rparr>"
  let ?l2 = "?l1\<lparr>lv_pc := Starting names, lv_pingers := ?s, lv_running := []\<rparr>"
  have "(reload_step envs fl bs factor)\<^sup>*\<^sup>* lv ?l1" by (rule stop_all [OF assms(1)])
  also have "reload_step envs fl bs factor ?l1 (?l1\<lparr>lv_pc := Starting names, lv_pingers := after_start (lv_pingers ?l1), lv_running := []\<rparr>)"
    by (rule stops_pingers) (simp_all add: assms(1))
  then have "reload_step envs fl bs factor ?l1 ?l2" by simp
  also have "(reload_step envs fl bs factor)\<^sup>*\<^sup>* ?l2 (launched names lv)"
    using run_all [of ?l2 names 0] by (simp add: launched_def Let_def)
  finally show ?thesis .
qed

lemma reload_serve_steps:
  fixes lv :: "('f, 't) live"
  assumes "launch (lv_config lv) lg names (lv_hist lv) (lv_metrics lv)
      (\<lambda>m. emit [Unregister (cl_id (lv_collector lv))] m) (lv_pingers lv) = Some pb"
    and "lv_errors lv = 0"
  shows "(reload_step envs fl bs factor)\<^sup>*\<^sup>* ((launched names lv)\<lparr>lv_lost := k\<rparr>) (live_of k pb)"
proof -
  let ?s = "after_start (lv_pingers lv)" and ?l3 = "(launched names lv)\<lparr>lv_lost := k\<rparr>"
  obtain evs where sp: "start_pingers (lv_pingers lv) = (evs :: 'f event list, ?s)"
    using after_start_any [of "lv_pingers lv"] by (metis prod.collapse)
  obtain c m2 where nc: "new_collector (slice (sp_started ?s)) (remote_targets ?s) names (lv_hist lv)
      (emit [Unregister (cl_id (lv_collector lv))] (lv_metrics lv)) = Some (c, m2)"
    and pb: "pb_config pb = lv_config lv" "pb_metrics pb = emit [Register (cl_id c)] m2" "pb_hist pb = lv_hist lv"
      "pb_pingers pb = ?s" "pb_collector pb = c" and log: "log_ok (emit [Register (cl_id c)] m2)"
    using assms(1) by (auto simp: launch_def Let_def sp split: option.splits if_splits)
  let ?l4 = "?l3\<lparr>lv_pc := Serving, lv_metrics := emit [Register (cl_id c)] m2, lv_collector := c,
      lv_running := map (\<lambda>p. (p, Some c, True)) (slice (sp_started ?s))\<rparr>"
  have "reload_step envs fl bs factor ?l3 (?l3\<lparr>lv_pc := Serving, lv_metrics := emit [Register (cl_id c)] m2,
      lv_collector := c, lv_running := map (\<lambda>(p, _, b). (p, Some c, b)) (lv_running ?l3)\<rparr>)"
    by (rule makes_collector [OF _ _ _ log]) (use nc in \<open>simp_all add: launched_def Let_def\<close>)
  then have "reload_step envs fl bs factor ?l3 ?l4" by (simp add: comp_def launched_def Let_def)
  also have "(reload_step envs fl bs factor)\<^sup>*\<^sup>* ?l4 (?l4\<lparr>lv_scheds := sp_started_remote ?s, lv_pc := Listening\<rparr>)"
    using start_all [of ?l4 0] by (simp add: launched_def Let_def)
  also have "?l4\<lparr>lv_scheds := sp_started_remote ?s, lv_pc := Listening\<rparr> = live_of k pb"
    by (simp add: live_of_def pb launched_def Let_def assms(2))
  finally show ?thesis .
qed

lemma launch_pingers:
  assumes "launch sc lg names hist m unregister s = Some (pb :: ('f, 't) prober)"
  shows "pb_pingers pb = after_start s"
proof -
  obtain evs s' where s': "start_pingers s = (evs :: 'f event list, s')" by (cases "start_pingers s :: 'f event list \<times> _")
  then have "s' = after_start s" using after_start_any [of s] by (metis snd_conv)
  then show ?thesis using assms s' by (auto simp: launch_def Let_def split: option.splits if_splits)
qed

lemma reload_launch_steps:
  fixes pb :: "('f, 't) prober"
  assumes "e \<in> envs" and "reload e fl bs factor pb = Some (None, pb')"
  obtains names and lv :: "('f, 't) live" where
    "(reload_step envs fl bs factor)\<^sup>*\<^sup>* (live_of k pb) (launched names lv)"
    and "\<forall>j. (reload_step envs fl bs factor)\<^sup>*\<^sup>* ((launched names lv)\<lparr>lv_lost := j\<rparr>) (live_of j pb')"
    and "lv_lost (launched names lv) = k"
    and "lv_running (launched names lv) = map (\<lambda>p. (p, None, True)) (slice (sp_started (pb_pingers pb')))"
proof -
  let ?lv = "live_of k pb"
  obtain err sc where rc: "reload_config (en_open e) (en_decode e) (en_now e) (pb_config pb) (fl_config_file fl) = (err, sc)"
    by (cases "reload_config (en_open e) (en_decode e) (en_now e) (pb_config pb) (fl_config_file fl)")
  have "err = None" using assms(2) rc by (cases err) (simp_all add: reload_config_failed)
  note rc = rc [unfolded this]
  let ?names = "build_label_names (sc_config sc)"
  obtain hist m where su: "setup_vectors ?names bs factor (emit [Unregister (pb_hist pb)] (pb_metrics pb)) = (hist, m)"
    by (cases "setup_vectors ?names bs factor (emit [Unregister (pb_hist pb)] (pb_metrics pb))")
  obtain s where s: "prepare e fl (sc_config sc) (new_remote_recorder ?names hist m) (pb_pingers pb) = Inr s" "size_of_prepared s \<noteq> 0"
    and l: "launch sc (pb_log pb @ calls_since (pb_metrics pb) m) ?names hist m
      (\<lambda>m. emit [Unregister (cl_id (pb_collector pb))] m) s = Some pb'"
    and log: "log_ok m"
    using assms(2) unfolding reload_loaded [OF rc refl su refl] by (auto split: sum.splits if_splits)
  let ?l1 = "?lv\<lparr>lv_config := sc, lv_pc := Revectored ?names, lv_metrics := m, lv_hist := hist\<rparr>"
  let ?l2 = "?l1\<lparr>lv_pc := Stopping ?names, lv_pingers := s\<rparr>"
  have s1: "(reload_step envs fl bs factor)\<^sup>*\<^sup>* ?lv ?l1"
    by (rule reload_first_steps [OF assms(1) _ _ refl _ log]) (use rc su in \<open>simp_all add: live_of_def\<close>)
  have s2: "reload_step envs fl bs factor ?l1 ?l2"
    by (rule prepares [OF _ assms(1)]) (use s in \<open>simp_all add: live_of_def\<close>)
  have s3: "(reload_step envs fl bs factor)\<^sup>*\<^sup>* ?l2 (launched ?names ?l2)" by (rule reload_run_steps) simp
  have s4: "(reload_step envs fl bs factor)\<^sup>*\<^sup>* ((launched ?names ?l2)\<lparr>lv_lost := j\<rparr>) (live_of j pb')" for j
    using l by (intro reload_serve_steps) (auto simp: live_of_def)
  have pingers: "pb_pingers pb' = after_start s"
    by (rule launch_pingers [OF l])
  show ?thesis
    by (rule that [OF rtranclp_trans [OF s1 converse_rtranclp_into_rtranclp [OF s2 s3]] allI [OF s4]])
      (simp_all add: launched_def live_of_def Let_def pingers)
qed

text \<open>A reload that fails stops at the statement that failed.\<close>

lemma reload_failed_steps:
  assumes "e \<in> envs" and "reload e fl bs factor pb = Some (Some y, pb')"
  shows "(reload_step envs fl bs factor)\<^sup>*\<^sup>* (live_of k pb) (live_of k pb')"
proof -
  let ?lv = "live_of k pb"
  obtain err sc where rc: "reload_config (en_open e) (en_decode e) (en_now e) (pb_config pb) (fl_config_file fl) = (err, sc)"
    by (cases "reload_config (en_open e) (en_decode e) (en_now e) (pb_config pb) (fl_config_file fl)")
  show ?thesis
  proof (cases err)
    case (Some x)
    have "reload_step envs fl bs factor ?lv (?lv\<lparr>lv_config := sc\<rparr>)"
      by (rule rejects [OF _ assms(1)]) (use rc Some in \<open>simp_all add: live_of_def\<close>)
    moreover have "?lv\<lparr>lv_config := sc\<rparr> = live_of k pb'"
      using assms(2) by (simp add: reload_config_failed [OF rc [unfolded Some]] live_of_def) (auto simp: live_of_def)
    ultimately show ?thesis by (simp add: r_into_rtranclp)
  next
    case None
    let ?names = "build_label_names (sc_config sc)"
    obtain hist m where su: "setup_vectors ?names bs factor (emit [Unregister (pb_hist pb)] (pb_metrics pb)) = (hist, m)"
      by (cases "setup_vectors ?names bs factor (emit [Unregister (pb_hist pb)] (pb_metrics pb))")
    note re = reload_loaded [OF rc [unfolded None] refl su refl]
    have log: "log_ok m" using assms(2) by (auto simp: re split: if_splits)
    let ?l1 = "?lv\<lparr>lv_config := sc, lv_pc := Revectored ?names, lv_metrics := m, lv_hist := hist\<rparr>"
    have "(reload_step envs fl bs factor)\<^sup>*\<^sup>* ?lv ?l1"
      by (rule reload_first_steps [OF assms(1) _ _ refl _ log]) (use rc None su in \<open>simp_all add: live_of_def\<close>)
    also have "reload_step envs fl bs factor ?l1 (live_of k pb')"
    proof (cases "prepare e fl (sc_config sc) (new_remote_recorder ?names hist m) (pb_pingers pb)")
      case (Inl x)
      have "reload_step envs fl bs factor ?l1 (?l1\<lparr>lv_pc := Listening\<rparr>)"
        by (rule fails [OF _ assms(1)]) (use Inl in \<open>simp_all add: live_of_def\<close>)
      moreover have "?l1\<lparr>lv_pc := Listening\<rparr> = live_of k pb'"
        using assms(2) Inl log by (auto simp: re live_of_def revectored_def)
      ultimately show ?thesis by simp
    next
      case (Inr s)
      have s: "sp_started s = sp_started (pb_pingers pb)" "sp_started_remote s = sp_started_remote (pb_pingers pb)"
        using prepare_recorders(2,3) [OF Inr] by simp_all
      have none: "size_of_prepared s = 0"
        using assms(2) Inr log by (auto simp: re split: if_splits)
      have "reload_step envs fl bs factor ?l1 (?l1\<lparr>lv_pc := Listening, lv_pingers := s\<rparr>)"
        by (rule has_no_targets [OF _ assms(1)]) (use Inr none in \<open>simp_all add: live_of_def\<close>)
      moreover have "?l1\<lparr>lv_pc := Listening, lv_pingers := s\<rparr> = live_of k pb'"
        using assms(2) Inr none s log by (auto simp: re live_of_def revectored_def)
      ultimately show ?thesis by simp
    qed
    finally show ?thesis .
  qed
qed

text \<open>A reload that panics, ends the process at the registration that was refused.\<close>

lemma reload_panic_steps:
  assumes "sound pb" and "e \<in> envs" and "reload e fl bs factor pb = None"
  shows "\<exists>lv. (reload_step envs fl bs factor)\<^sup>*\<^sup>* (live_of k pb) lv \<and> lv_pc lv = Crashed"
proof -
  let ?lv = "live_of k pb"
  obtain c where c: "load_config (en_open e) (en_decode e) (fl_config_file fl) = Inr c"
      "build_label_names c \<noteq> build_label_names (sc_config (pb_config pb))"
    using assms(3) unfolding reload_panics [OF assms(1)] by blast
  define sc where "sc = (pb_config pb)\<lparr>sc_config := c, sc_success := Some 1, sc_seconds := Some (en_now e)\<rparr>"
  have rc: "reload_config (en_open e) (en_decode e) (en_now e) (lv_config ?lv) (fl_config_file fl) = (None, sc)"
    using c(1) by (simp add: reload_config_def live_of_def sc_def)
  obtain hist m where su: "setup_vectors (build_label_names c) bs factor (emit [Unregister (pb_hist pb)] (pb_metrics pb)) = (hist, m)"
    by (cases "setup_vectors (build_label_names c) bs factor (emit [Unregister (pb_hist pb)] (pb_metrics pb))")
  have "\<not> log_ok m" using reload_vectors_labels(1) [OF assms(1) su] c(2) by simp
  then have "reload_step envs fl bs factor (?lv\<lparr>lv_pc := Loaded, lv_config := sc\<rparr>) (?lv\<lparr>lv_pc := Loaded, lv_config := sc\<rparr>\<lparr>lv_pc := Crashed\<rparr>)"
    by (intro refuses_vectors [OF _ refl]) (use su in \<open>simp_all add: live_of_def sc_def\<close>)
  moreover have "reload_step envs fl bs factor ?lv (?lv\<lparr>lv_pc := Loaded, lv_config := sc\<rparr>)"
    by (rule loads [OF _ assms(2) rc]) (simp add: live_of_def)
  ultimately have "(reload_step envs fl bs factor)\<^sup>*\<^sup>* ?lv (?lv\<lparr>lv_pc := Loaded, lv_config := sc\<rparr>\<lparr>lv_pc := Crashed\<rparr>)"
    by (meson converse_rtranclp_into_rtranclp r_into_rtranclp)
  then show ?thesis by (intro exI conjI) (assumption, simp)
qed

lemma reload_steps:
  fixes pb :: "('f, 't) prober"
  assumes "e \<in> envs" and "reload e fl bs factor pb = Some (r, pb')"
  shows "(reload_step envs fl bs factor)\<^sup>*\<^sup>* (live_of k pb) (live_of k pb')"
proof (cases r)
  case None
  obtain names and lv :: "('f, 't) live" where
    l: "(reload_step envs fl bs factor)\<^sup>*\<^sup>* (live_of k pb) (launched names lv)"
      "\<forall>j. (reload_step envs fl bs factor)\<^sup>*\<^sup>* ((launched names lv)\<lparr>lv_lost := j\<rparr>) (live_of j pb')"
      "lv_lost (launched names lv) = k"
      "lv_running (launched names lv) = map (\<lambda>p. (p, None, True)) (slice (sp_started (pb_pingers pb')))"
    by (rule reload_launch_steps [OF assms(1) assms(2) [unfolded None], of k])
  have "(launched names lv)\<lparr>lv_lost := k\<rparr> = launched names lv" using l(3) by (cases "launched names lv") simp
  with l(1,2) show ?thesis by (metis rtranclp_trans)
next
  case (Some y)
  show ?thesis by (rule reload_failed_steps [OF assms(1) assms(2) [unfolded Some]])
qed

section \<open>The invariant of every interleaving\<close>

text \<open>The program between two statements, as a prober; its log is not needed here.\<close>

definition snapshot :: "('f, 't) live \<Rightarrow> ('f, 't) prober" where
  "snapshot lv =
     \<lparr>pb_config = lv_config lv, pb_metrics = lv_metrics lv, pb_hist = lv_hist lv, pb_pingers = lv_pingers lv,
      pb_collector = lv_collector lv, pb_log = []\<rparr>"

definition vectors_for :: "string list \<Rightarrow> ('f, 't) live \<Rightarrow> bool" where
  "vectors_for names lv \<longleftrightarrow>
     current_ok (length names) (lv_metrics lv) \<and> arity (lv_metrics lv) (lv_hist lv) = Some (length names)"

definition handlers :: "('f, 't) live \<Rightarrow> collector set" where
  "handlers lv = {c. \<exists>p b. (p, Some c, b) \<in> set (lv_running lv)}"

definition recorders :: "('f, 't) live \<Rightarrow> recorder set" where
  "recorders lv = rm_recorder `
     (set (lv_scheds lv) \<union> set (sp_started_remote (lv_pingers lv)) \<union> set (sp_prepared_remote (lv_pingers lv)))"

fun pc_ok :: "pc \<Rightarrow> ('f, 't) live \<Rightarrow> bool" where
  "pc_ok (Revectored names) lv = vectors_for names lv"
| "pc_ok (Stopping names) lv = (vectors_for names lv \<and> size_of_prepared (lv_pingers lv) \<noteq> 0)"
| "pc_ok (Starting names) lv = vectors_for names lv"
| "pc_ok _ lv = True"

definition live_ok :: "('f, 't) live \<Rightarrow> bool" where
  "live_ok lv \<longleftrightarrow>
     registry_ok (snapshot lv) \<and> config_ok (sc_config (lv_config lv)) \<and> pc_ok (lv_pc lv) lv \<and>
     (\<forall>c \<in> handlers lv. arity (lv_metrics lv) (cl_hist c) = Some (length (cl_names c))) \<and>
     (\<forall>rc \<in> recorders lv. recorder_ok (lv_metrics lv) rc)"

lemma registry_snapshot:
  assumes "registry_ok (snapshot lv)"
  shows "metrics_ok (lv_metrics lv)" and "fst (lv_hist lv) = ResponseDuration"
    and "fst (cl_id (lv_collector lv)) = Requests"
    and "{v \<in> registered (lv_metrics lv). fst v = ResponseDuration} = {lv_hist lv}"
    and "{v \<in> registered (lv_metrics lv). fst v = Requests} = {cl_id (lv_collector lv)}"
  using assms by (simp_all add: registry_ok_def snapshot_def)

text \<open>A change of the metrics that keeps the vectors there are, and the registered ones.\<close>

lemma live_ok_plain:
  assumes "live_ok lv" and "plain_calls (arity (lv_metrics lv)) cs"
  shows "live_ok (lv\<lparr>lv_metrics := emit cs (lv_metrics lv)\<rparr>)"
proof -
  let ?m = "lv_metrics lv" and ?lv = "lv\<lparr>lv_metrics := emit cs (lv_metrics lv)\<rparr>"
  define m' where "m' = emit cs ?m"
  have ok: "registry_ok (snapshot lv)" using assms(1) by (simp add: live_ok_def)
  note e = emit_plain [OF registry_snapshot(1) [OF ok] assms(2), folded m'_def]
  have cur: "current_ok n m' = current_ok n ?m" for n unfolding m'_def by (rule current_emit [OF assms(2)])
  have "registry_ok (snapshot (lv\<lparr>lv_metrics := m'\<rparr>))"
    using ok e(1,3) by (simp add: registry_ok_def snapshot_def)
  moreover have "pc_ok (lv_pc lv) (lv\<lparr>lv_metrics := m'\<rparr>)"
    using assms(1) by (cases "lv_pc lv") (simp_all add: live_ok_def vectors_for_def cur e(2))
  ultimately show ?thesis
    using assms(1) unfolding m'_def [symmetric]
    by (simp add: live_ok_def handlers_def recorders_def recorder_ok_def e(2))
qed

lemma live_ok_happens:
  assumes "live_ok lv" and "\<And>m. r = Some m \<Longrightarrow> \<exists>cs. m = emit cs (lv_metrics lv) \<and> list_all series_call cs"
  shows "live_ok (happens r lv)"
proof -
  have crash: "live_ok (lv\<lparr>lv_pc := Crashed\<rparr>)"
    using assms(1) by (simp add: live_ok_def handlers_def recorders_def snapshot_def)
  show ?thesis
  proof (cases r)
    case None
    then show ?thesis using crash by (simp add: happens_def)
  next
    case (Some m)
    obtain cs where cs: "m = emit cs (lv_metrics lv)" "list_all series_call cs" using assms(2) [OF Some] by blast
    show ?thesis
    proof (cases "log_ok m")
      case True
      then have "calls_fit (arity (lv_metrics lv)) (registered (lv_metrics lv)) cs"
        by (simp add: cs(1) calls_fit_append log_ok_iff)
      then have "plain_calls (arity (lv_metrics lv)) cs" by (rule accepted_plain [OF cs(2)])
      then show ?thesis using live_ok_plain [OF assms(1)] True Some cs(1) by (simp add: happens_def)
    next
      case False
      then show ?thesis using crash Some by (simp add: happens_def)
    qed
  qed
qed

lemma handlers_errors [simp]: "handlers (lv\<lparr>lv_running := xs, lv_errors := k\<rparr>) = handlers (lv\<lparr>lv_running := xs\<rparr>)"
  by (simp add: handlers_def)

lemma ended_handlers:
  assumes "i < length (lv_running lv)" and "lv_running lv ! i = (p, c, True)"
  shows "handlers (lv\<lparr>lv_running := (lv_running lv)[i := (p, c, False)]\<rparr>) \<subseteq> handlers lv"
proof
  fix x assume "x \<in> handlers (lv\<lparr>lv_running := (lv_running lv)[i := (p, c, False)]\<rparr>)"
  then obtain q b where "(q, Some x, b) \<in> set ((lv_running lv)[i := (p, c, False)])" by (auto simp: handlers_def)
  then have "(q, Some x, b) = (p, c, False) \<or> (q, Some x, b) \<in> set (lv_running lv)"
    using set_update_subset_insert by fast
  moreover have "(p, c, True) \<in> set (lv_running lv)" using assms by (metis nth_mem)
  ultimately show "x \<in> handlers lv" by (auto simp: handlers_def)
qed

lemma arrival_ok: "arrival lv lv' \<Longrightarrow> live_ok lv \<Longrightarrow> live_ok lv'"
proof (induction rule: arrival.induct)
  case (pinger_ends lv i p c failed)
  note h = ended_handlers [OF pinger_ends(2,3)]
  have "pc_ok q (lv\<lparr>lv_running := xs, lv_errors := k\<rparr>) = pc_ok q lv" for q xs k by (cases q) (simp_all add: vectors_for_def)
  then show ?case using pinger_ends(4) h by (auto simp: live_ok_def recorders_def snapshot_def)
next
  case (early_reply lv p)
  moreover have "pc_ok q (lv\<lparr>lv_lost := k\<rparr>) = pc_ok q lv" for q k by (cases q) (simp_all add: vectors_for_def)
  ultimately show ?case by (simp add: live_ok_def handlers_def recorders_def snapshot_def)
qed (intro live_ok_happens; blast dest: handler_series_calls record_series_calls)+

lemma live_okD:
  assumes "live_ok lv"
  shows "registry_ok (snapshot lv)" and "config_ok (sc_config (lv_config lv))" and "pc_ok (lv_pc lv) lv"
    and "c \<in> handlers lv \<Longrightarrow> arity (lv_metrics lv) (cl_hist c) = Some (length (cl_names c))"
    and "rc \<in> recorders lv \<Longrightarrow> recorder_ok (lv_metrics lv) rc"
  using assms by (simp_all add: live_ok_def)

lemma live_fields_ok:
  assumes "live_ok lv" and "lv_metrics lv' = lv_metrics lv" and "lv_hist lv' = lv_hist lv"
    and "lv_collector lv' = lv_collector lv" and "config_ok (sc_config (lv_config lv'))"
    and "handlers lv' \<subseteq> handlers lv" and "pc_ok (lv_pc lv') lv'"
    and "\<And>rc. rc \<in> recorders lv' \<Longrightarrow> recorder_ok (lv_metrics lv) rc"
  shows "live_ok lv'"
  using assms by (auto simp: live_ok_def registry_ok_def snapshot_def)

text \<open>New vectors: the old ones stay what they were, registered or not.\<close>

lemma setup_live:
  assumes "live_ok lv" and "setup_vectors names bs factor (emit [Unregister (lv_hist lv)] (lv_metrics lv)) = (hist, m)"
  shows "live_ok (lv\<lparr>lv_pc := Revectored names, lv_metrics := m, lv_hist := hist\<rparr>)"
    and "current_ok (length names) m"
proof -
  let ?m0 = "emit [Unregister (lv_hist lv)] (lv_metrics lv)"
  have ok: "registry_ok (snapshot lv)" using assms(1) by (simp add: live_ok_def)
  note rs = registry_snapshot [OF ok]
  have su: "setup_vectors names bs factor (emit [Unregister (pb_hist (snapshot lv))] (pb_metrics (snapshot lv))) = (hist, m)"
    using assms(2) by (simp add: snapshot_def)
  note rv = reload_vectors [OF ok su]
  have "fst (lv_hist lv) \<in> {ResponseDuration, Requests}" using rs(2) by simp
  note un = emit_unregister [OF rs(1) this]
  have grows: "arity (lv_metrics lv) \<subseteq>\<^sub>m arity m"
    unfolding map_le_def
  proof
    fix v assume "v \<in> dom (arity (lv_metrics lv))"
    then have "v \<in> dom (arity ?m0)" unfolding un(2) .
    from setup_keeps_arity [OF un(1) assms(2) this] show "arity (lv_metrics lv) v = arity m v" unfolding un(2) by simp
  qed
  have "registry_ok (snapshot (lv\<lparr>lv_pc := Revectored names, lv_metrics := m, lv_hist := hist\<rparr>))"
    using rv rs(3) by (simp add: registry_ok_def snapshot_def)
  moreover have "arity m (cl_hist c) = Some (length (cl_names c))" if "c \<in> handlers lv" for c
    using that assms(1) grows by (simp add: live_ok_def map_le_def) (metis domI)
  ultimately show "live_ok (lv\<lparr>lv_pc := Revectored names, lv_metrics := m, lv_hist := hist\<rparr>)"
    using assms(1) rv(6,7) recorder_ok_mono [OF _ grows]
    by (simp add: live_ok_def vectors_for_def handlers_def recorders_def)
  show "current_ok (length names) m" by (rule rv(6))
qed

lemma labels_snapshot:
  assumes "labels_are N (lv_metrics lv)" and "live_ok lv"
  shows "log_ok (lv_metrics lv)"
  using labels_are_log [OF registry_snapshot(1) assms(1)] assms(2) by (simp add: live_ok_def)

lemma collector_live:
  assumes "live_ok lv" and "lv_pc lv = Starting names"
  shows "new_collector probes remote names (lv_hist lv) (emit [Unregister (cl_id (lv_collector lv))] (lv_metrics lv)) \<noteq> None"
    and "new_collector probes remote names (lv_hist lv) (emit [Unregister (cl_id (lv_collector lv))] (lv_metrics lv)) = Some (c, m2)
      \<Longrightarrow> m3 = emit [Register (cl_id c)] m2
      \<Longrightarrow> registry_ok (snapshot (lv\<lparr>lv_metrics := m3, lv_collector := c\<rparr>)) \<and> arity m3 = arity (lv_metrics lv) \<and>
        current_ok (length names) m3 \<and> cl_hist c = lv_hist lv \<and> cl_names c = names \<and>
        (labels_are names (lv_metrics lv) \<longrightarrow> labels_are names m3)"
proof -
  let ?m = "emit [Unregister (cl_id (lv_collector lv))] (lv_metrics lv)"
  have ok: "registry_ok (snapshot lv)" and vf: "vectors_for names lv" using assms by (simp_all add: live_ok_def)
  note rs = registry_snapshot [OF ok]
  have la: "launchable names (lv_hist lv) ?m"
    using vf by (intro launchable_unregister [OF rs(1) _ _ rs(2,4,5)]) (simp_all add: vectors_for_def)
  obtain c' cs where nc: "new_collector probes remote names (lv_hist lv) ?m = Some (c', emit cs (described names ?m))"
    "c' = \<lparr>cl_id = (Requests, mt_next ?m), cl_names = names, cl_remote = remote, cl_probes = probes, cl_hist = lv_hist lv\<rparr>"
    "plain_calls (arity ?m) cs"
    by (rule new_collector_ok [OF la])
  then show "new_collector probes remote names (lv_hist lv) ?m \<noteq> None" by simp
  assume "new_collector probes remote names (lv_hist lv) ?m = Some (c, m2)" and m3: "m3 = emit [Register (cl_id c)] m2"
  with nc(1) have eq: "c = c'" "m2 = emit cs (described names ?m)" by simp_all
  have "m3 = emit [Register (Requests, mt_next ?m)] (emit cs (described names ?m))"
    by (simp only: m3 eq nc(2) collector.select_convs)
  note lm = launch_metrics [OF la nc(3) this]
  have "arity m3 = arity (lv_metrics lv)" using plain_calls(2) [OF nc(3)] by (simp add: m3 eq(2))
  then show "registry_ok (snapshot (lv\<lparr>lv_metrics := m3, lv_collector := c\<rparr>)) \<and> arity m3 = arity (lv_metrics lv) \<and>
      current_ok (length names) m3 \<and> cl_hist c = lv_hist lv \<and> cl_names c = names \<and>
      (labels_are names (lv_metrics lv) \<longrightarrow> labels_are names m3)"
    using lm rs(2) by (simp add: registry_ok_def snapshot_def eq(1) nc(2))
qed

lemma new_recorder_ok:
  assumes "vectors_for names lv"
  shows "recorder_ok (lv_metrics lv) (new_remote_recorder names (lv_hist lv) (lv_metrics lv))"
  using assms by (auto simp: vectors_for_def current_ok_def recorder_ok_def new_remote_recorder_def)

lemma prepared_recorders:
  assumes "live_ok lv" and "lv_pc lv = Revectored names"
    and "prepare e fl c (new_remote_recorder names (lv_hist lv) (lv_metrics lv)) (lv_pingers lv) = Inr s"
    and "rc \<in> recorders (lv\<lparr>lv_pc := q, lv_pingers := s\<rparr>)"
  shows "recorder_ok (lv_metrics lv) rc"
proof -
  have "vectors_for names lv" using assms(1,2) by (simp add: live_ok_def)
  then have new: "recorder_ok (lv_metrics lv) (new_remote_recorder names (lv_hist lv) (lv_metrics lv))"
    by (rule new_recorder_ok)
  show ?thesis
    using assms(1,4) new prepare_recorders [OF assms(3)] by (auto simp: live_ok_def recorders_def)
qed

lemma reload_step_ok: "reload_step envs fl bs factor lv lv' \<Longrightarrow> live_ok lv \<Longrightarrow> live_ok lv'"
proof (induction rule: reload_step.induct)
  case (rejects lv e x sc)
  then have sc: "sc_config sc = sc_config (lv_config lv)" by (auto simp: reload_config_def split: sum.splits)
  show ?case
    by (rule live_fields_ok [OF rejects(4)])
      (use rejects(1) live_okD(2,5) [OF rejects(4)] in \<open>simp_all add: sc handlers_def recorders_def\<close>)
next
  case (loads lv e sc)
  then have sc: "config_ok (sc_config sc)" using load_config_ok by (auto simp: reload_config_def split: sum.splits)
  show ?case
    by (rule live_fields_ok [OF loads(4)])
      (use live_okD(5) [OF loads(4)] sc in \<open>simp_all add: handlers_def recorders_def\<close>)
next
  case (makes_vectors lv names hist m)
  show ?case by (rule setup_live(1) [OF makes_vectors(5,3)])
next
  case (refuses_vectors lv names hist m)
  then show ?case by (simp add: live_ok_def handlers_def recorders_def snapshot_def)
next
  case (refuses_collector lv names c m)
  then show ?case by (simp add: live_ok_def handlers_def recorders_def snapshot_def)
next
  case (fails lv names e x)
  show ?case
    by (rule live_fields_ok [OF fails(4)])
      (use live_okD(2,5) [OF fails(4)] in \<open>simp_all add: handlers_def recorders_def\<close>)
next
  case (has_no_targets lv names e s)
  show ?case
    by (rule live_fields_ok [OF has_no_targets(5)])
      (use live_okD(2) [OF has_no_targets(5)] prepared_recorders [OF has_no_targets(5,1,3)] in \<open>simp_all add: handlers_def\<close>)
next
  case (prepares lv names e s)
  have "vectors_for names lv" using live_okD(3) [OF prepares(5)] prepares(1) by simp
  then show ?case
    by (intro live_fields_ok [OF prepares(5)])
      (use live_okD(2) [OF prepares(5)] prepares(4) prepared_recorders [OF prepares(5,1,3)] in
        \<open>simp_all add: handlers_def vectors_for_def\<close>)
next
  case (stops_scheduler lv names r rs)
  have pc: "pc_ok (Stopping names) lv" using live_okD(3) [OF stops_scheduler(3)] stops_scheduler(1) by simp
  have "recorders (lv\<lparr>lv_scheds := rs\<rparr>) \<subseteq> recorders lv" using stops_scheduler(2) by (auto simp: recorders_def)
  then show ?case
    using live_okD(2,5) [OF stops_scheduler(3)] pc stops_scheduler(1)
    by (intro live_fields_ok [OF stops_scheduler(3)]) (auto simp: handlers_def vectors_for_def)
next
  case (stops_pingers lv names)
  have pc: "pc_ok (Stopping names) lv" using live_okD(3) [OF stops_pingers(3)] stops_pingers(1) by simp
  then have s: "size_of_prepared (lv_pingers lv) \<noteq> 0" by simp
  let ?lv = "lv\<lparr>lv_pc := Starting names, lv_pingers := after_start (lv_pingers lv), lv_running := []\<rparr>"
  have "recorders ?lv \<subseteq> recorders lv" using stops_pingers(2) after_start_fields [OF s] by (auto simp: recorders_def)
  then show ?case
    using live_okD(2,5) [OF stops_pingers(3)] pc
    by (intro live_fields_ok [OF stops_pingers(3)]) (auto simp: handlers_def vectors_for_def)
next
  case (runs_pinger lv names)
  have pc: "pc_ok (Starting names) lv" using live_okD(3) [OF runs_pinger(3)] runs_pinger(1) by simp
  then show ?case
    using live_okD(2,5) [OF runs_pinger(3)] runs_pinger(1)
    by (intro live_fields_ok [OF runs_pinger(3)]) (auto simp: handlers_def recorders_def vectors_for_def)
next
  case (makes_collector lv names c m)
  define m3 where "m3 = emit [Register (cl_id c)] m"
  let ?lv = "lv\<lparr>lv_pc := Serving, lv_metrics := m3, lv_collector := c, lv_running := map (\<lambda>(p, _, b). (p, Some c, b)) (lv_running lv)\<rparr>"
  note cl = collector_live(2) [OF makes_collector(5,1,3) m3_def]
  have "vectors_for names lv" using makes_collector by (simp add: live_ok_def)
  then have "arity m3 (cl_hist c) = Some (length (cl_names c))" using cl by (simp add: vectors_for_def)
  moreover have "handlers ?lv \<subseteq> {c}" by (auto simp: handlers_def)
  moreover have "recorders ?lv = recorders lv" by (simp add: recorders_def)
  moreover have "registry_ok (snapshot ?lv)" using cl by (simp add: registry_ok_def snapshot_def)
  ultimately have "live_ok ?lv"
    using makes_collector(5) cl by (auto simp: live_ok_def recorder_ok_def)
  then show ?case by (simp add: m3_def)
next
  case (meets_nil lv names)
  then show ?case using collector_live(1) by blast
next
  case (starts_scheduler lv)
  let ?r = "sp_started_remote (lv_pingers lv) ! length (lv_scheds lv)"
  have "?r \<in> set (sp_started_remote (lv_pingers lv))" using starts_scheduler(2) by simp
  then have "recorders (lv\<lparr>lv_scheds := lv_scheds lv @ [?r]\<rparr>) \<subseteq> recorders lv" by (auto simp: recorders_def)
  then show ?case
    using live_okD(2,5) [OF starts_scheduler(3)] starts_scheduler(1)
    by (intro live_fields_ok [OF starts_scheduler(3)]) (auto simp: handlers_def)
next
  case (finishes lv)
  show ?case
    by (rule live_fields_ok [OF finishes(3)])
      (use live_okD(2,5) [OF finishes(3)] in \<open>simp_all add: handlers_def recorders_def\<close>)
qed

lemma evolves_ok:
  assumes "evolves envs fl bs factor lv lv'" and "live_ok lv"
  shows "live_ok lv'"
  using assms(1) unfolding evolves_def
  by (induction rule: rtranclp_induct) (auto simp: assms(2) dest: reload_step_ok arrival_ok)

lemma live_of_ok:
  assumes "prober_ok pb" and "sp_prepared_remote (pb_pingers pb) = []"
  shows "live_ok (live_of k pb)"
proof -
  let ?m = "pb_metrics pb" and ?c = "pb_collector pb" and ?names = "build_label_names (sc_config (pb_config pb))"
  have w: "current_ok (length ?names) ?m" "arity ?m (pb_hist pb) = Some (length ?names)" "cl_names ?c = ?names"
    "cl_hist ?c = pb_hist pb"
    "\<And>r. r \<in> set (sp_started_remote (pb_pingers pb)) \<Longrightarrow>
       rm_recorder r = \<lparr>rc_names = ?names, rc_hist = pb_hist pb, rc_ttl = mt_ttl ?m\<rparr>"
    using assms by (simp_all add: prober_ok_def sound_def writers_ok_def Let_def)
  have "recorder_ok ?m \<lparr>rc_names = ?names, rc_hist = pb_hist pb, rc_ttl = mt_ttl ?m\<rparr>"
    using w(1,2) by (auto simp: recorder_ok_def current_ok_def)
  then show ?thesis
    using assms w
    by (auto simp: live_ok_def live_of_def snapshot_def prober_ok_def sound_def registry_ok_def handlers_def recorders_def)
qed

end
