(* ===== verification/Reloading_Theorems.thy ===== *)
theory Reloading_Theorems
  imports Reloading_Spec
begin

text \<open>
  The properties of a reload that runs among the replies and results of a running prober: what can
  panic, and what cannot.
\<close>

section \<open>From startup on\<close>

lemma launch_prepared:
  "launch sc lg names hist m unregister s = Some pb \<Longrightarrow> size_of_prepared s \<noteq> 0 \<Longrightarrow> sp_prepared_remote (pb_pingers pb) = []"
  by (auto simp: launch_def Let_def start_pingers_def stop_pingers_def split: option.splits prod.splits if_splits)

lemma startup_prepared:
  assumes "startup e not_exist parse_float fl buckets factor = Some (Inr pb)"
  shows "sp_prepared_remote (pb_pingers pb) = []"
  using assms launch_prepared
  by (auto simp: startup_def Let_def split: if_splits option.splits sum.splits prod.splits) fastforce+

lemma started_live_ok:
  assumes "startup e not_exist parse_float fl buckets factor = Some (Inr pb)" and "evolves envs fl bs factor (live_of k pb) lv"
  shows "live_ok lv"
  by (rule evolves_ok [OF assms(2) live_of_ok [OF startup_launches(2) [OF assms(1) refl] startup_prepared [OF assms(1)]]])

section \<open>Label names that stay\<close>

fun pc_names :: "pc \<Rightarrow> string list option" where
  "pc_names (Revectored names) = Some names"
| "pc_names (Stopping names) = Some names"
| "pc_names (Starting names) = Some names"
| "pc_names _ = None"

text \<open>
  \<open>N\<close> are the label names since the start.  Only between a file that loads and the new vectors, or once
  the process has ended, may the configuration have others.
\<close>

definition labels_ok :: "string list \<Rightarrow> ('f, 't) live \<Rightarrow> bool" where
  "labels_ok N lv \<longleftrightarrow>
     (\<exists>d. N = build_label_names d) \<and> labels_are N (lv_metrics lv) \<and> current_ok (length N) (lv_metrics lv) \<and>
     (\<forall>c \<in> handlers lv. cl_names c = N) \<and> (\<forall>names. pc_names (lv_pc lv) = Some names \<longrightarrow> names = N) \<and>
     (lv_pc lv \<noteq> Loaded \<and> lv_pc lv \<noteq> Crashed \<longrightarrow> build_label_names (sc_config (lv_config lv)) = N)"

lemma handlers_same:
  "lv_running lv' = lv_running lv \<Longrightarrow> handlers lv' = handlers lv"
  by (simp add: handlers_def)

lemma happens_labels:
  assumes "live_ok lv" and "labels_ok N lv" and "\<exists>cs. r = Some (emit cs (lv_metrics lv)) \<and> plain_calls (arity (lv_metrics lv)) cs"
  shows "labels_ok N (happens r lv)" and "lv_pc (happens r lv) = lv_pc lv"
proof -
  obtain cs where r: "r = Some (emit cs (lv_metrics lv))" and cs: "plain_calls (arity (lv_metrics lv)) cs"
    using assms(3) by blast
  have "metrics_ok (emit cs (lv_metrics lv))"
    using emit_plain(1) [OF registry_snapshot(1) [OF live_okD(1) [OF assms(1)]] cs] .
  moreover have "labels_are N (emit cs (lv_metrics lv))"
    using assms(2) by (simp add: labels_ok_def labels_are_plain [OF cs])
  ultimately have "log_ok (emit cs (lv_metrics lv))" by (rule labels_are_log)
  then have h: "happens r lv = lv\<lparr>lv_metrics := emit cs (lv_metrics lv)\<rparr>" by (simp add: happens_def r)
  show "labels_ok N (happens r lv)" unfolding h
    using assms(2) current_emit [OF cs] labels_are_plain [OF cs] by (simp add: labels_ok_def handlers_def)
  show "lv_pc (happens r lv) = lv_pc lv" unfolding h by simp
qed

lemma labels_handler:
  assumes "live_ok lv" and "labels_ok N lv" and "(p, Some c, True) \<in> set (lv_running lv)"
  shows "current_ok (length (cl_names c)) (lv_metrics lv)" and "arity (lv_metrics lv) (cl_hist c) = Some (length (cl_names c))"
proof -
  have "c \<in> handlers lv" using assms(3) by (auto simp: handlers_def)
  then show "current_ok (length (cl_names c)) (lv_metrics lv)"
    "arity (lv_metrics lv) (cl_hist c) = Some (length (cl_names c))"
    using assms(2) live_okD(4) [OF assms(1)] by (auto simp: labels_ok_def)
qed

text \<open>Nothing that arrives panics, whatever the reload is doing.\<close>

lemma arrival_labels:
  "arrival lv lv' \<Longrightarrow> live_ok lv \<Longrightarrow> labels_ok N lv \<Longrightarrow> labels_ok N lv' \<and> lv_pc lv' = lv_pc lv"
proof (induction rule: arrival.induct)
  case (reply lv p c pkt)
  from happens_labels [OF reply(3,4) handlers_plain_at(1) [OF labels_handler [OF reply(3,4,2)]]] show ?case by blast
next
  case (early_reply lv p)
  then show ?case by (simp add: labels_ok_def handlers_def)
next
  case (pinger_ends lv i p c failed)
  show ?case using pinger_ends(5) ended_handlers [OF pinger_ends(2,3)] by (auto simp: labels_ok_def)
next
  case (duplicate lv p c pkt)
  from happens_labels [OF duplicate(3,4) handlers_plain_at(2) [OF labels_handler [OF duplicate(3,4,2)]]] show ?case by blast
next
  case (recv_error lv p c err)
  from happens_labels [OF recv_error(3,4) handlers_plain_at(3) [OF labels_handler [OF recv_error(3,4,2)]]] show ?case by blast
next
  case (send_error lv p c pkt)
  from happens_labels [OF send_error(3,4) handlers_plain_at(4) [OF labels_handler [OF send_error(3,4,2)]]] show ?case by blast
next
  case (remote_result lv r t res)
  have "rm_recorder r \<in> recorders lv" using remote_result(2) by (simp add: recorders_def)
  from happens_labels [OF remote_result(3,4) recorder_ok_plain [OF live_okD(5) [OF remote_result(3) this]]] show ?case by blast
qed

text \<open>The new vectors are accepted exactly if they have the label names since the start.\<close>

lemma makes_vectors_labels:
  assumes "live_ok lv" and "labels_ok N lv"
    and "setup_vectors (build_label_names c) bs factor (emit [Unregister (lv_hist lv)] (lv_metrics lv)) = (hist, m)"
  shows "log_ok m \<longleftrightarrow> build_label_names c = N" and "log_ok m \<Longrightarrow> labels_are N m"
proof -
  have l: "labels_are N (emit [Unregister (lv_hist lv)] (lv_metrics lv))" using assms(2) by (simp add: labels_ok_def)
  note sv = setup_vectors_labels [OF l distinct_build_label_names assms(3)]
  have su: "setup_vectors (build_label_names c) bs factor (emit [Unregister (pb_hist (snapshot lv))] (pb_metrics (snapshot lv))) = (hist, m)"
    using assms(3) by (simp add: snapshot_def)
  have "fits m" using reload_vectors(1) [OF live_okD(1) [OF assms(1)] su] by (simp add: metrics_ok_def)
  moreover obtain d where d: "N = build_label_names d" using assms(2) by (auto simp: labels_ok_def)
  ultimately show "log_ok m \<longleftrightarrow> build_label_names c = N"
    using sv(1) by (simp add: log_ok_iff d label_names_iff)
  then show "log_ok m \<Longrightarrow> labels_are N m" using sv(2) by simp
qed

lemma reload_step_labels:
  "reload_step envs fl bs factor lv lv' \<Longrightarrow> live_ok lv \<Longrightarrow> labels_ok N lv \<Longrightarrow> labels_ok N lv'"
proof (induction rule: reload_step.induct)
  case (rejects lv e x sc)
  then have "sc_config sc = sc_config (lv_config lv)" by (auto simp: reload_config_def split: sum.splits)
  with rejects show ?case by (simp add: labels_ok_def handlers_def)
next
  case (loads lv e sc)
  then show ?case by (simp add: labels_ok_def handlers_def)
next
  case (makes_vectors lv names hist m)
  note v = makes_vectors_labels [OF makes_vectors(5,6) makes_vectors(3) [unfolded makes_vectors(2)]]
  have "names = N" using v(1) makes_vectors(2,4) by simp
  then show ?case
    using v(2) [OF makes_vectors(4)] makes_vectors(2,6) setup_live(2) [OF makes_vectors(5,3)]
    by (simp add: labels_ok_def handlers_def)
next
  case (refuses_vectors lv names hist m)
  then show ?case by (simp add: labels_ok_def handlers_def)
next
  case (stops_pingers lv names)
  then show ?case by (simp add: labels_ok_def handlers_def)
next
  case (runs_pinger lv names)
  then show ?case by (simp add: labels_ok_def handlers_def)
next
  case (makes_collector lv names c m)
  have n: "names = N" "labels_are N (lv_metrics lv)" "build_label_names (sc_config (lv_config lv)) = N"
    using makes_collector(1,6) by (simp_all add: labels_ok_def)
  have "current_ok (length N) (emit [Register (cl_id c)] m)" "cl_names c = N" "labels_are N (emit [Register (cl_id c)] m)"
    using collector_live(2) [OF makes_collector(5,1,3) refl] n(1,2) by simp_all
  with n(3) show ?case by (auto simp: labels_ok_def handlers_def)
next
  case (refuses_collector lv names c m)
  then show ?case by (simp add: labels_ok_def handlers_def)
next
  case (meets_nil lv names)
  then show ?case using collector_live(1) by blast
qed (simp_all add: labels_ok_def handlers_def)

text \<open>The reload panics only where it registers vectors with other label names.\<close>

lemma reload_step_crashes:
  assumes "reload_step envs fl bs factor lv lv'" and "live_ok lv" and "labels_ok N lv" and "lv_pc lv \<noteq> Crashed"
    and "lv_pc lv' = Crashed"
  shows "lv_pc lv = Loaded \<and> build_label_names (sc_config (lv_config lv)) \<noteq> N"
  using assms(1,4,5)
proof (cases rule: reload_step.cases)
  case (refuses_vectors names hist m)
  with makes_vectors_labels(1) [OF assms(2,3) refuses_vectors(4) [unfolded refuses_vectors(3)]] show ?thesis by simp
next
  case (refuses_collector names c m)
  note cl = collector_live(2) [OF assms(2) refuses_collector(2,4) refl]
  have "labels_are names (lv_metrics lv)" using assms(3) refuses_collector(2) by (simp add: labels_ok_def)
  then have "labels_are names (emit [Register (cl_id c)] m)" using cl by blast
  moreover have "metrics_ok (emit [Register (cl_id c)] m)"
    using registry_snapshot(1) cl by force
  ultimately have "log_ok (emit [Register (cl_id c)] m)" by (intro labels_are_log)
  with refuses_collector(5) show ?thesis by simp
next
  case (meets_nil names)
  then show ?thesis using collector_live(1) [OF assms(2)] by blast
qed simp_all

lemma evolves_labels:
  assumes "evolves envs fl bs factor lv lv'" and "live_ok lv" and "labels_ok N lv"
  shows "live_ok lv' \<and> labels_ok N lv'"
  using assms(1) unfolding evolves_def
proof (induction rule: rtranclp_induct)
  case (step lv1 lv2)
  then have ok: "live_ok lv1" "labels_ok N lv1" by simp_all
  from step(2) show ?case
  proof
    assume s: "reload_step envs fl bs factor lv1 lv2"
    show ?case using reload_step_ok [OF s ok(1)] reload_step_labels [OF s ok] by simp
  next
    assume s: "arrival lv1 lv2"
    show ?case using arrival_ok [OF s ok(1)] arrival_labels [OF s ok] by simp
  qed
qed (simp add: assms(2,3))

lemma live_of_labels:
  "prober_ok pb \<Longrightarrow> labels_ok (build_label_names (sc_config (pb_config pb))) (live_of k pb)"
  by (auto simp: prober_ok_def sound_def writers_ok_def Let_def labels_ok_def live_of_def handlers_def)

section \<open>Crashes and losses\<close>

text \<open>Where the configuration of a reload comes from, and why it crashed.\<close>

definition crash_ok :: "('p, 'd, 'o, 'y, 'file, 't) env set \<Rightarrow> flags \<Rightarrow> string list \<Rightarrow> ('f, 't) live \<Rightarrow> bool" where
  "crash_ok envs fl N lv \<longleftrightarrow>
     (lv_pc lv = Loaded \<or> lv_pc lv = Crashed \<longrightarrow>
        (\<exists>e \<in> envs. load_config (en_open e) (en_decode e) (fl_config_file fl) = Inr (sc_config (lv_config lv)))) \<and>
     (lv_pc lv = Crashed \<longrightarrow> build_label_names (sc_config (lv_config lv)) \<noteq> N)"

lemma happens_config [simp]: "lv_config (happens r lv) = lv_config lv"
  by (simp add: happens_def split: option.split)

lemma arrival_config: "arrival lv lv' \<Longrightarrow> lv_config lv' = lv_config lv"
  by (induction rule: arrival.induct) simp_all

lemma crashed_config: "reload_step envs fl bs factor lv lv' \<Longrightarrow> lv_pc lv' = Crashed \<Longrightarrow> lv_pc lv \<noteq> Crashed \<Longrightarrow> lv_config lv' = lv_config lv"
  by (induction rule: reload_step.induct) simp_all

lemma loaded_config:
  "reload_step envs fl bs factor lv lv' \<Longrightarrow> lv_pc lv' = Loaded \<Longrightarrow>
   \<exists>e \<in> envs. load_config (en_open e) (en_decode e) (fl_config_file fl) = Inr (sc_config (lv_config lv'))"
  by (induction rule: reload_step.induct) (auto simp: reload_config_def split: sum.splits)

lemma crashed_stays: "reload_step envs fl bs factor lv lv' \<Longrightarrow> lv_pc lv \<noteq> Crashed"
  by (induction rule: reload_step.induct) simp_all

lemma crash_ok_step:
  assumes "reload_step envs fl bs factor lv lv' \<or> arrival lv lv'" and "live_ok lv" and "labels_ok N lv" and "crash_ok envs fl N lv"
  shows "crash_ok envs fl N lv'"
  using assms(1)
proof
  assume a: "arrival lv lv'"
  then show ?thesis using arrival_labels [OF a assms(2,3)] arrival_config [OF a] assms(4) by (simp add: crash_ok_def)
next
  assume r: "reload_step envs fl bs factor lv lv'"
  note c = reload_step_crashes [OF r assms(2,3) crashed_stays [OF r]] and cc = crashed_config [OF r _ crashed_stays [OF r]]
  show ?thesis
    unfolding crash_ok_def using loaded_config [OF r] c cc assms(4) [unfolded crash_ok_def] by fastforce
qed

lemma evolves_crash_ok:
  assumes "evolves envs fl bs factor lv lv'" and "live_ok lv" and "labels_ok N lv" and "crash_ok envs fl N lv"
  shows "crash_ok envs fl N lv'"
  using assms(1) unfolding evolves_def
proof (induction rule: rtranclp_induct)
  case (step lv1 lv2)
  have "evolves envs fl bs factor lv lv1" using step(1) by (simp add: evolves_def)
  from evolves_labels [OF this assms(2,3)] show ?case using crash_ok_step [OF step(2)] step(3) by blast
qed (rule assms(4))

text \<open>Between the start of the new pingers and their handlers.\<close>

lemma lose:
  assumes "lv_pc lv \<noteq> Crashed" and "(p, None, True) \<in> set (lv_running lv)" and "lv_lost lv = k"
  shows "arrival\<^sup>*\<^sup>* lv (lv\<lparr>lv_lost := k + j\<rparr>)"
proof (induction j)
  case 0
  then show ?case using assms(3) by (simp add: assms(3) [symmetric])
next
  case (Suc j)
  have "arrival (lv\<lparr>lv_lost := k + j\<rparr>) (lv\<lparr>lv_lost := k + j\<rparr>\<lparr>lv_lost := lv_lost (lv\<lparr>lv_lost := k + j\<rparr>) + 1\<rparr>)"
    by (rule early_reply) (use assms in simp_all)
  with Suc show ?case by (simp add: rtranclp.rtrancl_into_rtrancl)
qed


text \<open>
  So the replies of local pingers that arrive before the new collector installs its handlers are lost: a
  reload that succeeds and runs a local pinger has an interleaving for every number of such replies,
  and it ends in the same state as without them.
\<close>

lemma early_replies_steps:
  fixes pb :: "('f, 't) prober"
  assumes "e \<in> envs" and "reload e fl bs factor pb = Some (None, pb')" and "slice (sp_started (pb_pingers pb')) \<noteq> []"
  shows "evolves envs fl bs factor (live_of k pb) (live_of (k + j) pb')"
proof -
  let ?R = "reload_step envs fl bs factor" and ?E = "\<lambda>lv lv'. reload_step envs fl bs factor lv lv' \<or> arrival lv lv'"
  obtain names and lv :: "('f, 't) live" where l: "?R\<^sup>*\<^sup>* (live_of k pb) (launched names lv)"
      "\<forall>j. ?R\<^sup>*\<^sup>* ((launched names lv)\<lparr>lv_lost := j\<rparr>) (live_of j pb')" "lv_lost (launched names lv) = k"
      "lv_running (launched names lv) = map (\<lambda>p. (p, None, True)) (slice (sp_started (pb_pingers pb')))"
    by (rule reload_launch_steps [OF assms(1,2), of k])
  obtain p ps where "slice (sp_started (pb_pingers pb')) = p # ps" using assms(3) by (cases "slice (sp_started (pb_pingers pb'))") simp_all
  then have a: "arrival\<^sup>*\<^sup>* (launched names lv) ((launched names lv)\<lparr>lv_lost := k + j\<rparr>)"
    using l(3,4) by (intro lose [of _ p]) (auto simp: launched_def Let_def)
  have "?E\<^sup>*\<^sup>* (live_of k pb) (launched names lv)" "?E\<^sup>*\<^sup>* ((launched names lv)\<lparr>lv_lost := k + j\<rparr>) (live_of (k + j) pb')"
    using l(1,2) by (auto elim!: rtranclp_mono [THEN predicate2D, rotated])
  moreover have "?E\<^sup>*\<^sup>* (launched names lv) ((launched names lv)\<lparr>lv_lost := k + j\<rparr>)"
    using a by (auto elim!: rtranclp_mono [THEN predicate2D, rotated])
  ultimately show ?thesis unfolding evolves_def by (metis (no_types, lifting) rtranclp_trans)
qed

section \<open>A sample\<close>

text \<open>Started, then reloaded into \<open>sample_config\<close>, which has a router.\<close>

lemma reload_evolves:
  "(reload_step envs fl bs factor)\<^sup>*\<^sup>* lv lv' \<Longrightarrow> evolves envs fl bs factor lv lv'"
  unfolding evolves_def by (erule rtranclp_mono [THEN predicate2D, rotated]) blast

lemma sample_reloaded:
  assumes "prober_ok pb" and "reload (sample_env (Some sample_config)) sample_flags [0] 0 pb =
      Some (None :: (unit, unit, unit, unit, unit) failure option, pb')"
  shows "sp_started_remote (pb_pingers pb') \<noteq> []" and "sc_config (pb_config pb') = sample_config"
    and "evolves {sample_env (Some sample_config)} sample_flags [0] 0 (live_of 0 pb) (live_of 0 pb')"
proof -
  show "evolves {sample_env (Some sample_config)} sample_flags [0] 0 (live_of 0 pb) (live_of 0 pb')"
    by (rule reload_evolves [OF reload_steps [OF singletonI assms(2)]])
  from assms(2) obtain c sc hist m s where
    c: "load_config (en_open (sample_env (Some sample_config))) (en_decode (sample_env (Some sample_config)))
      (fl_config_file sample_flags) = Inr c" "sc_config sc = c" "pb_config pb' = sc" and
    s: "prepare (sample_env (Some sample_config)) sample_flags c (new_remote_recorder (build_label_names c) hist m)
      (pb_pingers pb) = Inr s" "size_of_prepared s \<noteq> 0" and
    l: "launch sc (pb_log pb @ calls_since (pb_metrics pb) m) (build_label_names c) hist m
      (\<lambda>m. emit [Unregister (cl_id (pb_collector pb))] m) s = Some pb'"
    by (rule reload_succeeded)
  have cc: "c = sample_config" using c(1) by (simp add: sample_load [OF sample_config_ok])
  with c show "sc_config (pb_config pb') = sample_config" by simp
  have "sp_prepared_remote s \<noteq> []"
    using s(1) sample_prepared [of "Some sample_config"] unfolding cc by (metis sum.inject(2))
  then show "sp_started_remote (pb_pingers pb') \<noteq> []"
    using after_start_fields [OF s(2)] launch_pingers [OF l] by simp
qed

lemma sample_running:
  obtains pb pb' where "startup (sample_env (Some start_config)) (\<lambda>_. True) (\<lambda>_. Inr 0) sample_flags ''1'' 0 =
      Some (Inr pb :: (unit, unit, unit, unit, unit) failure + (nat, nat) prober)"
    and "prober_ok pb" and "sc_config (pb_config pb) = start_config"
    and "reload (sample_env (Some sample_config)) sample_flags [0] 0 pb =
      Some (None :: (unit, unit, unit, unit, unit) failure option, pb')"
proof -
  obtain pb where pb: "startup (sample_env (Some start_config)) (\<lambda>_. True) (\<lambda>_. Inr 0) sample_flags ''1'' 0 =
      Some (Inr pb :: (unit, unit, unit, unit, unit) failure + (nat, nat) prober)" "prober_ok pb"
    "sc_config (pb_config pb) = start_config" by (rule sample_prober)
  obtain pb' where "reload (sample_env (Some sample_config)) sample_flags [0] 0 pb =
      Some (None :: (unit, unit, unit, unit, unit) failure option, pb')" by (rule started_reload [OF pb(2,3)])
  from that [OF pb this] show ?thesis .
qed

lemma sample_crash:
  assumes "prober_ok (pb :: (nat, nat) prober)" and "sc_config (pb_config pb) = start_config"
  shows "reload (sample_env (Some plain_config)) sample_flags [0] 0 pb =
      (None :: ((unit, unit, unit, unit, unit) failure option \<times> _) option)"
  by (rule plain_reload) (use assms in \<open>simp_all add: prober_ok_def sample_label_names\<close>)

section \<open>Properties\<close>



text \<open>
  C7: Nothing that arrives can panic, whatever a reload is doing.  From startup on, in every interleaving
  of the steps of any reloads, failed ones included, with echo replies, duplicates, errors and results,
  the next reply, error or result finds its vectors with as many labels as it passes, also between the
  new vectors and the end of the old pingers and schedulers, and the metrics client accepts its calls.
\<close>

theorem arrivals_never_crash:
  assumes "startup e not_exist parse_float fl buckets factor = Some (Inr pb)" and "evolves envs fl bs factor (live_of k pb) lv"
    and "arrival lv lv'"
  shows "lv_pc lv' = lv_pc lv \<and> lv_pc lv' \<noteq> Crashed \<and> log_ok (lv_metrics lv')"
proof -
  have ok: "prober_ok pb" by (rule startup_launches(2) [OF assms(1) refl])
  have l: "live_ok (live_of k pb)" by (rule live_of_ok [OF ok startup_prepared [OF assms(1)]])
  from evolves_labels [OF assms(2) l live_of_labels [OF ok]] have i: "live_ok lv"
    "labels_ok (build_label_names (sc_config (pb_config pb))) lv" by simp_all
  note a = arrival_labels [OF assms(3) i] arrival_ok [OF assms(3) i(1)]
  have "lv_pc lv \<noteq> Crashed" using assms(3) by (cases rule: arrival.cases) simp_all
  moreover have "log_ok (lv_metrics lv')" using a by (intro labels_snapshot [of "build_label_names (sc_config (pb_config pb))"]) (simp_all add: labels_ok_def)
  ultimately show ?thesis using a(1) by simp
qed

lemma arrivals_never_crash_witness:
  "\<exists>pb lv r m. sample_startup = Some (Inr pb) \<and>
     evolves {sample_env (Some sample_config)} sample_flags [0] 0 (live_of 0 pb) lv \<and> r \<in> set (lv_scheds lv) \<and>
     lv_pc (happens (record_result (rm_recorder r) (sd_targets (rm_sched r) ! 0)
       \<lparr>rs_sent = 1, rs_replies = [\<lparr>rp_seq = 1, rp_rtt = 1000, rp_ttl = 64\<rparr>], rs_timeouts = 0\<rparr> (lv_metrics lv)) lv) \<noteq> Crashed"
proof -
  obtain pb pb' where s: "startup (sample_env (Some start_config)) (\<lambda>_. True) (\<lambda>_. Inr 0) sample_flags ''1'' 0 =
      Some (Inr pb :: (unit, unit, unit, unit, unit) failure + (nat, nat) prober)" "prober_ok pb"
    "reload (sample_env (Some sample_config)) sample_flags [0] 0 pb =
      Some (None :: (unit, unit, unit, unit, unit) failure option, pb')"
    by (rule sample_running)
  note re = sample_reloaded [OF s(2,3)]
  let ?lv = "live_of 0 pb'"
  obtain r where r: "r \<in> set (lv_scheds ?lv)" using re(1) by (cases "sp_started_remote (pb_pingers pb')") (auto simp: live_of_def)
  have "lv_pc ?lv \<noteq> Crashed" by (simp add: live_of_def)
  from arrivals_never_crash [OF s(1) re(3) remote_result [OF this r]] r re(3) s(1) show ?thesis
    unfolding sample_startup_def by blast
qed

text \<open>
  C8: The only way a running prober can crash is a reload into other label names.  In every interleaving
  of the steps of reloads with replies, errors and results all calls on the metrics client were
  accepted, up to the one that ended the program; and if it has ended, the configuration it had
  just loaded, from a file that a reload may find, has other label names than it started with.
\<close>

theorem only_new_labels_crash:
  assumes "startup e not_exist parse_float fl buckets factor = Some (Inr pb)" and "evolves envs fl bs factor (live_of k pb) lv"
  shows "log_ok (lv_metrics lv) \<and>
    (lv_pc lv = Crashed \<longrightarrow>
      build_label_names (sc_config (lv_config lv)) \<noteq> build_label_names (sc_config (pb_config pb)) \<and>
      (\<exists>e \<in> envs. load_config (en_open e) (en_decode e) (fl_config_file fl) = Inr (sc_config (lv_config lv))))"
proof -
  let ?N = "build_label_names (sc_config (pb_config pb))"
  have ok: "prober_ok pb" by (rule startup_launches(2) [OF assms(1) refl])
  have l: "live_ok (live_of k pb)" by (rule live_of_ok [OF ok startup_prepared [OF assms(1)]])
  note lb = live_of_labels [OF ok]
  from evolves_labels [OF assms(2) l lb] have i: "live_ok lv" "labels_ok ?N lv" by simp_all
  have "crash_ok envs fl ?N (live_of k pb)" by (simp add: crash_ok_def live_of_def)
  from evolves_crash_ok [OF assms(2) l lb this] have "crash_ok envs fl ?N lv" .
  moreover have "log_ok (lv_metrics lv)" using i by (intro labels_snapshot [of ?N]) (simp_all add: labels_ok_def)
  ultimately show ?thesis by (simp add: crash_ok_def)
qed

lemma only_new_labels_crash_witness:
  "\<exists>pb lv. sample_startup = Some (Inr pb) \<and> evolves {sample_env (Some plain_config)} sample_flags [0] 0 (live_of 0 pb) lv \<and>
     lv_pc lv = Crashed \<and> sc_config (lv_config lv) = plain_config \<and> log_ok (lv_metrics lv)"
proof -
  obtain pb where pb: "startup (sample_env (Some start_config)) (\<lambda>_. True) (\<lambda>_. Inr 0) sample_flags ''1'' 0 =
      Some (Inr pb :: (unit, unit, unit, unit, unit) failure + (nat, nat) prober)" "prober_ok pb"
      "sc_config (pb_config pb) = start_config"
    by (rule sample_prober)
  have "sound pb" using pb(2) by (simp add: prober_ok_def)
  from reload_panic_steps [OF this singletonI sample_crash [OF pb(2,3)], of 0] obtain lv where
    lv: "(reload_step {sample_env (Some plain_config)} sample_flags [0] 0)\<^sup>*\<^sup>* (live_of 0 pb) lv" "lv_pc lv = Crashed" by blast
  note ev = reload_evolves [OF lv(1)]
  from only_new_labels_crash [OF pb(1) ev] lv(2) have "log_ok (lv_metrics lv)" "sc_config (lv_config lv) = plain_config"
    by (simp_all add: sample_load [OF plain_config_ok])
  with pb(1) ev lv(2) show ?thesis unfolding sample_startup_def by blast
qed

end
