(* ===== verification/Scrape_Spec.thy ===== *)
theory Scrape_Spec
  imports Prober_Theorems
begin

text \<open>
  What a scrape collects.  The client library refuses a scrape in which a collector delivers two
  metrics with the same label values, and answers it with an error; so the question is when the
  series of a running prober are distinct.  They are when every host is named once, in all groups
  and on the command line together.  \<open>Validate\<close> does not ask for that: a literal address that two
  groups name with the same source, ToS and labels, such as a group with a router and one without, is
  enough for a clash.
\<close>

section \<open>Lists\<close>

lemma distinct_concat_keys:
  assumes "distinct (concat (map ks xs))"
    and "\<And>x. x \<in> set xs \<Longrightarrow> distinct (f x)" and "\<And>x y. x \<in> set xs \<Longrightarrow> y \<in> set (f x) \<Longrightarrow> key y \<in> set (ks x)"
  shows "distinct (concat (map f xs))"
  using assms
proof (induction xs)
  case (Cons x xs)
  have "set (f x) \<inter> set (concat (map f xs)) = {}"
    using Cons.prems(1,3) by (fastforce simp: disjoint_iff)
  with Cons show ?case by simp
qed simp

lemma distinct_concat_filter: "distinct (concat (map f xs)) \<Longrightarrow> distinct (concat (map f (filter P xs)))"
  by (induction xs) auto

lemma concat_keys_unique:
  "distinct (concat (map ks xs)) \<Longrightarrow> x \<in> set xs \<Longrightarrow> y \<in> set xs \<Longrightarrow> k \<in> set (ks x) \<Longrightarrow> k \<in> set (ks y) \<Longrightarrow> x = y"
  by (induction xs) auto

lemma distinct_concat_map:
  assumes "distinct xs" and "\<And>x. x \<in> set xs \<Longrightarrow> distinct (f x)"
    and "\<And>x y. x \<in> set xs \<Longrightarrow> y \<in> set xs \<Longrightarrow> x \<noteq> y \<Longrightarrow> set (f x) \<inter> set (f y) = {}"
  shows "distinct (concat (map f xs))"
  using assms
proof (induction xs)
  case (Cons x xs)
  have "set (f x) \<inter> set (f y) = {}" if "y \<in> set xs" for y using that Cons.prems(1,3) by auto
  then have "set (f x) \<inter> set (concat (map f xs)) = {}" by auto
  with Cons show ?case by simp
qed simp

lemma concat_zip_heads: "length ys = length xs \<Longrightarrow> concat (map (\<lambda>(x, y). [x]) (zip xs ys)) = xs"
  by (induction xs ys rule: list_induct2') simp_all

lemma concat_filter_nonempty: "concat (map f (filter (\<lambda>x. f x \<noteq> []) xs)) = concat (map f xs)"
  by (induction xs) simp_all

section \<open>The local probes\<close>

text \<open>
  What the pinger library documents: \<open>New\<close> keeps the host as the address of the pinger, and \<open>Resolve\<close>
  sets nothing but its IP address, which for a literal address is this address.  For a name it may be
  any, and another one every time.
\<close>

definition pinger_ok :: "('p, 'd, 'o, 'y, 'file, 't) env \<Rightarrow> bool" where
  "pinger_ok e \<longleftrightarrow>
     (\<forall>h. pg_addr (en_new_pinger e h) = h) \<and>
     (\<forall>n p p'. en_resolve_pinger e n p = Inr p' \<longrightarrow>
        (\<exists>ip. p' = p\<lparr>pg_ip := ip\<rparr> \<and> (\<forall>a. parse_ip (pg_addr p) = Some a \<longrightarrow> ip = ip_string a)))"

lemma pinger_okD:
  assumes "pinger_ok e"
  shows "pg_addr (en_new_pinger e h) = h"
    and "en_resolve_pinger e n p = Inr p' \<Longrightarrow>
      \<exists>ip. p' = p\<lparr>pg_ip := ip\<rparr> \<and> (\<forall>a. parse_ip (pg_addr p) = Some a \<longrightarrow> ip = ip_string a)"
  using assms unfolding pinger_ok_def by blast+

definition probe_of ::
  "('p, 'd, 'o, 'y, 'file, 't) env \<Rightarrow> target_group \<Rightarrow> string \<Rightarrow> probe \<Rightarrow> bool" where
  "probe_of e tg h pr \<longleftrightarrow>
     (\<exists>n d. en_resolve_pinger e n (group_pinger tg d (en_new_pinger e h)) = Inr (pr_pinger pr)) \<and> pr_labels pr = tg_labels tg"

lemma prepare_hosts_probes:
  assumes "pinger_ok e" and "for_each (prepare_host e fl) ps hs = Inr ps'"
  shows "map (\<lambda>pr. pg_addr (pr_pinger pr)) ps' = map (\<lambda>pr. pg_addr (pr_pinger pr)) ps @ hs"
  using assms(2)
proof (induction hs arbitrary: ps)
  case (Cons h hs)
  then obtain p where p: "en_resolve_pinger e (length ps) (en_new_pinger e h) = Inr p"
    by (auto simp: prepare_host_def split: sum.splits)
  have "pg_addr p = h" using pinger_okD(2) [OF assms(1) p] by (auto simp: pinger_okD(1) [OF assms(1)])
  with Cons p show ?case by (auto simp: prepare_host_def)
qed simp

lemma prepare_group_hosts_probes:
  assumes "for_each (prepare_group_host e tg d) ps hs = Inr ps'"
  shows "\<exists>new. ps' = ps @ new \<and> list_all2 (probe_of e tg) hs new"
  using assms
proof (induction hs arbitrary: ps)
  case (Cons h hs)
  from Cons.prems obtain ps1 where one: "prepare_group_host e tg d ps h = Inr ps1"
    and rest: "for_each (prepare_group_host e tg d) ps1 hs = Inr ps'" by (auto split: sum.splits)
  obtain p where p: "en_resolve_pinger e (length ps) (group_pinger tg d (en_new_pinger e h)) = Inr p"
    and ps1: "ps1 = ps @ [\<lparr>pr_pinger = p, pr_labels = tg_labels tg\<rparr>]"
    using one by (auto simp: prepare_group_host_def split: sum.splits)
  obtain new where "ps' = (ps @ [\<lparr>pr_pinger = p, pr_labels = tg_labels tg\<rparr>]) @ new" "list_all2 (probe_of e tg) hs new"
    using Cons.IH [OF rest] ps1 by blast
  moreover have "probe_of e tg h \<lparr>pr_pinger = p, pr_labels = tg_labels tg\<rparr>" using p by (auto simp: probe_of_def)
  ultimately show ?case by (intro exI [of _ "\<lparr>pr_pinger = p, pr_labels = tg_labels tg\<rparr> # new"]) simp
qed simp

lemma prepare_group_probes:
  assumes "prepare_group e c pp tg = Inr pp'"
  shows "\<exists>new. pp_probes pp' = pp_probes pp @ new \<and> list_all2 (probe_of e tg) (tg_hosts tg) new"
proof -
  obtain pp1 d where p1: "prepare_remote e c pp tg = Inr (pp1, d)" and v: "valid_packet_size (tg_size tg)"
    using assms by (auto simp: prepare_group_def split: if_splits sum.splits)
  let ?pp2 = "if sint (pp_max_interval pp1) < sint d then pp1\<lparr>pp_max_interval := d\<rparr> else pp1"
  obtain probes where p2: "for_each (prepare_group_host e tg d) (pp_probes ?pp2) (tg_hosts tg) = Inr probes"
    and pp': "pp' = ?pp2\<lparr>pp_probes := probes\<rparr>"
    using assms v p1 by (auto simp: prepare_group_def Let_def split: if_splits sum.splits)
  have "pp_probes ?pp2 = pp_probes pp"
    using p1 by (auto simp: prepare_remote_def Let_def split: if_splits sum.splits)
  with prepare_group_hosts_probes [OF p2] show ?thesis by (simp add: pp')
qed

lemma prepare_groups_probes:
  assumes "for_each (prepare_group e c) pp tgs = Inr pp'"
  shows "\<exists>news. pp_probes pp' = pp_probes pp @ concat news \<and>
    list_all2 (\<lambda>tg new. list_all2 (probe_of e tg) (tg_hosts tg) new) tgs news"
  using assms
proof (induction tgs arbitrary: pp)
  case (Cons tg tgs)
  then obtain pp1 where p: "prepare_group e c pp tg = Inr pp1" "for_each (prepare_group e c) pp1 tgs = Inr pp'"
    by (auto split: sum.splits)
  obtain new news where "pp_probes pp1 = pp_probes pp @ new" "list_all2 (probe_of e tg) (tg_hosts tg) new"
    "pp_probes pp' = pp_probes pp1 @ concat news" "list_all2 (\<lambda>tg new. list_all2 (probe_of e tg) (tg_hosts tg) new) tgs news"
    using prepare_group_probes [OF p(1)] Cons.IH [OF p(2)] by blast
  then show ?case by (intro exI [of _ "new # news"]) simp
qed simp

lemma prepare_probes:
  assumes "pinger_ok e" and "prepare e fl c rec s = Inr s'"
  obtains ps news where "slice (sp_prepared s') = ps @ concat news"
    and "map (\<lambda>pr. pg_addr (pr_pinger pr)) ps = fl_hosts fl"
    and "list_all2 (\<lambda>tg new. list_all2 (probe_of e tg) (tg_hosts tg) new) (cf_targets c) news"
proof -
  obtain ps pp rs where p: "for_each (prepare_host e fl) [] (fl_hosts fl) = Inr ps"
    "for_each (prepare_group e c) \<lparr>pp_probes = ps, pp_max_interval = fl_interval fl, pp_remote = (\<lambda>_. [])\<rparr> (cf_targets c) = Inr pp"
    "s' = s\<lparr>sp_prepared := Some (pp_probes pp), sp_prepared_remote := rs, sp_max_interval := pp_max_interval pp\<rparr>"
    using assms(2) by (auto simp: prepare_def split: sum.splits)
  obtain news where "pp_probes pp = ps @ concat news"
    "list_all2 (\<lambda>tg new. list_all2 (probe_of e tg) (tg_hosts tg) new) (cf_targets c) news"
    using prepare_groups_probes [OF p(2)] by auto
  with prepare_hosts_probes [OF assms(1) p(1)] p(3) that show ?thesis by (simp add: slice_def)
qed

lemma probe_of_fields:
  assumes "pinger_ok e" and "probe_of e tg h pr"
  shows "pg_addr (pr_pinger pr) = h" and "pg_source (pr_pinger pr) = tg_source tg" and "pg_tos (pr_pinger pr) = tg_tos tg"
    and "pr_labels pr = tg_labels tg" and "parse_ip h = Some a \<Longrightarrow> pg_ip (pr_pinger pr) = ip_string a"
proof -
  obtain n d where d: "en_resolve_pinger e n (group_pinger tg d (en_new_pinger e h)) = Inr (pr_pinger pr)"
    and l: "pr_labels pr = tg_labels tg" using assms(2) by (auto simp: probe_of_def)
  have q: "pg_addr (group_pinger tg d (en_new_pinger e h)) = h" "pg_source (group_pinger tg d (en_new_pinger e h)) = tg_source tg"
    "pg_tos (group_pinger tg d (en_new_pinger e h)) = tg_tos tg"
    by (simp_all add: group_pinger_def Let_def pinger_okD(1) [OF assms(1)])
  obtain ip where r: "pr_pinger pr = (group_pinger tg d (en_new_pinger e h))\<lparr>pg_ip := ip\<rparr>"
    "\<forall>a. parse_ip h = Some a \<longrightarrow> ip = ip_string a"
    using pinger_okD(2) [OF assms(1) d] unfolding q(1) by blast
  show "pg_addr (pr_pinger pr) = h" "pg_source (pr_pinger pr) = tg_source tg" "pg_tos (pr_pinger pr) = tg_tos tg"
    "pr_labels pr = tg_labels tg" "parse_ip h = Some a \<Longrightarrow> pg_ip (pr_pinger pr) = ip_string a"
    using q l r(2) by (simp_all add: r(1))
qed

lemma probes_addresses:
  assumes "pinger_ok e" and "list_all2 (\<lambda>tg new. list_all2 (probe_of e tg) (tg_hosts tg) new) tgs news"
  shows "map (\<lambda>pr. pg_addr (pr_pinger pr)) (concat news) = concat (map tg_hosts tgs)"
proof -
  have one: "map (\<lambda>pr. pg_addr (pr_pinger pr)) new = hs" if "list_all2 (probe_of e tg) hs new" for tg hs new
    using that by (induction rule: list_all2_induct) (simp_all add: probe_of_fields(1) [OF assms(1)])
  show ?thesis using assms(2) by (induction rule: list_all2_induct) (simp_all add: one)
qed

section \<open>Series\<close>

text \<open>The host and the link tell series apart: they are the second and the fifth label.\<close>

definition host_link :: "string list \<Rightarrow> string \<times> string" where
  "host_link vals = (vals ! 1, vals ! 4)"

lemma names_at:
  "build_label_names c ! 1 = ''host''" "build_label_names c ! 4 = ''link''" "4 < length (build_label_names c)"
  by (simp_all add: build_label_names_def base_label_names_def)

lemma label_values_host_link:
  "host_link (label_values (build_label_names c) (base_labels ip host source tos link) custom) = (host, link)"
  using names_at [of c] by (simp add: host_link_def label_value_base base_labels_def)

lemma local_host_link: "host_link (build_label_values (build_label_names c) pr ip) = (pg_addr (pr_pinger pr), [])"
  by (simp add: build_label_values_def label_values_host_link Let_def)

lemma remote_host_link: "host_link (remote_label_values (build_label_names c) t) = (t_host t, t_link t)"
  by (simp add: remote_label_values_def label_values_host_link)

lemma collected_series:
  "map snd (collect stats sent c) =
     map (\<lambda>pr. build_label_values (cl_names c) pr (fst (stats (pr_pinger pr)))) (cl_probes c) @
     map (remote_label_values (cl_names c)) (cl_remote c)"
proof -
  have "map (\<lambda>x. remote_label_values (cl_names c) (snd x)) (enumerate k ts) = map (remote_label_values (cl_names c)) ts" for k ts
    by (induction ts arbitrary: k) simp_all
  then show ?thesis by (simp add: collect_def comp_def case_prod_beta)
qed

lemma collected_host_links:
  assumes "cl_names c = build_label_names cf"
  shows "map (host_link \<circ> snd) (collect stats sent c) =
    map (\<lambda>pr. (pg_addr (pr_pinger pr), [])) (cl_probes c) @ map (\<lambda>t. (t_host t, t_link t)) (cl_remote c)"
proof -
  have "map (host_link \<circ> snd) (collect stats sent c) = map host_link (map snd (collect stats sent c))" by simp
  then show ?thesis
    by (simp add: collected_series assms local_host_link remote_host_link comp_def del: map_map add: map_map)
qed

section \<open>The remote targets\<close>

lemma host_targets_links:
  assumes "distinct (map ln_name ls)"
  shows "distinct (map t_link (List.map_filter (link_target tg h a) ls))"
    and "set (map t_link (List.map_filter (link_target tg h a) ls)) \<subseteq> set (map ln_name ls)"
proof -
  have "distinct (map t_link (List.map_filter (link_target tg h a) ls)) \<and>
      set (map t_link (List.map_filter (link_target tg h a) ls)) \<subseteq> set (map ln_name ls)"
    using assms
  proof (induction ls)
    case (Cons l ls)
    have "link_target tg h a l = Some t \<Longrightarrow> t_link t = ln_name l" for t
      by (auto simp: link_target_def Let_def split: if_splits)
    with Cons show ?case by (auto split: option.split)
  qed simp
  then show "distinct (map t_link (List.map_filter (link_target tg h a) ls))"
    "set (map t_link (List.map_filter (link_target tg h a) ls)) \<subseteq> set (map ln_name ls)" by blast+
qed

lemma select_links_distinct: "router_ok r \<Longrightarrow> distinct (map ln_name (select_links r names))"
  by (simp add: router_ok_def select_links_def distinct_map_filter)

lemma built_host_links:
  assumes "router_ok r" and "distinct (tg_hosts tg)" and "build_targets tg r res = Inr ts"
  shows "distinct (map (\<lambda>t. (t_host t, t_link t)) ts)"
proof -
  obtain as where as: "list_all2 (\<lambda>h a. res h (tg_network tg) = Inr a \<and> host_targets tg r h a \<noteq> []) (tg_hosts tg) as"
    and ts: "ts = concat (map2 (host_targets tg r) (tg_hosts tg) as)"
    using assms(3) by (auto simp: build_targets_Inr)
  have len: "length as = length (tg_hosts tg)" using as by (simp add: list_all2_lengthD)
  have host: "t_host t = h" if "t \<in> set (host_targets tg r h a)" for t h a
    using that by (auto simp: host_targets_mem link_target_def Let_def split: if_splits)
  let ?f = "\<lambda>(h, a). map (\<lambda>t. (t_host t, t_link t)) (host_targets tg r h a)"
  have "distinct (concat (map (\<lambda>(h, a). [h]) (zip (tg_hosts tg) as)))"
    unfolding concat_zip_heads [OF len] by (rule assms(2))
  moreover have "distinct (?f x)" for x
  proof (cases x)
    case (Pair h a)
    have "distinct (map t_link (host_targets tg r h a))"
      unfolding host_targets_def by (rule host_targets_links(1) [OF select_links_distinct [OF assms(1)]])
    then have "distinct (map (\<lambda>t. (t_host t, t_link t)) (host_targets tg r h a))"
      by (auto simp: distinct_map inj_on_def)
    then show ?thesis using Pair by simp
  qed
  moreover have "fst y \<in> set ((\<lambda>(h, a). [h]) x)" if "y \<in> set (?f x)" for x y
    using that host by (cases x) auto
  ultimately have "distinct (concat (map ?f (zip (tg_hosts tg) as)))" by (rule distinct_concat_keys)
  moreover have "map (\<lambda>t. (t_host t, t_link t)) ts = concat (map ?f (zip (tg_hosts tg) as))"
    by (simp add: ts map_concat comp_def case_prod_unfold)
  ultimately show "distinct (map (\<lambda>t. (t_host t, t_link t)) ts)" by simp
qed

lemma prepared_remote_targets:
  assumes "prepare e fl c rec s = Inr s'" and "config_ok c"
  shows "concat (map (\<lambda>p. sd_targets (rm_sched p)) (sp_prepared_remote s')) = concat (map (router_targets e c) (cf_routers c))"
proof -
  have "concat (map (\<lambda>p. sd_targets (rm_sched p)) ps) = concat (map (router_targets e c) rs)"
    if "list_all2 (\<lambda>r. prober_of e rec r (router_targets e c r)) rs ps" for rs ps
    using that by (induction rule: list_all2_induct) (simp_all add: prober_of_def new_scheduler_def)
  from this [OF prepare_Inr(2) [OF assms]]
  have "concat (map (\<lambda>p. sd_targets (rm_sched p)) (sp_prepared_remote s')) =
      concat (map (router_targets e c) (filter (\<lambda>r. router_targets e c r \<noteq> []) (cf_routers c)))" .
  then show ?thesis by (simp only: concat_filter_nonempty)
qed

lemma group_targets_links:
  assumes "config_ok c" and "tg \<in> set (cf_targets c)" and "tg_router tg \<noteq> []"
  shows "distinct (tg_hosts tg) \<Longrightarrow> distinct (map (\<lambda>t. (t_host t, t_link t)) (group_targets e c tg))"
    and "t \<in> set (group_targets e c tg) \<Longrightarrow> t_host t \<in> set (tg_hosts tg) \<and> t_link t \<noteq> []"
proof -
  obtain r where r: "find_router c (tg_router tg) = (r, True)" "router_ok r"
    using find_router_ok [OF assms] by metis
  show "distinct (map (\<lambda>t. (t_host t, t_link t)) (group_targets e c tg))" if d: "distinct (tg_hosts tg)"
    using built_host_links [OF r(2) d, where res = "resolve (en_lookup e)"]
    by (simp add: group_targets_def r(1) split: sum.split)
  show "t_host t \<in> set (tg_hosts tg) \<and> t_link t \<noteq> []" if t: "t \<in> set (group_targets e c tg)"
  proof (cases "build_targets tg r (resolve (en_lookup e))")
    case (Inl x)
    then show ?thesis using t by (simp add: group_targets_def r(1))
  next
    case (Inr ts)
    then have "t \<in> set ts" using t by (simp add: group_targets_def r(1))
    from built_target [OF Inr this] obtain h a l where l: "h \<in> set (tg_hosts tg)" "l \<in> set (select_links r (tg_links tg))"
      "link_target tg h a l = Some t" by metis
    have "link_ok l" using r(2) l(2) set_select_links by (fastforce simp: router_ok_def list_all_iff)
    then show ?thesis using l(1,3) by (auto simp: link_target_def Let_def link_ok_def split: if_splits)
  qed
qed

lemma remote_host_links:
  assumes "config_ok c" and "distinct (concat (map tg_hosts (cf_targets c)))"
  shows "distinct (map (\<lambda>t. (t_host t, t_link t)) (concat (map (router_targets e c) (cf_routers c))))"
    and "t \<in> set (concat (map (router_targets e c) (cf_routers c))) \<Longrightarrow> t_link t \<noteq> []"
proof -
  let ?hl = "map (\<lambda>t. (t_host t, t_link t))" and ?groups = "\<lambda>r. filter (\<lambda>tg. tg_router tg = rt_name r) (cf_targets c)"
  have named: "rt_name r \<noteq> []" if "r \<in> set (cf_routers c)" for r
    using assms(1) that by (auto simp: config_ok_def router_ok_def list_all_iff)
  have one: "distinct (tg_hosts tg)" if "tg \<in> set (cf_targets c)" for tg
    using assms(2) that by (metis distinct_concat_iff in_set_conv_nth length_map nth_map)
  have in_hosts: "t_host t \<in> set (tg_hosts tg) \<and> t_link t \<noteq> []"
    if "r \<in> set (cf_routers c)" "tg \<in> set (?groups r)" "t \<in> set (group_targets e c tg)" for r tg t
    using group_targets_links(2) [OF assms(1) _ _ that(3)] named [OF that(1)] that(2) by simp
  have "distinct (concat (map (\<lambda>tg. ?hl (group_targets e c tg)) (?groups r)))" if r: "r \<in> set (cf_routers c)" for r
  proof (rule distinct_concat_keys [where ks = tg_hosts and key = fst])
    show "distinct (concat (map tg_hosts (?groups r)))" by (rule distinct_concat_filter [OF assms(2)])
    show "distinct (?hl (group_targets e c tg))" if "tg \<in> set (?groups r)" for tg
      using group_targets_links(1) [OF assms(1) _ _ one, where e = e and tg = tg] named [OF r] that by simp
    show "fst y \<in> set (tg_hosts tg)" if "tg \<in> set (?groups r)" "y \<in> set (?hl (group_targets e c tg))" for tg y
      using in_hosts [OF r that(1)] that(2) by auto
  qed
  then have "distinct (?hl (router_targets e c r))" if "r \<in> set (cf_routers c)" for r
    using that by (simp add: router_targets_def map_concat comp_def)
  moreover have "set (?hl (router_targets e c r)) \<inter> set (?hl (router_targets e c q)) = {}"
    if "r \<in> set (cf_routers c)" "q \<in> set (cf_routers c)" "r \<noteq> q" for r q
  proof (rule ccontr)
    assume "set (?hl (router_targets e c r)) \<inter> set (?hl (router_targets e c q)) \<noteq> {}"
    then obtain t u where tu: "t \<in> set (router_targets e c r)" "u \<in> set (router_targets e c q)" "t_host t = t_host u"
      by (auto simp: disjoint_iff)
    obtain tg where tg: "tg \<in> set (?groups r)" "t \<in> set (group_targets e c tg)"
      using tu(1) unfolding router_targets_def by auto
    obtain tu where tu': "tu \<in> set (?groups q)" "u \<in> set (group_targets e c tu)"
      using tu(2) unfolding router_targets_def by auto
    have g: "tg \<in> set (?groups r)" "tu \<in> set (?groups q)" "t_host t \<in> set (tg_hosts tg)" "t_host t \<in> set (tg_hosts tu)"
      using tg tu' in_hosts [OF that(1) tg] in_hosts [OF that(2) tu'] tu(3) by simp_all
    then have "tg = tu" using concat_keys_unique [OF assms(2), of tg tu "t_host t"] by simp
    then have "rt_name r = rt_name q" using g by simp
    then show False using assms(1) that by (auto simp: config_ok_def distinct_map inj_on_def)
  qed
  moreover have "distinct (cf_routers c)" using assms(1) by (auto simp: config_ok_def distinct_map)
  ultimately have "distinct (concat (map (\<lambda>r. ?hl (router_targets e c r)) (cf_routers c)))"
    by (intro distinct_concat_map)
  then show "distinct (?hl (concat (map (router_targets e c) (cf_routers c))))" by (simp add: map_concat comp_def)
  show "t_link t \<noteq> []" if mem: "t \<in> set (concat (map (router_targets e c) (cf_routers c)))"
  proof -
    obtain r where r: "r \<in> set (cf_routers c)" "t \<in> set (router_targets e c r)" using mem by auto
    obtain tg where tg: "tg \<in> set (?groups r)" "t \<in> set (group_targets e c tg)"
      using r(2) unfolding router_targets_def by auto
    show ?thesis using in_hosts [OF r(1) tg] by simp
  qed
qed

section \<open>Distinct and clashing series\<close>

text \<open>What a reload that succeeded serves.\<close>

lemma launch_started:
  assumes "launch sc lg names hist m unregister s = Some (pb :: ('f, 't) prober)" and "size_of_prepared s \<noteq> 0"
  shows "sp_started (pb_pingers pb) = sp_prepared s"
proof -
  obtain evs s' where s': "start_pingers s = (evs :: 'f event list, s')" by (cases "start_pingers s :: 'f event list \<times> _")
  then have "sp_started s' = sp_prepared s" using start_pingers_fields(2) [OF assms(2)] by (metis snd_conv)
  then show ?thesis using assms(1) s' by (auto simp: launch_def Let_def split: option.splits if_splits)
qed

lemma reloaded_collector:
  assumes "sound pb" and "reload e fl bs factor pb = Some (None, pb')"
  obtains rec and s and s' where "prepare e fl (sc_config (pb_config pb')) rec s = Inr s'"
    and "config_ok (sc_config (pb_config pb'))"
    and "cl_names (pb_collector pb') = build_label_names (sc_config (pb_config pb'))"
    and "cl_probes (pb_collector pb') = slice (sp_prepared s')"
    and "cl_remote (pb_collector pb') = concat (map (\<lambda>p. sd_targets (rm_sched p)) (sp_prepared_remote s'))"
proof -
  from assms(2) obtain c sc hist m s where
    c: "sc_config sc = c" "pb_config pb' = sc" and
    s: "prepare e fl c (new_remote_recorder (build_label_names c) hist m) (pb_pingers pb) = Inr s" "size_of_prepared s \<noteq> 0" and
    l: "launch sc (pb_log pb @ calls_since (pb_metrics pb) m) (build_label_names c) hist m
      (\<lambda>m. emit [Unregister (cl_id (pb_collector pb))] m) s = Some pb'"
    by (rule reload_succeeded)
  have ok: "prober_ok pb'" by (rule reload_cases(2) [OF assms refl])
  then have w: "cl_names (pb_collector pb') = build_label_names c" "cl_probes (pb_collector pb') = slice (sp_started (pb_pingers pb'))"
    "cl_remote (pb_collector pb') = remote_targets (pb_pingers pb')" "config_ok c"
    using c by (simp_all add: prober_ok_def sound_def writers_ok_def Let_def)
  have "sp_started (pb_pingers pb') = sp_prepared s" "sp_started_remote (pb_pingers pb') = sp_prepared_remote s"
    by (rule launch_started [OF l s(2)], rule launch_log(2) [OF l s(2)])
  with that [OF s(1) [folded c(1), folded c(2)]] w c show ?thesis by (simp add: remote_targets_def)
qed


section \<open>Samples\<close>

lemma sample_pinger_ok: "pinger_ok (sample_env file)"
  by (auto simp: pinger_ok_def sample_pinger_def sample_ip_def)

text \<open>A local group with a host that the group of the router pings, too.\<close>

definition shared_group :: target_group where
  "shared_group = default_target_group\<lparr>tg_hosts := [''1.1.1.1''], tg_labels := [(''site'', ''x'')]\<rparr>"

lemma shared_group_fields:
  "valid_packet_size (tg_size shared_group)" "tg_router shared_group = []"
  by (simp_all add: valid_packet_size_def shared_group_def default_defs)

lemma shared_config_ok: "config_ok (sample_with shared_group)"
proof -
  have "target_ok (sample_with shared_group) sample_group"
    using sample_group_ok by (simp add: target_ok_def sample_with_def) (simp add: sample_router_def sample_group_def)
  moreover have "target_ok (sample_with shared_group) shared_group"
    by (simp add: target_ok_def local_group_ok_def shared_group_def default_defs)
  ultimately show ?thesis using sample_router_ok by (simp add: config_ok_def) (simp add: sample_with_def)
qed

section \<open>Properties\<close>

text \<open>
  C31: The collector of a prober whose hosts are named once delivers no series twice, for which a scrape
  would be refused.  After a reload into a file whose groups, and the command line, name every host at most
  once in all, the series that it delivers have different label values, whatever the hosts resolve to:
  the local probes differ in the host, the remote targets in the host or the link, and a remote target
  has a link while a local probe has none.
\<close>

theorem distinct_hosts_collected:
  assumes "sound pb" and "reload e fl bs factor pb = Some (None, pb')"
    and "pinger_ok e" and "distinct (fl_hosts fl @ concat (map tg_hosts (cf_targets (sc_config (pb_config pb')))))"
  shows "distinct (map snd (collect stats sent (pb_collector pb')))"
proof -
  let ?c = "sc_config (pb_config pb')" and ?cl = "pb_collector pb'"
  obtain rec s s' where p: "prepare e fl ?c rec s = Inr s'" "config_ok ?c" "cl_names ?cl = build_label_names ?c"
    "cl_probes ?cl = slice (sp_prepared s')" "cl_remote ?cl = concat (map (\<lambda>p. sd_targets (rm_sched p)) (sp_prepared_remote s'))"
    by (rule reloaded_collector [OF assms(1,2)])
  obtain ps news where n: "slice (sp_prepared s') = ps @ concat news" "map (\<lambda>pr. pg_addr (pr_pinger pr)) ps = fl_hosts fl"
    "list_all2 (\<lambda>tg new. list_all2 (probe_of e tg) (tg_hosts tg) new) (cf_targets ?c) news"
    by (rule prepare_probes [OF assms(3) p(1)])
  have hosts: "map (\<lambda>pr. pg_addr (pr_pinger pr)) (cl_probes ?cl) = fl_hosts fl @ concat (map tg_hosts (cf_targets ?c))"
    using probes_addresses [OF assms(3) n(3)] by (simp add: p(4) n(1,2))
  have "distinct (map (\<lambda>pr. (pg_addr (pr_pinger pr), [] :: string)) (cl_probes ?cl))"
    using assms(4) unfolding hosts [symmetric] by (auto simp: distinct_map inj_on_def)
  moreover note re = remote_host_links [OF p(2), where e = e, folded prepared_remote_targets [OF p(1,2)], folded p(5)]
  have "distinct (map (\<lambda>t. (t_host t, t_link t)) (cl_remote ?cl))" by (rule re(1)) (use assms(4) in simp)
  moreover have "\<forall>t \<in> set (cl_remote ?cl). [] \<noteq> t_link t" using re(2) assms(4) by fastforce
  ultimately have "distinct (map (host_link \<circ> snd) (collect stats sent ?cl))"
    unfolding collected_host_links [OF p(3)] by auto
  then show ?thesis by (metis distinct_map map_map)
qed

lemma distinct_hosts_collected_witness:
  "\<exists>pb pb'. sample_startup = Some (Inr pb) \<and>
     reload (sample_env (Some sample_config)) sample_flags [0] 0 pb =
       Some (None :: (unit, unit, unit, unit, unit) failure option, pb') \<and>
     distinct (map snd (collect (\<lambda>p. (pg_ip p, 0)) (\<lambda>_. 0) (pb_collector pb')))"
proof -
  obtain pb where pb: "startup (sample_env (Some start_config)) (\<lambda>_. True) (\<lambda>_. Inr 0) sample_flags ''1'' 0 =
      Some (Inr pb :: (unit, unit, unit, unit, unit) failure + (nat, nat) prober)" "prober_ok pb"
      "sc_config (pb_config pb) = start_config" by (rule sample_prober)
  obtain pb' where r: "reload (sample_env (Some sample_config)) sample_flags [0] 0 pb =
      Some (None :: (unit, unit, unit, unit, unit) failure option, pb')" by (rule started_reload [OF pb(2,3)])
  have so: "sound pb" using pb(2) by (simp add: prober_ok_def)
  have "sc_config (pb_config pb') = sample_config"
    using r by (rule reload_succeeded) (simp add: sample_load [OF sample_config_ok])
  then have "distinct (fl_hosts sample_flags @ concat (map tg_hosts (cf_targets (sc_config (pb_config pb')))))"
    by (simp add: sample_flags_def sample_defs)
  from distinct_hosts_collected [OF so r sample_pinger_ok this] r pb(1) show ?thesis by (auto simp: sample_startup_def)
qed

text \<open>
  C32: \<open>Validate\<close> accepts files that make every scrape fail.  If two groups of a file, one of them possibly
  with a router and one without, name the same literal address with the same source, ToS and labels,
  be it for other networks, sizes or intervals, then after a reload into it the collector delivers two
  metrics with the same label values.
\<close>

theorem shared_host_clashes:
  assumes "sound pb" and "reload e fl bs factor pb = Some (None, pb')"
    and "pinger_ok e" and "\<And>p. fst (stats p) = pg_ip p"
    and "cf_targets (sc_config (pb_config pb')) = gs1 @ g1 # gs2 @ g2 # gs3" and "h \<in> set (tg_hosts g1)" and "h \<in> set (tg_hosts g2)"
    and "parse_ip h = Some a" and "tg_source g1 = tg_source g2" and "tg_tos g1 = tg_tos g2" and "tg_labels g1 = tg_labels g2"
  shows "\<not> distinct (map snd (collect stats sent (pb_collector pb')))"
proof -
  let ?c = "sc_config (pb_config pb')" and ?cl = "pb_collector pb'"
  obtain rec s s' where p: "prepare e fl ?c rec s = Inr s'" "cl_probes ?cl = slice (sp_prepared s')"
    by (rule reloaded_collector [OF assms(1,2)])
  obtain ps news where n: "slice (sp_prepared s') = ps @ concat news"
    "list_all2 (\<lambda>tg new. list_all2 (probe_of e tg) (tg_hosts tg) new) (cf_targets ?c) news"
    by (rule prepare_probes [OF assms(3) p(1)])
  obtain n1 as n2 bs n3 where ab: "news = n1 @ as # n2 @ bs # n3" "list_all2 (probe_of e g1) (tg_hosts g1) as"
    "list_all2 (probe_of e g2) (tg_hosts g2) bs"
    using n(2) unfolding assms(5) by (auto simp: list_all2_append1 list_all2_Cons1)
  obtain x where x: "x \<in> set as" "probe_of e g1 h x" using ab(2) assms(6) by (metis list_all2_conv_all_nth in_set_conv_nth)
  obtain y where y: "y \<in> set bs" "probe_of e g2 h y" using ab(3) assms(7) by (metis list_all2_conv_all_nth in_set_conv_nth)
  let ?f = "\<lambda>pr. build_label_values (cl_names ?cl) pr (fst (stats (pr_pinger pr)))"
  note fx = probe_of_fields [OF assms(3) x(2)] and fy = probe_of_fields [OF assms(3) y(2)]
  have "?f x = ?f y"
    using fx(1-4) fy(1-4) fx(5) [OF assms(8)] fy(5) [OF assms(8)] assms(4,9-11)
    by (simp add: build_label_values_def Let_def)
  then have "\<not> distinct (map ?f (cl_probes ?cl))" using x(1) y(1) by (auto simp: p(2) n(1) ab(1))
  then show ?thesis by (simp add: collected_series)
qed

lemma shared_host_clashes_witness:
  "\<exists>pb pb'. sample_startup = Some (Inr pb) \<and> validate (sample_with shared_group) = Inr () \<and>
     reload (sample_env (Some (sample_with shared_group))) sample_flags [0] 0 pb =
       Some (None :: (unit, unit, unit, unit, unit) failure option, pb') \<and>
     \<not> distinct (map snd (collect (\<lambda>p. (pg_ip p, 0)) (\<lambda>_. 0) (pb_collector pb')))"
proof -
  obtain pb where pb: "startup (sample_env (Some start_config)) (\<lambda>_. True) (\<lambda>_. Inr 0) sample_flags ''1'' 0 =
      Some (Inr pb :: (unit, unit, unit, unit, unit) failure + (nat, nat) prober)" "prober_ok pb"
      "sc_config (pb_config pb) = start_config" by (rule sample_prober)
  have so: "sound pb" using pb(2) by (simp add: prober_ok_def)
  have "build_label_names (sample_with shared_group) = build_label_names (sc_config (pb_config pb))"
    by (simp add: pb(3) sample_label_names)
      (simp add: build_label_names_def base_label_names_def sample_with_def shared_group_def sample_defs)
  then obtain pb' where r: "reload (sample_env (Some (sample_with shared_group))) sample_flags [0] 0 pb =
      Some (None :: (unit, unit, unit, unit, unit) failure option, pb')"
    by (rule sample_reload_with [OF so shared_config_ok _ shared_group_fields])
  have "sc_config (pb_config pb') = sample_with shared_group"
    using r by (rule reload_succeeded) (simp add: sample_load [OF shared_config_ok])
  then have g: "cf_targets (sc_config (pb_config pb')) = [] @ sample_group # [] @ shared_group # []" by (simp add: sample_with_def)
  have h: "''1.1.1.1'' \<in> set (tg_hosts sample_group)" "''1.1.1.1'' \<in> set (tg_hosts shared_group)"
    "tg_source sample_group = tg_source shared_group" "tg_tos sample_group = tg_tos shared_group"
    "tg_labels sample_group = tg_labels shared_group"
    by (simp_all add: shared_group_def sample_group_def default_defs)
  have "parse_ip ''1.1.1.1'' = Some (v4_prefix @ [1, 1, 1, 1])" by (simp add: parse_ip_eval)
  from shared_host_clashes [OF so r sample_pinger_ok _ g h(1,2) this h(3-5), of "\<lambda>p. (pg_ip p, 0)" "\<lambda>_. 0"] r pb(1)
    validate_Inr [of "sample_with shared_group"] shared_config_ok
  show ?thesis by (auto simp: sample_startup_def)
qed

end
