(* ===== verification/Web.thy ===== *)
theory Web
  imports Prober_Theorems
begin

text \<open>
  The web server of main.go: which pages it has, and what a request gets.  Patterns are those of
  \<open>net/http\<close>'s \<open>ServeMux\<close>, for paths without wildcards: a pattern that ends in a slash stands for all
  paths below it, any other for itself, and the longest wins; an empty pattern, one without a
  slash and one that is registered already make \<open>Handle\<close> panic.  What the metrics page and the landing page
  show is the library's.
\<close>

section \<open>The pages\<close>

datatype page = MetricsPage | HealthPage | ReloadPage | LandingPage

definition web_pages :: "string \<Rightarrow> (string \<times> page) list" where
  "web_pages metrics_path =
     [(metrics_path, MetricsPage), (''/-/healthy'', HealthPage), (''/-/reload'', ReloadPage)] @
     (if metrics_path \<noteq> ''/'' \<and> metrics_path \<noteq> [] then [(''/'', LandingPage)] else [])"

text \<open>\<open>Handle\<close> for each of them; \<open>None\<close> is a panic.\<close>

fun handle_all :: "(string \<times> page) list \<Rightarrow> (string \<times> page) list \<Rightarrow> (string \<times> page) list option" where
  "handle_all mux [] = Some mux"
| "handle_all mux ((p, h) # ps) =
     (if CHR ''/'' \<notin> set p \<or> p \<in> fst ` set mux then None else handle_all (mux @ [(p, h)]) ps)"

definition pattern_matches :: "string \<Rightarrow> string \<Rightarrow> bool" where
  "pattern_matches p path \<longleftrightarrow> p = path \<or> (p \<noteq> [] \<and> last p = CHR ''/'' \<and> take (length p) path = p)"

fun find_page :: "(string \<times> page) list \<Rightarrow> string \<Rightarrow> (string \<times> page) option" where
  "find_page [] path = None"
| "find_page ((p, h) # mux) path =
     (case find_page mux path of
        Some (q, k) \<Rightarrow> if pattern_matches p path \<and> length q < length p then Some (p, h) else Some (q, k)
      | None \<Rightarrow> if pattern_matches p path then Some (p, h) else None)"

text \<open>A request to a running prober, \<open>None\<close> if it ends the process.  \<open>scrape\<close> and \<open>landing\<close> are what the library answers.\<close>

definition respond ::
  "(string \<times> page) list \<Rightarrow> (('f, 't) prober \<Rightarrow> answer) \<Rightarrow> answer \<Rightarrow> (('p, 'd, 'o, 'y, unit) failure \<Rightarrow> string) \<Rightarrow> flags
     \<Rightarrow> 'f list \<Rightarrow> 'f \<Rightarrow> ('p, 'd, 'o, 'y, 'file, 't) env \<Rightarrow> string \<Rightarrow> string \<Rightarrow> ('f, 't) prober \<Rightarrow> (answer \<times> ('f, 't) prober) option" where
  "respond mux scrape landing show_error fl bs factor e http_method path pb =
     (case map_option snd (find_page mux path) of
        Some MetricsPage \<Rightarrow> Some (scrape pb, pb)
      | Some HealthPage \<Rightarrow> Some (Status 200 ''Healthy'', pb)
      | Some ReloadPage \<Rightarrow> serve_request show_error fl bs factor (HttpReload http_method, e) pb
      | Some LandingPage \<Rightarrow> Some (landing, pb)
      | None \<Rightarrow> Some (Status 404 (''404 page not found'' @ [CHR 0x0A]), pb))"

section \<open>Which page a path gets\<close>

definition plain_path :: "string \<Rightarrow> bool" where
  "plain_path p \<longleftrightarrow> p \<noteq> [] \<and> hd p = CHR ''/'' \<and> last p \<noteq> CHR ''/''"

lemma plain_path_matches: "plain_path p \<Longrightarrow> pattern_matches p path \<longleftrightarrow> p = path"
  by (simp add: pattern_matches_def plain_path_def)

lemma pattern_matches_self [simp]: "pattern_matches p p"
  by (simp add: pattern_matches_def)

lemma root_matches: "pattern_matches ''/'' path \<longleftrightarrow> path \<noteq> [] \<and> hd path = CHR ''/''"
  by (cases path) (auto simp: pattern_matches_def)

lemma web_pages_handled:
  assumes "plain_path m" and "m \<noteq> ''/-/healthy''" and "m \<noteq> ''/-/reload''"
  shows "handle_all [] (web_pages m) = Some (web_pages m)"
proof -
  have "CHR ''/'' \<in> set m" using assms(1) by (cases m) (simp_all add: plain_path_def)
  moreover have "m \<noteq> ''/''" "m \<noteq> []" using assms(1) by (auto simp: plain_path_def)
  ultimately show ?thesis using assms(2,3) by (auto simp: web_pages_def)
qed

lemma found_page:
  assumes "plain_path m" and "m \<noteq> ''/-/healthy''" and "m \<noteq> ''/-/reload''" and "path \<noteq> []" and "hd path = CHR ''/''"
  shows "map_option snd (find_page (web_pages m) path) =
    Some (if path = m then MetricsPage else if path = ''/-/healthy'' then HealthPage
      else if path = ''/-/reload'' then ReloadPage else LandingPage)"
proof -
  have m: "m \<noteq> ''/''" "m \<noteq> []" "1 < length m" using assms(1) by (cases m; auto simp: plain_path_def)+
  have h: "plain_path ''/-/healthy''" "plain_path ''/-/reload''" by (simp_all add: plain_path_def)
  show ?thesis
    using m assms(2-5) by (auto simp: web_pages_def root_matches plain_path_matches [OF assms(1)]
        plain_path_matches [OF h(1)] plain_path_matches [OF h(2)])
qed

text \<open>
  An empty path for the metrics makes the program panic before it serves anything, although the
  condition on the landing page provides for it.
\<close>

lemma empty_metrics_path_panics: "handle_all [] (web_pages []) = None"
  by (simp add: web_pages_def)

section \<open>Properties\<close>

text \<open>
  Every path gets its page.  With a metrics path that starts with a slash, does not end with one and
  is not one of the two fixed paths, no registration panics; the metrics, the health check and the
  reload are served at exactly their paths and the landing page everywhere else; and the health
  check, the metrics and the landing page never touch the running prober.
\<close>

theorem web_pages_served:
  assumes "plain_path m" and "m \<noteq> ''/-/healthy''" and "m \<noteq> ''/-/reload''" and "path \<noteq> []" and "hd path = CHR ''/''"
  shows "handle_all [] (web_pages m) = Some (web_pages m) \<and>
    respond (web_pages m) scrape landing show_error fl bs factor e http_method path pb =
      (if path = m then Some (scrape pb, pb)
       else if path = ''/-/healthy'' then Some (Status 200 ''Healthy'', pb)
       else if path = ''/-/reload'' then serve_request show_error fl bs factor (HttpReload http_method, e) pb
       else Some (landing, pb))"
  unfolding respond_def found_page [OF assms] by (simp add: web_pages_handled [OF assms(1-3)])

lemma web_pages_served_witness:
  "\<exists>pb. sample_startup = Some (Inr pb) \<and>
     respond (web_pages ''/metrics'') (\<lambda>_. NoAnswer) NoAnswer (\<lambda>_. []) sample_flags [0] 0 (sample_env None) ''GET'' ''/-/healthy'' pb =
       Some (Status 200 ''Healthy'', pb) \<and>
     respond (web_pages ''/metrics'') (\<lambda>_. NoAnswer) NoAnswer (\<lambda>_. []) sample_flags [0] 0 (sample_env None) ''GET'' ''/-/reload'' pb =
       Some (Status 405 (''This endpoint requires a POST request.'' @ [CHR 0x0A]), pb)"
proof -
  have m: "plain_path ''/metrics''" by (simp add: plain_path_def)
  obtain pb where pb: "sample_startup = Some (Inr pb)" using sample_startup_Inr by blast
  have "respond (web_pages ''/metrics'') (\<lambda>_. NoAnswer) NoAnswer (\<lambda>_. []) sample_flags [0] 0 (sample_env None) ''GET'' ''/-/healthy'' pb =
       Some (Status 200 ''Healthy'', pb)"
    by (subst web_pages_served [OF m, THEN conjunct2]) simp_all
  moreover have "respond (web_pages ''/metrics'') (\<lambda>_. NoAnswer) NoAnswer (\<lambda>_. []) sample_flags [0] 0 (sample_env None) ''GET'' ''/-/reload'' pb =
       Some (Status 405 (''This endpoint requires a POST request.'' @ [CHR 0x0A]), pb)"
    by (subst web_pages_served [OF m, THEN conjunct2]) (simp_all add: serve_request_def)
  ultimately show ?thesis using pb by blast
qed

end
