(* ===== verification/Scheduler_Live.thy ===== *)
theory Scheduler_Live
  imports Scheduler_Spec
begin

text \<open>
  No target starves for good: whatever the state of an execution that was not cancelled, there is a
  continuation, of a length that is linear in the number of targets, after which a worker pings a
  given target.  The argument is a distance that some step always reduces.
\<close>

section \<open>Goroutines end only after the context is cancelled\<close>

fun worker_alive :: "'r worker \<Rightarrow> bool" where
  "worker_alive (Exiting _) = False"
| "worker_alive WorkerDone = False"
| "worker_alive _ = True"

definition alive :: "'r sched \<Rightarrow> bool" where
  "alive s \<longleftrightarrow> list_all worker_alive (sd_workers s) \<and> TimerDone \<notin> set (sd_timers s)"

definition alive_ok :: "'r sched \<Rightarrow> bool" where
  "alive_ok s \<longleftrightarrow> (sd_ctx s \<noteq> Cancelled \<longrightarrow> alive s)"

lemma alive_set_worker:
  "alive s \<Longrightarrow> worker_alive p \<Longrightarrow> sd_workers s' = sd_workers s \<Longrightarrow> sd_timers s' = sd_timers s \<Longrightarrow> alive (set_worker w p s')"
  using set_update_subset_insert [of "sd_workers s" w p] by (auto simp: alive_def list_all_iff set_worker_def)

lemma alive_set_timer:
  "alive s \<Longrightarrow> p \<noteq> TimerDone \<Longrightarrow> sd_workers s' = sd_workers s \<Longrightarrow> sd_timers s' = sd_timers s \<Longrightarrow> alive (set_timer i p s')"
  using set_update_subset_insert [of "sd_timers s" i p] by (auto simp: alive_def set_timer_def)

lemma ctx_fields [simp]:
  "sd_ctx (set_worker w p s) = sd_ctx s" "sd_ctx (set_timer i q s) = sd_ctx s" "sd_ctx (count_error e s) = sd_ctx s"
  "sd_ctx (count_skip s) = sd_ctx s" "sd_ctx (add_up k s) = sd_ctx s"
  "sd_ctx (record_outcome i jo s) = sd_ctx s" "sd_ctx (enqueue_claim i s) = sd_ctx s" "sd_ctx (enqueue_send i s) = sd_ctx s"
  by (simp_all add: sched_defs split: option.split)

lemma step_alive: "step opens runs tm cl s a s' \<Longrightarrow> alive_ok s \<Longrightarrow> alive_ok s'"
proof (induction rule: step.induct)
  case (claim i s)
  then show ?case by (auto simp: alive_ok_def enqueue_claim_def intro: alive_set_timer)
next
  case (send i s)
  then show ?case by (auto simp: alive_ok_def enqueue_send_def intro: alive_set_timer)
next
  case (cancelled s)
  then show ?case by (auto simp: alive_ok_def cancel_def)
next
  case (worker_exits w s r)
  then show ?case by (auto simp: alive_ok_def alive_def list_all_length)
qed (auto simp: alive_ok_def intro: alive_set_worker alive_set_timer)

lemma step_active: "step opens runs tm cl s a s' \<Longrightarrow> a \<noteq> Cancels \<Longrightarrow> sd_ctx s' = sd_ctx s"
  by (induction rule: step.induct) simp_all

lemma started_alive: "alive_ok (start (new_scheduler router n ts))"
  by (auto simp: alive_ok_def alive_def start_def new_scheduler_def list_all_iff)

lemma executes_alive:
  assumes "executes opens runs tm cl router n ts as s" and "sd_ctx s = Active"
  shows "alive s"
proof -
  have "alive_ok s"
    by (rule steps_invariant [OF assms(1) [unfolded executes_def], where P = alive_ok])
      (auto intro: started_alive step_alive)
  then show ?thesis using assms(2) by (simp add: alive_ok_def)
qed

lemma queue_length:
  assumes "holders_ok s"
  shows "length (sd_queue s) \<le> length (sd_targets s)"
proof -
  have "set (sd_queue s) \<subseteq> {..< length (sd_targets s)}" using assms by (auto simp: holders_ok_def shape_ok_def)
  then have "card (set (sd_queue s)) \<le> card {..< length (sd_targets s)}" by (intro card_mono) simp_all
  then show ?thesis using queue_distinct [OF assms] by (simp add: distinct_card)
qed

section \<open>The distance to the next ping of a target\<close>

fun to_idle :: "'r worker \<Rightarrow> nat" where
  "to_idle (Idle _) = 0"
| "to_idle (Dialing _) = 1"
| "to_idle (BackingOff _) = 2"
| "to_idle (Dropping _) = 2"
| "to_idle (Returning _ _ _) = 3"
| "to_idle (Running _ _) = 4"
| "to_idle (Dequeued _ _) = 5"
| "to_idle _ = 0"

fun timer_dist :: "timer \<Rightarrow> nat" where
  "timer_dist Claimed = 3"
| "timer_dist Firing = 4"
| "timer_dist _ = 5"

definition ahead :: "nat \<Rightarrow> nat list \<Rightarrow> nat" where
  "ahead i q = length (takeWhile (\<lambda>j. j \<noteq> i) q)"

lemma ahead_simps [simp]:
  "ahead i (i # q) = 0" "j \<noteq> i \<Longrightarrow> ahead i (j # q) = Suc (ahead i q)"
  by (simp_all add: ahead_def)

lemma ahead_last: "i \<notin> set q \<Longrightarrow> ahead i (q @ [i]) = length q"
  by (induction q) (auto simp: ahead_def)

lemma ahead_le: "ahead i q \<le> length q"
  by (simp add: ahead_def length_takeWhile_le)

text \<open>The first worker serves the queue.\<close>

definition dist :: "nat \<Rightarrow> 'r sched \<Rightarrow> nat" where
  "dist i s =
     (if \<exists>r. Dequeued r i \<in> set (sd_workers s) then 1
      else if i \<in> set (sd_queue s) then 6 * ahead i (sd_queue s) + to_idle (sd_workers s ! 0) + 2
      else 6 * length (sd_queue s) + to_idle (sd_workers s ! 0) +
        (if \<exists>r ok. Returning r i ok \<in> set (sd_workers s) then 6 else timer_dist (sd_timers s ! i)))"

definition pinging :: "nat \<Rightarrow> 'r sched \<Rightarrow> bool" where
  "pinging i s \<longleftrightarrow> (\<exists>r. Running r i \<in> set (sd_workers s))"

lemma dist_bound: "dist i s \<le> 6 * length (sd_queue s) + 11"
proof -
  have "to_idle (sd_workers s ! 0) \<le> 5" by (cases "sd_workers s ! 0") simp_all
  moreover have "timer_dist (sd_timers s ! i) \<le> 5" by (cases "sd_timers s ! i") simp_all
  ultimately show ?thesis using ahead_le [of i "sd_queue s"] by (simp add: dist_def)
qed

lemma record_outcome_queue [simp]: "sd_queue (record_outcome i jo s) = sd_queue s"
  by (simp add: record_outcome_def count_error_def Let_def split: option.split)

text \<open>What the queue's worker does next when it is not idle: one step closer to the queue.\<close>

context runner
begin

lemma step_to_idle:
  assumes "alive s" and "list_all shell_ok (sd_workers s)" and "sd_ctx s = Active" and "0 < length (sd_workers s)"
    and "opens r0" and "to_idle (sd_workers s ! 0) \<noteq> 0"
  shows "\<exists>a s'. step opens runs is_timeout is_closed s a s' \<and> a \<noteq> Cancels \<and> sd_queue s' = sd_queue s \<and>
    sd_timers s' = sd_timers s \<and> to_idle (sd_workers s' ! 0) < to_idle (sd_workers s ! 0)"
proof (cases "sd_workers s ! 0")
  case (Dialing b)
  show ?thesis
    by (rule exI, rule exI, rule conjI, rule dial_opens [where opens = opens and r = r0, OF assms(4) Dialing assms(5)])
      (use assms(4) Dialing in \<open>simp add: set_worker_def add_up_def\<close>)
next
  case (BackingOff b)
  show ?thesis
    by (rule exI, rule exI, rule conjI, rule backoff_ends [OF assms(4) BackingOff])
      (use assms(4) BackingOff in \<open>simp add: set_worker_def\<close>)
next
  case (Dropping r)
  show ?thesis
    by (rule exI, rule exI, rule conjI, rule shell_dropped [OF assms(4) Dropping])
      (use assms(4) Dropping in \<open>simp add: set_worker_def add_up_def\<close>)
next
  case (Returning r i ok)
  show ?thesis
    by (rule exI, rule exI, rule conjI, rule job_returns [OF assms(4) Returning])
      (use assms(4) Returning in \<open>simp add: set_worker_def set_pending_def\<close>)
next
  case (Running r i)
  have "shell_ok (Running r i)" using assms(2,4) Running by (metis list_all_length)
  then obtain a r' where a: "runs r (build_command (t_job (sd_targets s ! i))) (command_deadline (t_job (sd_targets s ! i))) a r'"
    using runs_total [of r] by (simp only: shell_ok.simps) blast
  show ?thesis
    by (rule exI, rule exI, rule conjI, rule job_answers [where runs = runs and a = a and r' = r', OF assms(4) Running a])
      (use assms(4) Running in \<open>simp add: set_worker_def\<close>)
next
  case (Dequeued r i)
  show ?thesis
    by (rule exI, rule exI, rule conjI, rule job_starts [OF assms(4) Dequeued])
      (use assms(3,4) Dequeued in \<open>simp_all add: set_worker_def\<close>)
qed (use assms(6) in simp_all)

text \<open>A step that makes the distance smaller, or makes the target's ping start.\<close>

lemma step_closer:
  assumes "alive s" and "list_all shell_ok (sd_workers s)" and "sd_ctx s = Active" and "0 < length (sd_workers s)"
    and "opens r0" and "holders_ok s" and "i < length (sd_targets s)" and "\<not> pinging i s"
  shows "\<exists>a s'. step opens runs is_timeout is_closed s a s' \<and> a \<noteq> Cancels \<and> (pinging i s' \<or> dist i s' < dist i s)"
proof -
  have shape: "length (sd_timers s) = length (sd_targets s)" using assms(6) by (simp add: holders_ok_def shape_ok_def)
  consider (dequeued) r where "Dequeued r i \<in> set (sd_workers s)"
    | (queued) "\<nexists>r. Dequeued r i \<in> set (sd_workers s)" "i \<in> set (sd_queue s)"
    | (returning) r ok where "\<nexists>r. Dequeued r i \<in> set (sd_workers s)" "i \<notin> set (sd_queue s)" "Returning r i ok \<in> set (sd_workers s)"
    | (free) "\<nexists>r. Dequeued r i \<in> set (sd_workers s)" "i \<notin> set (sd_queue s)" "\<nexists>r ok. Returning r i ok \<in> set (sd_workers s)"
    by blast
  then show ?thesis
  proof cases
    case dequeued
    then obtain w where w: "w < length (sd_workers s)" "sd_workers s ! w = Dequeued r i" by (metis in_set_conv_nth)
    have "step opens runs is_timeout is_closed s (Starts w) (set_worker w (Running r i) s)"
      by (rule job_starts [OF w]) (simp add: assms(3))
    moreover have "pinging i (set_worker w (Running r i) s)"
      using w(1) by (auto simp: pinging_def set_worker_def intro!: set_update_memI)
    ultimately show ?thesis by blast
  next
    case queued
    have others: "worker_target (sd_workers s ! w) \<noteq> Some i" if "w < length (sd_workers s)" for w
      using holders_exclusive(1) [OF assms(6) that] queued(2) by blast
    show ?thesis
    proof (cases "to_idle (sd_workers s ! 0) = 0")
      case False
      from step_to_idle [where opens = opens and ?r0.0 = r0, OF assms(1-5) False] obtain a s' where a: "step opens runs is_timeout is_closed s a s'" "a \<noteq> Cancels"
        "sd_queue s' = sd_queue s" "to_idle (sd_workers s' ! 0) < to_idle (sd_workers s ! 0)" by blast
      have "dist i s' < dist i s" using a(3,4) queued by (auto simp: dist_def)
      with a show ?thesis by blast
    next
      case True
      have "worker_alive (sd_workers s ! 0)" using assms(1,4) by (simp add: alive_def list_all_length)
      with True obtain r where idle: "sd_workers s ! 0 = Idle r" by (cases "sd_workers s ! 0") simp_all
      obtain j q where q: "sd_queue s = j # q" using queued(2) by (cases "sd_queue s") simp_all
      let ?s' = "set_worker 0 (Dequeued r j) (s\<lparr>sd_queue := q\<rparr>)"
      have st: "step opens runs is_timeout is_closed s (Dequeues 0) ?s'" by (rule dequeue [OF assms(4) idle q])
      have w0: "sd_workers ?s' ! 0 = Dequeued r j" "sd_queue ?s' = q" "Dequeued r j \<in> set (sd_workers ?s')"
        using assms(4) by (simp_all add: set_worker_def set_update_memI)
      have "dist i ?s' < dist i s"
      proof (cases "j = i")
        case True
        then have "dist i ?s' = 1" using w0(3) by (auto simp: dist_def)
        then show ?thesis using queued by (simp add: dist_def)
      next
        case False
        then have "dist i s = 6 * ahead i q + 8" "i \<in> set q" using queued q idle by (simp_all add: dist_def)
        moreover have "dist i ?s' \<le> 6 * ahead i q + 7" using w0(1,2) \<open>i \<in> set q\<close> by (simp add: dist_def)
        ultimately show ?thesis by simp
      qed
      with st show ?thesis by blast
    qed
  next
    case returning
    then obtain w where w: "w < length (sd_workers s)" "sd_workers s ! w = Returning r i ok" by (metis in_set_conv_nth)
    let ?s' = "set_worker w (if ok then Idle r else Dropping r) (set_pending i False s)"
    have st: "step opens runs is_timeout is_closed s (Releases w) ?s'" by (rule job_returns [OF w])
    have ws: "sd_workers ?s' = (sd_workers s)[w := if ok then Idle r else Dropping r]" "sd_queue ?s' = sd_queue s"
      by (simp_all add: set_worker_def set_pending_def)
    have "Returning q i b \<notin> set (sd_workers ?s')" for q b
    proof
      assume "Returning q i b \<in> set (sd_workers ?s')"
      then obtain v where v: "v < length (sd_workers s)" "sd_workers ?s' ! v = Returning q i b"
        unfolding ws by (metis in_set_conv_nth length_list_update)
      have vw: "v \<noteq> w" using v(2) w(1) by (auto simp: ws split: if_splits)
      then have "sd_workers s ! v = Returning q i b" using v(2) by (simp add: ws)
      then show False using holders_exclusive(4) [OF assms(6) w(1), of i v] w(2) v(1) vw by simp
    qed
    then have ret: "\<nexists>q b. Returning q i b \<in> set (sd_workers ?s')" by blast
    have "Dequeued q i \<notin> set (sd_workers ?s')" for q
    proof
      assume "Dequeued q i \<in> set (sd_workers ?s')"
      then have "Dequeued q i \<in> insert (if ok then Idle r else Dropping r) (set (sd_workers s))"
        unfolding ws using set_update_subset_insert by fast
      then show False using returning(1) by (auto split: if_splits)
    qed
    then have deq: "\<nexists>q. Dequeued q i \<in> set (sd_workers ?s')" by blast
    have idle: "to_idle (sd_workers ?s' ! 0) \<le> to_idle (sd_workers s ! 0)"
      using w unfolding ws by (cases "w = 0") simp_all
    have timer: "timer_dist t \<le> 5" for t by (cases t) simp_all
    have "\<exists>r ok. Returning r i ok \<in> set (sd_workers s)" using returning(3) by blast
    then have "dist i s = 6 * length (sd_queue s) + to_idle (sd_workers s ! 0) + 6" using returning(1,2) by (simp only: dist_def if_True if_False)
    moreover have "dist i ?s' = 6 * length (sd_queue s) + to_idle (sd_workers ?s' ! 0) + timer_dist (sd_timers ?s' ! i)"
      using returning(2) ret deq unfolding dist_def ws(2) by (simp only: if_False)
    ultimately have "dist i ?s' < dist i s" using idle timer [of "sd_timers ?s' ! i"] by linarith
    with st show ?thesis by blast
  next
    case free
    have "worker_target x \<noteq> Some i" if "x \<in> set (sd_workers s)" for x
      using free assms(8) that by (cases x) (auto simp: pinging_def)
    then have none: "filter (\<lambda>x. worker_target x = Some i) (sd_workers s) = []" by (simp add: filter_empty_conv)
    have "holders s i = of_bool (t_pending (sd_targets s ! i))" using assms(6,7) by (simp add: holders_ok_def)
    then have "of_bool (sd_timers s ! i = Claimed) = (of_bool (t_pending (sd_targets s ! i)) :: nat)"
      using free(2) none by (simp add: holders_def)
    then have pending: "t_pending (sd_targets s ! i) \<longleftrightarrow> sd_timers s ! i = Claimed" by (simp only: of_bool_eq_iff)
    have i: "i < length (sd_timers s)" using assms(7) shape by simp
    have fired: "\<exists>a s'. step opens runs is_timeout is_closed s a s' \<and> a \<noteq> Cancels \<and> (pinging i s' \<or> dist i s' < dist i s)"
      if "step opens runs is_timeout is_closed s a (set_timer i p s')" "a \<noteq> Cancels" "timer_dist p < timer_dist (sd_timers s ! i)"
        "sd_workers s' = sd_workers s" "sd_queue s' = sd_queue s" "sd_timers s' = sd_timers s" for a p s'
    proof -
      have "dist i (set_timer i p s') < dist i s"
        using that(3-6) free i by (simp add: dist_def set_timer_def)
      with that(1,2) show ?thesis by blast
    qed
    show ?thesis
    proof (cases "sd_timers s ! i")
      case Claimed
      note room = claimed_not_queued [OF assms(6) i Claimed]
      have "dist i (enqueue_send i s) < dist i s"
        using free Claimed room by (simp add: dist_def enqueue_send_def set_timer_def ahead_last)
      then show ?thesis using send [OF i Claimed] by blast
    next
      case Firing
      have "enqueue_claim i s = set_timer i Claimed (set_pending i True s)" using pending Firing by (simp add: enqueue_claim_def)
      then have "step opens runs is_timeout is_closed s (Claims i) (set_timer i Claimed (set_pending i True s))"
        using claim [OF i Firing] by metis
      then show ?thesis by (rule fired) (simp_all add: Firing set_pending_def)
    next
      case (Waiting d)
      show ?thesis by (rule fired [OF first_timer [OF i Waiting]]) (simp_all add: Waiting)
    next
      case Ticking
      show ?thesis by (rule fired [OF ticker [OF i Ticking]]) (simp_all add: Ticking)
    next
      case TimerDone
      then show ?thesis using assms(1) i by (auto simp: alive_def dest: nth_mem)
    qed
  qed
qed

lemma can_ping:
  assumes "alive_ok s" and "list_all shell_ok (sd_workers s)" and "sd_ctx s = Active" and "0 < length (sd_workers s)"
    and "opens r0" and "holders_ok s" and "i < length (sd_targets s)" and opens: "\<And>r. opens r \<Longrightarrow> is_open r"
  shows "\<exists>as s'. steps opens runs is_timeout is_closed s as s' \<and> Cancels \<notin> set as \<and> pinging i s' \<and> length as \<le> dist i s"
  using assms(1-4,6,7)
proof (induction "dist i s" arbitrary: s rule: less_induct)
  case less
  show ?case
  proof (cases "pinging i s")
    case True
    then show ?thesis using steps_Nil by (intro exI [of _ "[]"] exI [of _ s]) auto
  next
    case False
    have "alive s" using less.prems(1,3) by (simp add: alive_ok_def)
    from step_closer [where opens = opens and ?r0.0 = r0, OF this less.prems(2-4) assms(5) less.prems(5,6) False]
    obtain a s1 where a: "step opens runs is_timeout is_closed s a s1" "a \<noteq> Cancels" "pinging i s1 \<or> dist i s1 < dist i s"
      by blast
    have pos: "0 < dist i s" by (auto simp: dist_def intro: add_pos_nonneg split: timer.split) (cases "sd_timers s ! i"; simp)
    show ?thesis
    proof (cases "pinging i s1")
      case True
      then show ?thesis using steps_one [OF a(1)] a(2) pos by (intro exI [of _ "[a]"] exI [of _ s1]) auto
    next
      case False
      have "alive_ok s1" "list_all shell_ok (sd_workers s1)" "holders_ok s1"
        using step_alive [OF a(1) less.prems(1)] step_shells [OF a(1) less.prems(2) opens] step_holders [OF a(1) less.prems(5)]
        by simp_all
      moreover have "sd_ctx s1 = Active" using step_active [OF a(1,2)] less.prems(3) by simp
      moreover have "length (sd_workers s1) = length (sd_workers s)" "length (sd_targets s1) = length (sd_targets s)"
        using step_fixed [OF a(1)] by (simp_all add: fixed_def)
      ultimately obtain as s' where as: "steps opens runs is_timeout is_closed s1 as s'" "Cancels \<notin> set as" "pinging i s'"
        "length as \<le> dist i s1"
        using less.hyps [of s1] a(3) False less.prems(4,6) by auto
      have "steps opens runs is_timeout is_closed s ([a] @ as) s'"
        using steps_trans [OF as(1) steps_one [OF a(1)]] .
      with as a(2,3) False show ?thesis by (intro exI [of _ "[a] @ as"] exI [of _ s']) auto
    qed
  qed
qed

end

end
