(* ===== verification/Session_Spec.thy ===== *)
theory Session_Spec
  imports Session Runner Huawei_Spec
begin

text \<open>
  What remote/session.go promises: when \<open>waitPrompt\<close> returns and with what, that a command's
  output comes back whole however it is cut into chunks, that the error of \<open>Run\<close> tells whether the
  session is closed (the interface \<open>runner\<close>), and what a session writes.
\<close>

named_theorems session_simps \<open>fields a session operation leaves alone\<close>

section \<open>The screen\<close>

lemma ansi_first_Cons: "x \<noteq> CHR 0x1B \<Longrightarrow> rx_first ansi_re (x # s) = None"
  unfolding ansi_re_def rx_seq.simps rx_first_None mem_Lit_Seq by simp

lemma screen_text_plain:
  assumes "CHR 0x1B \<notin> set b"
  shows "screen_text b = remove_char (CHR 0x0D) b"
proof -
  have "rx_first ansi_re [] = None" unfolding ansi_re_def rx_seq.simps rx_first_None mem_Lit_Seq by simp
  moreover have "rx_find ansi_re (b @ []) = map_option (\<lambda>(p, m). (b @ p, m)) (rx_find ansi_re [])"
    using ansi_first_Cons assms by (rule rx_find_skip_char)
  ultimately have "rx_find ansi_re b = None" by simp
  then show ?thesis by (simp add: screen_text_def rx_delete_all_none)
qed

lemma screen_text_no_cr: "CHR 0x0D \<notin> set (screen_text b)"
  by (simp add: screen_text_def remove_char_def)

section \<open>Waiting for the prompt\<close>

text \<open>
  The specification of a wait: after the first chunks, and not before, the text shows the prompt.
\<close>

definition first_shown :: "(string \<Rightarrow> 'a option) \<Rightarrow> string \<Rightarrow> string list \<Rightarrow> 'a \<Rightarrow> bool" where
  "first_shown look buf cs out \<longleftrightarrow>
     look (screen_text (buf @ concat cs)) = Some out \<and>
     (\<forall>k < length cs. look (screen_text (buf @ concat (take k cs))) = None)"

lemma first_shown_Nil: "first_shown look buf [] out \<longleftrightarrow> look (screen_text buf) = Some out"
  by (simp add: first_shown_def)

lemma first_shown_Cons:
  "first_shown look buf (c # cs) out \<longleftrightarrow>
     look (screen_text buf) = None \<and> first_shown look (buf @ c) cs out"
  unfolding first_shown_def by (auto simp: less_Suc_eq_0_disj)

lemma chunks_Cons:
  "(\<exists>cs. Chunk c # rest = map Chunk cs @ evs' \<and> P cs) \<longleftrightarrow>
     (evs' = Chunk c # rest \<and> P []) \<or> (\<exists>cs. rest = map Chunk cs @ evs' \<and> P (c # cs))"
  (is "?l \<longleftrightarrow> ?r")
proof
  assume ?l
  then obtain cs where "Chunk c # rest = map Chunk cs @ evs'" "P cs" by blast
  then show ?r by (cases cs) auto
next
  assume ?r
  then show ?l
    by (auto intro: exI [of _ "[]"]) (metis append_Cons list.simps(9))
qed

lemma wait_prompt_loop_Inr:
  "wait_prompt_loop anchor s evs = Some (Inr out, s', evs') \<longleftrightarrow>
     (\<exists>cs. evs = map Chunk cs @ evs' \<and>
        first_shown (prompt_seen (ss_prompt s) anchor) (ss_buf s) cs out) \<and> s' = s\<lparr>ss_buf := []\<rparr>"
proof (induction anchor s evs rule: wait_prompt_loop.induct)
  case (1 anchor s evs)
  show ?case
  proof (cases "prompt_seen (ss_prompt s) anchor (session_text s)")
    case (Some o')
    have "first_shown (prompt_seen (ss_prompt s) anchor) (ss_buf s) cs out \<longleftrightarrow> cs = [] \<and> out = o'" for cs
      using Some by (cases cs) (auto simp: first_shown_Nil first_shown_Cons)
    with Some show ?thesis by (subst wait_prompt_loop.simps) auto
  next
    case None
    show ?thesis
    proof (cases "\<exists>c rest. evs = Chunk c # rest")
      case True
      then obtain c rest where evs: "evs = Chunk c # rest" by blast
      have "(\<exists>cs. evs = map Chunk cs @ evs' \<and> first_shown (prompt_seen (ss_prompt s) anchor) (ss_buf s) cs out) \<longleftrightarrow>
            (\<exists>cs. rest = map Chunk cs @ evs' \<and> first_shown (prompt_seen (ss_prompt s) anchor) (ss_buf s @ c) cs out)"
        using None unfolding evs chunks_Cons by (simp add: first_shown_Nil first_shown_Cons)
      with "1.IH" [OF None evs refl] None evs show ?thesis by (subst wait_prompt_loop.simps) simp
    next
      case False
      then have "\<not> (\<exists>cs. evs = map Chunk cs @ evs' \<and> first_shown (prompt_seen (ss_prompt s) anchor) (ss_buf s) cs out)"
        using None by (auto simp: first_shown_Nil neq_Nil_conv) (metis first_shown_Nil list.map_disc_iff list.simps(9) neq_Nil_conv option.distinct(1) append_Cons)
      with None False show ?thesis
        by (subst wait_prompt_loop.simps) (auto split: list.splits recv.splits)
    qed
  qed
qed

lemma wait_prompt_loop_fields [session_simps]:
  "wait_prompt_loop anchor s evs = Some (r, s', evs') \<Longrightarrow>
     ss_prompt s' = ss_prompt s \<and> ss_closed s' = ss_closed s \<and> ss_log s' = ss_log s"
proof (induction anchor s evs rule: wait_prompt_loop.induct)
  case (1 anchor s evs)
  then show ?case
    by (subst (asm) (2) wait_prompt_loop.simps) (auto split: option.splits list.splits recv.splits)
qed

lemma wait_prompt_fields [session_simps]:
  "wait_prompt timeout anchor s evs = Some (r, s', evs') \<Longrightarrow>
     ss_prompt s' = ss_prompt s \<and> ss_closed s' = ss_closed s \<and> ss_log s' = ss_log s @ [StartedTimer timeout]"
  by (auto simp: wait_prompt_def log_effect_def dest: wait_prompt_loop_fields)

section \<open>A whole answer\<close>

lemma index_tail_length: "index_tail s w = Some u \<Longrightarrow> length w \<le> length s"
  using index_tail_Some [of s w u] by (auto simp: has_prefix_iff)

lemma has_prefix_append: "length w \<le> length s \<Longrightarrow> has_prefix (s @ q) w \<longleftrightarrow> has_prefix s w"
  by (auto simp: has_prefix_iff append_eq_append_conv2)

lemma index_tail_extend: "index_tail s w = Some u \<Longrightarrow> index_tail (s @ q) w = Some (u @ q)"
proof (induction s)
  case Nil
  then have "w = [] \<and> u = []" by (auto simp: index_tail.simps [of "[]"] has_prefix_iff split: if_splits)
  then show ?case using index_tail_prefix [of "[]" q] by simp
next
  case (Cons x s)
  have "has_prefix (x # s @ q) w \<longleftrightarrow> has_prefix (x # s) w"
    using has_prefix_append [OF index_tail_length [OF Cons.prems], of q] by simp
  with Cons show ?case
    by (auto simp: index_tail.simps [of "x # s"] index_tail.simps [of "x # s @ q"] split: if_splits)
qed

text \<open>
  The screen after a command: text left over from before, the echo of the command up to its last
  token, the output, and the prompt, which does not occur earlier in the answer.
\<close>

definition answer_screen :: "string \<Rightarrow> string \<Rightarrow> string \<Rightarrow> string" where
  "answer_screen anchor body prompt = anchor @ nl @ body @ nl @ prompt"

definition answer_ok :: "string \<Rightarrow> string \<Rightarrow> string \<Rightarrow> string \<Rightarrow> bool" where
  "answer_ok stray anchor body prompt \<longleftrightarrow>
     plain_word anchor \<and> prompt \<noteq> [] \<and> last prompt \<notin> set [CHR '' '', CHR 0x0A] \<and>
     index_tail (stray @ answer_screen anchor body prompt) anchor = Some (answer_screen anchor body prompt) \<and>
     \<not> contains (butlast (answer_screen anchor body prompt)) prompt"

lemma contains_prefix: "contains s w \<Longrightarrow> contains (s @ t) w"
  by (auto simp: contains_iff) (metis append.assoc)

lemma prompt_seen_partial:
  assumes ok: "answer_ok stray anchor body prompt"
    and t: "stray @ answer_screen anchor body prompt = t @ q" "q \<noteq> []"
  shows "prompt_seen prompt anchor t = None"
proof (rule ccontr)
  let ?A = "answer_screen anchor body prompt"
  assume "prompt_seen prompt anchor t \<noteq> None"
  moreover have "anchor \<noteq> []" using ok by (simp add: answer_ok_def plain_word_def)
  ultimately obtain u where u: "index_tail t anchor = Some u"
    "has_suffix (trim_right [CHR '' '', CHR 0x0A] u) prompt"
    by (auto simp: prompt_seen_def Let_def split: option.splits if_splits)
  obtain v z where "u = v @ prompt @ z"
    using u(2) trim_right_prefix [of u "[CHR '' '', CHR 0x0A]"] by (auto simp: has_suffix_iff) 
  then have "contains u prompt" by (auto simp: contains_iff)
  moreover have "?A = u @ q"
    using index_tail_extend [OF u(1), of q] ok unfolding answer_ok_def t(1) by simp
  then have "butlast ?A = u @ butlast q" using t(2) by (simp add: butlast_append)
  ultimately have "contains (butlast ?A) prompt" by (simp add: contains_prefix)
  with ok show False by (simp add: answer_ok_def)
qed

lemma prompt_seen_complete:
  assumes "answer_ok stray anchor body prompt"
  shows "prompt_seen prompt anchor (stray @ answer_screen anchor body prompt) = Some (anchor @ nl @ body @ nl)"
proof -
  have "trim_right [CHR '' '', CHR 0x0A] (answer_screen anchor body prompt) = (anchor @ nl @ body @ nl) @ prompt"
    using assms by (subst trim_right_id) (auto simp: answer_ok_def answer_screen_def)
  moreover have "anchor \<noteq> []" using assms by (simp add: answer_ok_def plain_word_def)
  ultimately show ?thesis
    using assms trim_suffix_append [of "anchor @ nl @ body @ nl" prompt]
    by (auto simp: prompt_seen_def answer_ok_def has_suffix_iff)
qed

lemma clean_answer:
  assumes "plain_word anchor"
  shows "clean_output (anchor @ nl @ body @ nl) anchor = trim_space (body @ nl)"
proof -
  have "CHR 0x0A \<notin> set anchor" using assms by (auto simp: plain_word_def list_all_iff plain_char_def)
  then have "split_on (CHR 0x0A) (anchor @ nl @ body @ nl) = anchor # split_on (CHR 0x0A) (body @ nl)"
    by (simp add: split_on_append_sep)
  moreover have "contains anchor anchor" by (auto simp: contains_iff intro: exI [of _ "[]"])
  ultimately show ?thesis by (simp add: clean_output_def Let_def join_split)
qed

lemma remove_char_append: "remove_char c (s @ t) = remove_char c s @ remove_char c t"
  by (simp add: remove_char_def)

lemma wait_answer:
  assumes ok: "answer_ok stray anchor body (ss_prompt s)" and buf: "ss_buf s = []"
    and esc: "CHR 0x1B \<notin> set (concat cs)"
    and shown: "remove_char (CHR 0x0D) (concat cs) = stray @ answer_screen anchor body (ss_prompt s)"
  shows "\<exists>s' evs'. wait_prompt_loop anchor s (map Chunk cs @ rest) = Some (Inr (anchor @ nl @ body @ nl), s', evs')"
proof -
  let ?T = "stray @ answer_screen anchor body (ss_prompt s)"
  let ?txt = "\<lambda>k. remove_char (CHR 0x0D) (concat (take k cs))"
  have scr: "screen_text (concat (take k cs)) = ?txt k" for k
    using esc set_take_subset [of k cs] by (intro screen_text_plain) auto
  have "?txt (length cs) = ?T" using shown by simp
  then obtain k where k: "?txt k = ?T" and least: "\<And>i. i < k \<Longrightarrow> ?txt i \<noteq> ?T"
    using exists_least_iff [of "\<lambda>k. ?txt k = ?T"] by blast
  have le: "k \<le> length cs"
  proof (rule ccontr)
    assume "\<not> k \<le> length cs"
    then have "?txt (length cs) \<noteq> ?T" by (intro least) simp
    with shown show False by simp
  qed
  have "first_shown (prompt_seen (ss_prompt s) anchor) [] (take k cs) (anchor @ nl @ body @ nl)"
    unfolding first_shown_def
  proof (intro conjI allI impI)
    show "prompt_seen (ss_prompt s) anchor (screen_text ([] @ concat (take k cs))) = Some (anchor @ nl @ body @ nl)"
      using prompt_seen_complete [OF ok] k scr by simp
    fix i assume i: "i < length (take k cs)"
    then have tk: "take i (take k cs) = take i cs" by (simp add: min_def split: if_splits)
    have "cs = take i cs @ drop i cs" by simp
    then have "?T = ?txt i @ remove_char (CHR 0x0D) (concat (drop i cs))"
      using shown by (metis concat_append remove_char_append)
    moreover from this have "remove_char (CHR 0x0D) (concat (drop i cs)) \<noteq> []" using least [of i] i by auto
    ultimately show "prompt_seen (ss_prompt s) anchor (screen_text ([] @ concat (take i (take k cs)))) = None"
      using prompt_seen_partial [OF ok] scr [of i] tk by simp
  qed
  moreover have "map Chunk cs @ rest = map Chunk (take k cs) @ map Chunk (drop k cs) @ rest"
    by (metis append.assoc append_take_drop_id map_append)
  ultimately show ?thesis using wait_prompt_loop_Inr buf by metis
qed

lemma run_answer:
  assumes ok: "answer_ok stray (last_token cmd) body (ss_prompt s)"
    and esc: "CHR 0x1B \<notin> set (concat cs)"
    and shown: "remove_char (CHR 0x0D) (concat cs) = stray @ answer_screen (last_token cmd) body (ss_prompt s)"
    and drained: "drop_ready ready evs = map Chunk cs @ rest"
  shows "\<exists>s' evs'. run True ready cmd d s evs = Some (Inr (trim_space (body @ nl)), s', evs')"
proof -
  let ?s = "log_effect (StartedTimer d) (log_effect (Wrote (cmd @ [CHR 0x0A])) (s\<lparr>ss_buf := []\<rparr>))"
  obtain s' evs' where w: "wait_prompt_loop (last_token cmd) ?s (map Chunk cs @ rest) =
      Some (Inr (last_token cmd @ nl @ body @ nl), s', evs')"
    using wait_answer [of stray "last_token cmd" body ?s cs rest] ok esc shown by (auto simp: log_effect_def)
  have "clean_output (last_token cmd @ nl @ body @ nl) (last_token cmd) = trim_space (body @ nl)"
    using ok by (intro clean_answer) (simp add: answer_ok_def)
  with w drained show ?thesis
    by (simp add: run_def drain_def wait_prompt_def)
qed

section \<open>Returning\<close>

text \<open>A wait is blocked only while everything it has received is output without the prompt.\<close>

lemma wait_prompt_loop_None:
  "wait_prompt_loop anchor s evs = None \<Longrightarrow> ChanClosed \<notin> set evs \<and> TimerFired \<notin> set evs"
proof (induction anchor s evs rule: wait_prompt_loop.induct)
  case (1 anchor s evs)
  then show ?case
    by (subst (asm) (2) wait_prompt_loop.simps) (auto split: option.splits list.splits recv.splits)
qed

lemma wait_prompt_loop_timeout:
  "wait_prompt_loop anchor s evs = Some (Inl WaitTimeout, s', evs') \<Longrightarrow>
     \<exists>cs. evs = map Chunk cs @ TimerFired # evs'"
proof (induction anchor s evs rule: wait_prompt_loop.induct)
  case (1 anchor s evs)
  then show ?case
    by (subst (asm) (2) wait_prompt_loop.simps)
       (auto split: option.splits list.splits recv.splits intro: exI [of _ "[]"] exI [of _ "_ # _"])
qed

lemma drop_ready_chunks: "\<exists>cs. evs = map Chunk cs @ drop_ready n evs"
  by (induction n evs rule: drop_ready.induct) (auto intro: exI [of _ "[]"] exI [of _ "_ # _"])

lemma run_blocked:
  assumes "run write_ok ready cmd d s evs = None"
  shows "ChanClosed \<notin> set evs \<and> length (filter (\<lambda>e. e = TimerFired) evs) \<le> 1"
proof -
  obtain cs where cs: "evs = map Chunk cs @ drop_ready ready evs" using drop_ready_chunks by blast
  let ?evs = "drop_ready ready evs"
  have chunks: "filter (\<lambda>e. e = TimerFired) (map Chunk cs) = []" for cs by (simp add: filter_empty_conv)
  have "ChanClosed \<notin> set ?evs \<and> length (filter (\<lambda>e. e = TimerFired) ?evs) \<le> 1"
  proof (cases "wait_prompt_loop (last_token cmd)
      (log_effect (StartedTimer d) (log_effect (Wrote (cmd @ [CHR 0x0A])) (s\<lparr>ss_buf := []\<rparr>))) ?evs")
    case None
    then have "ChanClosed \<notin> set ?evs \<and> TimerFired \<notin> set ?evs" by (rule wait_prompt_loop_None)
    then have "filter (\<lambda>e. e = TimerFired) ?evs = []" by (auto simp: filter_empty_conv)
    then show ?thesis using \<open>ChanClosed \<notin> set ?evs \<and> _\<close> by simp
  next
    case (Some x)
    then obtain r s3 evs3 where x: "x = (r, s3, evs3)" by (cases x)
    with assms Some have r: "r = Inl WaitTimeout"
      and n: "wait_prompt ctrl_c_timeout [] (log_effect (Wrote ctrl_c) s3) evs3 = None"
      by (auto simp: run_def drain_def wait_prompt_def Let_def split: if_splits sum.splits wait_error.splits option.splits)
    obtain cs' where "?evs = map Chunk cs' @ TimerFired # evs3"
      using wait_prompt_loop_timeout Some x r by blast
    moreover have "ChanClosed \<notin> set evs3 \<and> TimerFired \<notin> set evs3"
      using n by (auto simp: wait_prompt_def dest: wait_prompt_loop_None)
    moreover from this have "filter (\<lambda>e. e = TimerFired) evs3 = []" by (auto simp: filter_empty_conv)
    ultimately show ?thesis by (auto simp: chunks)
  qed
  with cs chunks show ?thesis
    by (metis (no_types, lifting) Un_iff append_self_conv2 ex_map_conv filter_append recv.distinct(1) set_append)
qed

section \<open>The error of Run and the session\<close>

text \<open>What a call of \<open>Run\<close> writes and which timers it starts, by how it ends.\<close>

fun run_effects :: "bool \<Rightarrow> string \<Rightarrow> duration \<Rightarrow> run_error + string \<Rightarrow> effect list" where
  "run_effects write_ok cmd d (Inr _) = [Wrote (cmd @ [CHR 0x0A]), StartedTimer d]"
| "run_effects write_ok cmd d (Inl e) =
     [Wrote (cmd @ [CHR 0x0A])] @ (if write_ok then [StartedTimer d] else []) @
     (if is_timeout e then [Wrote ctrl_c, StartedTimer ctrl_c_timeout] else []) @
     (if is_closed e then [ClosedShell] else [])"

lemma run_result:
  assumes "run write_ok ready cmd d s evs = Some (a, s', evs')" and "\<not> ss_closed s"
  shows "ss_closed s' \<longleftrightarrow> (\<exists>e. a = Inl e \<and> is_closed e)"
    and "ss_log s' = ss_log s @ run_effects write_ok cmd d a"
    and "ss_prompt s' = ss_prompt s"
    and "write_ok \<longleftrightarrow> a \<noteq> Inl WriteClosed"
  using assms
  by (auto simp: run_def drain_def log_effect_def close_session_def Let_def
        split: if_splits option.splits sum.splits wait_error.splits prod.splits dest!: wait_prompt_fields)

text \<open>The relation of a call: some environment makes \<open>Run\<close> return this answer.\<close>

definition session_runs :: "session \<Rightarrow> string \<Rightarrow> duration \<Rightarrow> run_error + string \<Rightarrow> session \<Rightarrow> bool" where
  "session_runs s cmd d a s' \<longleftrightarrow> (\<exists>write_ok ready evs evs'. run write_ok ready cmd d s evs = Some (a, s', evs'))"

definition session_open :: "session \<Rightarrow> bool" where
  "session_open s \<longleftrightarrow> \<not> ss_closed s"

interpretation vrp: runner session_runs session_open is_timeout is_closed
proof
  fix s cmd d out s' assume "session_open s" "session_runs s cmd d (Inr out) s'"
  then show "session_open s'" by (auto simp: session_open_def session_runs_def run_result(1))
next
  fix s cmd d e s' assume s: "session_open s" "session_runs s cmd d (Inl e) s'"
  then have "session_open s' \<longleftrightarrow> \<not> is_closed e"
    by (auto simp: session_open_def session_runs_def run_result(1))
  then show "is_timeout e \<Longrightarrow> session_open s' \<longleftrightarrow> \<not> is_closed e"
    and "\<not> is_timeout e \<Longrightarrow> \<not> session_open s'" by (cases e; simp)+
next
  fix s cmd d
  have "run True 0 cmd d s [ChanClosed] \<noteq> None" by (rule notI, drule run_blocked) simp
  then obtain a s' evs' where "run True 0 cmd d s [ChanClosed] = Some (a, s', evs')" by auto
  then show "\<exists>answer s'. session_runs s cmd d answer s'" unfolding session_runs_def by blast
qed

section \<open>Dialing\<close>

lemma learn_prompt_loop_fields:
  "learn_prompt_loop s evs = Some (r, s', evs') \<Longrightarrow> ss_closed s' = ss_closed s \<and> ss_log s' = ss_log s"
proof (induction s evs rule: learn_prompt_loop.induct)
  case (1 s evs)
  then show ?case
    by (subst (asm) (2) learn_prompt_loop.simps) (auto split: option.splits sum.splits list.splits recv.splits)
qed

lemma learn_prompt_loop_Inr:
  "learn_prompt_loop s evs = Some (Inr u, s', evs') \<Longrightarrow> \<exists>t. login_verdict t = Some (Inr (ss_prompt s'))"
proof (induction s evs rule: learn_prompt_loop.induct)
  case (1 s evs)
  then show ?case
    by (subst (asm) (2) learn_prompt_loop.simps) (auto split: option.splits sum.splits list.splits recv.splits)
qed

text \<open>A shell that \<open>startShell\<close> returns is open; one that it gives up is closed.\<close>

lemma start_shell_open:
  assumes "start_shell setup write_ok ready evs = Some (r, evs')"
  shows "r = Inr s \<Longrightarrow> session_open s" and "r = Inl (e, Some s) \<Longrightarrow> ss_closed s"
  using assms
  by (auto simp: start_shell_def new_session_def log_effect_def learn_prompt_def session_open_def run_result(1)
        close_session_def split: option.splits sum.splits prod.splits dest: learn_prompt_loop_fields)

definition session_opens :: "session \<Rightarrow> bool" where
  "session_opens s \<longleftrightarrow>
     (\<exists>write_ok ready evs evs'.
       start_shell (None :: (unit, unit) dial_error option) write_ok ready evs = Some (Inr s, evs'))"

lemma session_opens_open: "session_opens s \<Longrightarrow> session_open s"
  by (auto simp: session_opens_def dest: start_shell_open(1))

section \<open>The shape of a prompt\<close>

definition prompt_shape :: "string \<Rightarrow> bool" where
  "prompt_shape p \<longleftrightarrow> p \<noteq> [] \<and> hd p \<in> set ''<['' \<and> last p \<in> set ''>]''"

lemma mem_prompt:
  assumes "(cs, u) \<in> set (rx_run (Seq (Cls a) (Seq (Opt sel) (Seq (Plus b) (Cls d)))) s)"
  shows "\<exists>c v e. a c \<and> d e \<and> s = c # v @ e # u"
proof -
  obtain cs0 cs1 s1 where s1: "(cs0, s1) \<in> set (rx_run (Cls a) s)"
    "(cs1, u) \<in> set (rx_run (Seq (Opt sel) (Seq (Plus b) (Cls d))) s1)"
    using assms unfolding mem_Seq [of _ _ "Cls a"] by blast
  then obtain c where c: "a c" "s = c # s1" unfolding mem_Cls by blast
  obtain as bs s2 where s2: "(as, s2) \<in> set (rx_run (Opt sel) s1)" "(bs, u) \<in> set (rx_run (Seq (Plus b) (Cls d)) s2)"
    using s1(2) unfolding mem_Seq [of _ _ "Opt sel"] by blast
  obtain v where "s1 = v @ s2" using rx_run_suffix [OF s2(1)] by blast
  moreover obtain w e where "s2 = w @ e # u" "d e"
    using s2(2) unfolding mem_Plus_Seq mem_Cls by blast
  ultimately show ?thesis using c(1,2) by (intro exI [of _ c] exI [of _ "v @ w"] exI [of _ e]) simp
qed

lemma prompt_capture:
  assumes "(cs, t) \<in> set (rx_run prompt_re s)"
  shows "prompt_shape (hd cs)"
proof -
  let ?r = "Seq (Cls (\<lambda>c. c \<in> set ''<['')) (Seq (Opt (\<lambda>c. c \<in> set ''~*'')) (Seq (Plus prompt_body) (Cls (\<lambda>c. c \<in> set ''>]''))))"
  have "prompt_re = Seq (Cap ?r) (Seq (Many is_space) Eot)" by (simp add: prompt_re_def)
  with assms obtain as bs u where "cs = as @ bs" "(as, u) \<in> set (rx_run (Cap ?r) s)"
    by (metis mem_Seq)
  then obtain w ds where w: "hd cs = w" "s = w @ u" "(ds, u) \<in> set (rx_run ?r s)"
    unfolding mem_Cap by (metis append_Cons list.sel(1))
  from mem_prompt [OF w(3)] obtain c v e where "c \<in> set ''<[''" "e \<in> set ''>]''" "s = c # v @ e # u" by blast
  with w(2) have "w = c # v @ [e]" by simp
  then show ?thesis using w(1) \<open>c \<in> _\<close> \<open>e \<in> _\<close> by (simp add: prompt_shape_def)
qed

lemma login_verdict_prompt:
  assumes "login_verdict t = Some (Inr p)"
  shows "prompt_shape p" and "\<not> contains (to_upper p) ''Y/N''"
proof -
  obtain q m u where m: "rx_find prompt_re t = Some (q, m, u)" "p = hd m" "\<not> contains (to_upper (hd m)) ''Y/N''"
    using assms by (auto simp: login_verdict_def split: if_splits option.splits)
  then obtain w where "rx_first prompt_re (w @ u) = Some (m, u)" using rx_find_SomeD by blast
  then have "(m, u) \<in> set (rx_run prompt_re (w @ u))" by (rule rx_first_mem)
  then show "prompt_shape p" unfolding m(2) by (rule prompt_capture)
  show "\<not> contains (to_upper p) ''Y/N''" using m by simp
qed

lemma start_shell_prompt:
  assumes "start_shell setup write_ok ready evs = Some (Inr s, evs')"
  shows "\<exists>t. login_verdict t = Some (Inr (ss_prompt s))"
proof -
  obtain u s1 evs1 out evs2 where l: "learn_prompt new_session evs = Some (Inr u, s1, evs1)"
    and r: "run write_ok ready ''screen-length 0 temporary'' setup_timeout s1 evs1 = Some (Inr out, s, evs2)"
    using assms by (auto simp: start_shell_def split: option.splits sum.splits prod.splits)
  have "\<not> ss_closed s1"
    using l by (auto simp: learn_prompt_def new_session_def log_effect_def dest: learn_prompt_loop_fields)
  then have "ss_prompt s = ss_prompt s1" using run_result(3) [OF r] by simp
  then show ?thesis using l by (auto simp: learn_prompt_def dest!: learn_prompt_loop_Inr)
qed

section \<open>A sample session\<close>

definition sample_session :: session where
  "sample_session = \<lparr>ss_buf = [], ss_prompt = ''<R>'', ss_closed = False, ss_log = []\<rparr>"

lemma sample_answer_ok: "answer_ok ''ping '' ''b'' ''x'' ''<R>''"
  by (simp add: answer_ok_def answer_screen_def plain_word_def plain_char_def contains_def index_tail.simps has_prefix_def)

lemma last_token_sample: "last_token ''ping b'' = ''b''"
proof -
  have "str_fields ''ping b'' = [''ping'', ''b'']"
    using str_fields_words [of "[''ping'', ''b'']"] by (simp add: plain_word_def plain_char_def)
  then show ?thesis by (simp add: last_token_def)
qed

lemma verdict_empty: "login_verdict [] = None"
  by (simp add: login_verdict_def has_suffix_def strip_prefix.simps to_upper_def trim_right_def prompt_re_def rx_first_def)
lemma verdict_sample: "login_verdict ''<R>'' = Some (Inr ''<R>'')"
  by (simp add: login_verdict_def has_suffix_def to_upper_def trim_right_def prompt_re_def rx_first_def
       prompt_body_def is_space_def contains_def index_tail.simps has_prefix_def is_lower_def)
lemma screen_sample: "screen_text [] = []" "screen_text ''<R>'' = ''<R>''"
  by (simp_all add: screen_text_plain remove_char_def)

lemma sample_login:
  obtains s evs' where "start_shell (None :: (unit, unit) dial_error option) True 0 [Chunk ''<R>'', Chunk (''temporary'' @ nl @ ''x'' @ nl @ ''<R>'')] = Some (Inr s, evs')"
proof -
  let ?s1 = "\<lparr>ss_buf = [], ss_prompt = ''<R>'', ss_closed = False, ss_log = [StartedTimer login_timeout]\<rparr>"
  let ?c = "Chunk (''temporary'' @ nl @ ''x'' @ nl @ ''<R>'')"
  have l: "learn_prompt new_session [Chunk ''<R>'', ?c] = Some (Inr (), ?s1, [?c])"
    by (simp add: learn_prompt_def learn_prompt_loop.simps new_session_def log_effect_def screen_sample verdict_empty verdict_sample)
  have ok: "answer_ok [] ''temporary'' ''x'' ''<R>''"
    by (simp add: answer_ok_def answer_screen_def plain_word_def plain_char_def contains_def index_tail.simps has_prefix_def)
  have lt: "last_token ''screen-length 0 temporary'' = ''temporary''"
  proof -
    have "str_fields ''screen-length 0 temporary'' = [''screen-length'', ''0'', ''temporary'']"
      using str_fields_words [of "[''screen-length'', ''0'', ''temporary'']"] by (simp add: plain_word_def plain_char_def)
    then show ?thesis by (simp add: last_token_def)
  qed
  obtain s evs' where r: "run True 0 ''screen-length 0 temporary'' setup_timeout ?s1 [?c] = Some (Inr (trim_space (''x'' @ nl)), s, evs')"
    using run_answer [of "[]" "''screen-length 0 temporary''" "''x''" ?s1 "[''temporary'' @ nl @ ''x'' @ nl @ ''<R>'']" 0 "[?c]" "[]" setup_timeout] ok
    by (auto simp: lt answer_screen_def remove_char_def)
  have "start_shell (None :: (unit, unit) dial_error option) True 0 [Chunk ''<R>'', ?c] = Some (Inr s, evs')"
    using l r by (simp add: start_shell_def)
  with that show ?thesis .
qed

section \<open>Properties\<close>

text \<open>
  C13: \<open>waitPrompt\<close> returns exactly when the prompt is first visible after the anchor: it consumes
  the chunks up to the first moment at which the screen text shows the prompt, and returns the
  text from the anchor to the prompt; it never returns earlier and never waits longer.
\<close>

theorem wait_prompt_exact:
  "wait_prompt timeout anchor s evs = Some (Inr out, s', evs') \<longleftrightarrow>
     (\<exists>cs. evs = map Chunk cs @ evs' \<and> first_shown (prompt_seen (ss_prompt s) anchor) (ss_buf s) cs out) \<and>
     s' = (log_effect (StartedTimer timeout) s)\<lparr>ss_buf := []\<rparr>"
  by (simp add: wait_prompt_def wait_prompt_loop_Inr log_effect_def)

text \<open>
  C14: However the answer of the router is cut into chunks, and whatever text without the anchor is
  left over from before, \<open>Run\<close> returns the output between the echo of the command and the prompt,
  trimmed.
\<close>

theorem run_delivers_output:
  assumes "answer_ok stray (last_token cmd) body (ss_prompt s)"
    and "CHR 0x1B \<notin> set (concat cs)"
    and "remove_char (CHR 0x0D) (concat cs) = stray @ answer_screen (last_token cmd) body (ss_prompt s)"
    and "drop_ready ready evs = map Chunk cs @ rest"
  shows "\<exists>s' evs'. run True ready cmd d s evs = Some (Inr (trim_space (body @ nl)), s', evs')"
  using assms by (rule run_answer)

theorem run_delivers_output_witness:
  "\<exists>s' evs'. run True 1 ''ping b'' 1000 sample_session
     [Chunk ''stale'', Chunk ''ping b'', Chunk [CHR 0x0D, CHR 0x0A], Chunk (''x'' @ nl @ ''<''), Chunk ''R>''] =
     Some (Inr ''x'', s', evs')"
proof -
  have "trim_space (''x'' @ nl) = ''x''" using trim_space_blanks [of "''x''" "[]" nl] by (simp add: plain_char_def)
  then show ?thesis
    using run_delivers_output [of "''ping ''" "''ping b''" "''x''" sample_session
        "[''ping b'', [CHR 0x0D, CHR 0x0A], ''x'' @ nl @ ''<'', ''R>'']" 1
        "Chunk ''stale'' # map Chunk [''ping b'', [CHR 0x0D, CHR 0x0A], ''x'' @ nl @ ''<'', ''R>'']" "[]" 1000]
      sample_answer_ok
    by (simp add: last_token_sample sample_session_def answer_screen_def remove_char_def)
qed

text \<open>
  C15: Whether a session is closed after a command can be read off the error of \<open>Run\<close>, and what the
  session wrote is determined by how it ended: the command once, a Ctrl-C exactly when it timed
  out, and a close exactly when the error says so.
\<close>

theorem run_error_tells_state:
  assumes "run write_ok ready cmd d s evs = Some (a, s', evs')" and "\<not> ss_closed s"
  shows "(ss_closed s' \<longleftrightarrow> (\<exists>e. a = Inl e \<and> is_closed e)) \<and>
     ss_log s' = ss_log s @ run_effects write_ok cmd d a \<and> ss_prompt s' = ss_prompt s"
  using run_result [OF assms] by blast

theorem run_error_tells_state_witness:
  "\<exists>s'. run False 0 ''ping b'' 1000 sample_session [] = Some (Inl WriteClosed, s', []) \<and> ss_closed s' \<and>
     ss_log s' = [Wrote (''ping b'' @ nl), ClosedShell]"
proof -
  obtain s' where s': "run False 0 ''ping b'' 1000 sample_session [] = Some (Inl WriteClosed, s', [])"
    by (simp add: run_def drain_def)
  have "\<not> ss_closed sample_session" by (simp add: sample_session_def)
  from run_error_tells_state [OF s' this] s' show ?thesis by (simp add: sample_session_def)
qed

text \<open>
  C16: \<open>Run\<close> always returns: the channel being closed, or the timers of its at most two waits
  firing, is enough.
\<close>

theorem run_returns:
  assumes "ChanClosed \<in> set evs \<or> 2 \<le> length (filter (\<lambda>e. e = TimerFired) evs)"
  shows "\<exists>a s' evs'. run write_ok ready cmd d s evs = Some (a, s', evs')"
proof -
  have "run write_ok ready cmd d s evs \<noteq> None"
  proof
    assume "run write_ok ready cmd d s evs = None"
    with assms run_blocked [OF this] show False by linarith
  qed
  then show ?thesis by auto
qed

theorem run_returns_witness:
  "\<exists>a s' evs'. run True 0 ''ping b'' 1000 sample_session [TimerFired, Chunk ''y'', TimerFired] = Some (a, s', evs')"
  by (rule run_returns) simp

text \<open>
  C39: A shell that the login returns is open, and the prompt it learned has the shape of a VRP
  prompt and is never a yes/no question.
\<close>

theorem login_prompt_is_safe:
  assumes "start_shell setup write_ok ready evs = Some (Inr s, evs')"
  shows "\<not> ss_closed s \<and> prompt_shape (ss_prompt s) \<and> \<not> contains (to_upper (ss_prompt s)) ''Y/N''"
proof -
  have "\<not> ss_closed s" using start_shell_open(1) [OF assms refl] by (simp add: session_open_def)
  then show ?thesis using start_shell_prompt [OF assms] login_verdict_prompt by blast
qed

theorem login_prompt_is_safe_witness:
  "\<exists>s evs'. start_shell (None :: (unit, unit) dial_error option) True 0 [Chunk ''<R>'', Chunk (''temporary'' @ nl @ ''x'' @ nl @ ''<R>'')] = Some (Inr s, evs') \<and> prompt_shape (ss_prompt s)"
proof -
  obtain s evs' where
    "start_shell (None :: (unit, unit) dial_error option) True 0 [Chunk ''<R>'', Chunk (''temporary'' @ nl @ ''x'' @ nl @ ''<R>'')] = Some (Inr s, evs')"
    by (rule sample_login)
  from login_prompt_is_safe [OF this] this show ?thesis by blast
qed

end
