(* ===== verification/Dial_Spec.thy ===== *)
theory Dial_Spec
  imports Session_Spec Targets_Spec
begin

text \<open>
  What \<open>Dial\<close> promises: it leaves no connection behind when it fails, and takes the deadline off one that it
  hands over; and it never talks to a router whose key it does not check, unless its configuration
  says so, nor without a credential.  The context may be cancelled at any moment up to the last answer of
  the login, which then fails; that it is cancelled in the instant between the last answer and \<open>stop\<close>, so that
  a session that is handed over finds its connection closed and its first command fails, is not an event.
\<close>

section \<open>The connection\<close>

record conn =
  cn_open :: bool
  cn_deadline :: "duration option"
  cn_guarded :: bool

definition no_conn :: conn where
  "no_conn = \<lparr>cn_open = False, cn_deadline = None, cn_guarded = False\<rparr>"

fun conn_effect :: "('cb, 's) dial_effect \<Rightarrow> bool \<Rightarrow> conn \<Rightarrow> conn" where
  "conn_effect (Connects _ _) ok c = c\<lparr>cn_open := ok\<rparr>"
| "conn_effect Guards ok c = c\<lparr>cn_guarded := True\<rparr>"
| "conn_effect (SetsDeadline d) ok c = c\<lparr>cn_deadline := d\<rparr>"
| "conn_effect (Handshakes _ _ _ _) ok c = c"
| "conn_effect ClosesConn ok c = c\<lparr>cn_open := False, cn_deadline := None\<rparr>"
| "conn_effect ClosesClient ok c = c\<lparr>cn_open := False, cn_deadline := None\<rparr>"
| "conn_effect Disarms ok c = c\<lparr>cn_guarded := False\<rparr>"

definition conn_after :: "bool \<Rightarrow> ('cb, 's) dial_effect list \<Rightarrow> conn" where
  "conn_after ok effs = fold (\<lambda>e. conn_effect e ok) effs no_conn"

lemma conn_after_cases:
  assumes "dial known_hosts parse_key reachable handshake_ok setup write_ok ready cfg evs = Some (r, effs, evs')"
  shows "conn_after reachable effs = (if isl r then no_conn else no_conn\<lparr>cn_open := True\<rparr>)"
  using assms
  by (auto simp: dial_def Let_def conn_after_def no_conn_def split: sum.splits if_splits option.splits)

section \<open>Keys and credentials\<close>

lemma auth_methods_Inr:
  assumes "auth_methods parse_key cfg = (Inr auth :: ('k, 'p) dial_error + 's auth_method list)"
  shows "auth \<noteq> []"
    and "Password pw \<in> set auth \<or> KeyboardInteractive pw \<in> set auth \<Longrightarrow> pw = sh_password cfg \<and> pw \<noteq> []"
    and "PublicKeys k \<in> set auth \<Longrightarrow> parse_key (sh_private_key cfg) = Inr k \<and> sh_private_key cfg \<noteq> []"
  using assms by (auto simp: auth_methods_def Let_def split: if_splits sum.splits)

lemma host_key_callback_Inr:
  assumes "host_key_callback known_hosts cfg = (Inr cb :: ('k, 'p) dial_error + 'cb option)"
  shows "cb = None \<longleftrightarrow> sh_insecure_skip_host_key cfg" and "cb = Some v \<Longrightarrow> known_hosts (sh_known_hosts_file cfg) = Inr v"
  using assms by (auto simp: host_key_callback_def split: if_splits sum.splits)

lemma dial_handshake:
  fixes known_hosts :: "string \<Rightarrow> 'k + 'cb" and parse_key :: "string \<Rightarrow> 'p + 's"
  assumes "dial known_hosts parse_key reachable handshake_ok setup write_ok ready cfg evs = Some (r, effs, evs')"
    and "Handshakes user cb auth d \<in> set effs"
  shows "user = sh_username cfg" and "effs ! 0 = Connects (sh_address cfg) (dial_timeout cfg)"
    and "host_key_callback known_hosts cfg = (Inr cb :: ('k, 'p) dial_error + 'cb option)"
    and "auth_methods parse_key cfg = (Inr auth :: ('k, 'p) dial_error + 's auth_method list)"
  using assms by (auto simp: dial_def Let_def split: sum.splits if_splits option.splits)

lemma dialer_config:
  assumes "new_ssh_dialer read_file r = Inr cfg"
  shows "sh_address cfg = rt_address r" and "sh_username cfg = rt_username r" and "sh_known_hosts_file cfg = rt_known_hosts r"
    and "sh_insecure_skip_host_key cfg = rt_insecure_skip_host_key r" and "sh_dial_timeout cfg = 10000000000"
    and "sh_password cfg \<noteq> [] \<Longrightarrow> \<exists>b. read_file (rt_password_file r) = Inr b \<and> rt_password_file r \<noteq> [] \<and>
      sh_password cfg = trim_right [CHR 0x0D, CHR 0x0A] b"
    and "sh_private_key cfg \<noteq> [] \<Longrightarrow> read_file (rt_private_key_file r) = Inr (sh_private_key cfg) \<and> rt_private_key_file r \<noteq> []"
  using assms by (auto simp: new_ssh_dialer_def Let_def split: if_splits sum.splits)

section \<open>A sample\<close>

definition checked_router :: router where
  "checked_router = sample_router\<lparr>rt_known_hosts := ''kh'', rt_insecure_skip_host_key := False\<rparr>"

lemma checked_router_ok: "router_ok checked_router"
  using sample_router_ok by (simp add: router_ok_def checked_router_def sample_router_def)

definition checked_ssh :: ssh_config where
  "checked_ssh = \<lparr>sh_address = ''10.0.0.1:22'', sh_username = ''ping'', sh_password = ''secret'', sh_private_key = [],
     sh_known_hosts_file = ''kh'', sh_insecure_skip_host_key = False, sh_dial_timeout = 10000000000\<rparr>"

lemma checked_dialer: "new_ssh_dialer (\<lambda>_. Inr (''secret'' @ [CHR 0x0A]) :: unit + string) checked_router = Inr checked_ssh"
  by (simp add: new_ssh_dialer_def checked_router_def sample_router_def checked_ssh_def trim_right_def Let_def)

lemma checked_dial:
  "dial (\<lambda>f. Inr f) (\<lambda>_. Inl ()) True False (None :: (unit, unit) dial_error option) True 0 checked_ssh [] =
    Some (Inl (HandshakeFailed, None),
      [Connects ''10.0.0.1:22'' 10000000000, Guards, SetsDeadline (Some (handshake_deadline checked_ssh)),
       Handshakes ''ping'' (Some ''kh'') [Password ''secret'', KeyboardInteractive ''secret'' :: unit auth_method] 10000000000,
       ClosesConn, Disarms], [])"
  by (simp add: dial_def host_key_callback_def auth_methods_def checked_ssh_def dial_timeout_def Let_def)

section \<open>Properties\<close>

text \<open>
  C18: A dial leaves nothing behind.  When \<open>Dial\<close> returns an error the connection is closed, and so is the
  session if there was one already; when it returns a session this is open on an open connection
  without a deadline; and in both cases the context no longer closes the connection.
\<close>

theorem dial_leaves_nothing:
  assumes "dial known_hosts parse_key reachable handshake_ok setup write_ok ready cfg evs = Some (r, effs, evs')"
  shows "conn_after reachable effs = \<lparr>cn_open = (\<not> isl r), cn_deadline = None, cn_guarded = False\<rparr> \<and>
    (case r of Inr s \<Rightarrow> session_open s | Inl (e, None) \<Rightarrow> True | Inl (e, Some s) \<Rightarrow> ss_closed s)"
proof
  show "conn_after reachable effs = \<lparr>cn_open = (\<not> isl r), cn_deadline = None, cn_guarded = False\<rparr>"
    using conn_after_cases [OF assms] by (simp add: no_conn_def)
  show "case r of Inr s \<Rightarrow> session_open s | Inl (e, None) \<Rightarrow> True | Inl (e, Some s) \<Rightarrow> ss_closed s"
    using assms
    by (auto simp: dial_def Let_def split: sum.splits if_splits option.splits prod.splits
        dest: start_shell_open(1) [OF _ refl] start_shell_open(2) [OF _ refl])
qed

lemma dial_leaves_nothing_witness:
  "\<not> cn_open (conn_after True [Connects ''10.0.0.1:22'' 10000000000, Guards, SetsDeadline (Some (handshake_deadline checked_ssh)),
       Handshakes ''ping'' (Some ''kh'') [Password ''secret'', KeyboardInteractive ''secret'' :: unit auth_method] 10000000000,
       ClosesConn, Disarms])"
  using dial_leaves_nothing [OF checked_dial] by simp

text \<open>
  C19: A validated router is checked and logged in to as configured.  Whenever a dialer made from a
  validated router reaches the handshake, it is with the address and user of the router, without a check of
  the host key exactly if the router says \<open>insecure_skip_host_key\<close> and otherwise with the keys of its
  \<open>known_hosts\<close>, and with at least one credential, each read from the file the router names.
\<close>

theorem validated_router_verified:
  fixes known_hosts :: "string \<Rightarrow> 'k + 'cb" and parse_key :: "string \<Rightarrow> 'p + 's"
  assumes "router_ok r" and "new_ssh_dialer read_file r = Inr cfg"
    and "dial known_hosts parse_key reachable handshake_ok setup write_ok ready cfg evs = Some (res, effs, evs')"
    and "Handshakes user cb auth d \<in> set effs"
  shows "effs ! 0 = Connects (rt_address r) (10 * 1000000000) \<and> user = rt_username r \<and>
    (cb = None \<longleftrightarrow> rt_insecure_skip_host_key r) \<and>
    (case cb of None \<Rightarrow> True | Some v \<Rightarrow> rt_known_hosts r \<noteq> [] \<and> known_hosts (rt_known_hosts r) = Inr v) \<and>
    auth \<noteq> [] \<and>
    list_all (\<lambda>a. case a of
        PublicKeys k \<Rightarrow> (\<exists>b. read_file (rt_private_key_file r) = Inr b \<and> parse_key b = Inr k)
      | Password pw \<Rightarrow> pw \<noteq> [] \<and> (\<exists>b. read_file (rt_password_file r) = Inr b \<and> pw = trim_right [CHR 0x0D, CHR 0x0A] b)
      | KeyboardInteractive pw \<Rightarrow> pw \<noteq> [] \<and> (\<exists>b. read_file (rt_password_file r) = Inr b \<and> pw = trim_right [CHR 0x0D, CHR 0x0A] b)) auth"
proof -
  note h = dial_handshake [OF assms(3,4)]
  note c = dialer_config [OF assms(2)]
  note cb = host_key_callback_Inr [OF h(3)] and au = auth_methods_Inr [OF h(4)]
  have "dial_timeout cfg = 10 * 1000000000" by (simp add: dial_timeout_def c(5))
  moreover have "case cb of None \<Rightarrow> True | Some v \<Rightarrow> rt_known_hosts r \<noteq> [] \<and> known_hosts (rt_known_hosts r) = Inr v"
    using cb(1) cb(2) assms(1) by (auto simp: c(3,4) router_ok_def split: option.split)
  moreover have "case a of
        PublicKeys k \<Rightarrow> (\<exists>b. read_file (rt_private_key_file r) = Inr b \<and> parse_key b = Inr k)
      | Password pw \<Rightarrow> pw \<noteq> [] \<and> (\<exists>b. read_file (rt_password_file r) = Inr b \<and> pw = trim_right [CHR 0x0D, CHR 0x0A] b)
      | KeyboardInteractive pw \<Rightarrow> pw \<noteq> [] \<and> (\<exists>b. read_file (rt_password_file r) = Inr b \<and> pw = trim_right [CHR 0x0D, CHR 0x0A] b)"
    if "a \<in> set auth" for a
  proof (cases a)
    case (PublicKeys k)
    with that have "parse_key (sh_private_key cfg) = Inr k \<and> sh_private_key cfg \<noteq> []" by (intro au(3)) simp
    then show ?thesis using c(7) PublicKeys by auto
  next
    case (Password pw)
    with that have "pw = sh_password cfg \<and> pw \<noteq> []" by (intro au(2)) simp
    then show ?thesis using c(6) Password by auto
  next
    case (KeyboardInteractive pw)
    with that have "pw = sh_password cfg \<and> pw \<noteq> []" by (intro au(2)) simp
    then show ?thesis using c(6) KeyboardInteractive by auto
  qed
  ultimately show ?thesis using h(1,2) cb(1) au(1) by (simp add: c(1,2,4) list_all_iff)
qed

lemma validated_router_verified_witness:
  "rt_username checked_router = ''ping'' \<and> rt_known_hosts checked_router = ''kh'' \<and> \<not> rt_insecure_skip_host_key checked_router"
proof -
  have "Handshakes ''ping'' (Some ''kh'') [Password ''secret'', KeyboardInteractive ''secret'' :: unit auth_method] 10000000000
    \<in> set [Connects ''10.0.0.1:22'' 10000000000, Guards, SetsDeadline (Some (handshake_deadline checked_ssh)),
       Handshakes ''ping'' (Some ''kh'') [Password ''secret'', KeyboardInteractive ''secret'' :: unit auth_method] 10000000000,
       ClosesConn, Disarms]" by simp
  note v = validated_router_verified [OF checked_router_ok checked_dialer checked_dial this]
  have "''ping'' = rt_username checked_router" using v by (elim conjE)
  moreover have "Some ''kh'' = None \<longleftrightarrow> rt_insecure_skip_host_key checked_router" using v by (elim conjE)
  moreover have "(Inr (rt_known_hosts checked_router) :: unit + string) = Inr ''kh''" by (simp add: checked_router_def)
  ultimately show ?thesis by simp
qed

end
