(* ===== verification/Spec2Isabelle.thy ===== *)
theory Spec2Isabelle
  imports Reloading_Theorems Scrape_Spec Web Scheduler_Live Dial_Spec
begin

text \<open>
  A verification development for smokeping_prober, a Prometheus exporter that pings hosts from
  the machine it runs on and, over ssh, from Huawei VRP routers.

  \<^bold>\<open>The program.\<close>  main.go reads a YAML configuration (config/config.go), makes one local pinger per
  host and one remote scheduler per router (remote/targets.go, remote/scheduler.go), and registers
  the metrics and the collector (collector.go).  A scheduler owns a pool of router shells
  (remote/session.go); each of its targets is queued by its own timer, and a worker takes it, sends
  the ping command to its shell, parses what the router prints (remote/huawei.go) and hands the
  result to a recorder of collector.go.  A signal or a POST to /-/reload repeats the sequence with a
  new configuration.

  \<^bold>\<open>The theories.\<close>
  Prelude: results as sums, loops with an early return (\<open>for_each\<close>), 64-bit signed arithmetic.
  Go_Strings, Go_Regexp, Go_Net: what the code uses of Go's strings, strconv, regexp and net.
  Regular expressions run on a backtracking matcher with Go's leftmost-first priorities;
  \<open>net.ParseIP\<close>, \<open>To4\<close> and \<open>IP.String\<close> are written out.
  Config and Config_Spec: config/config.go.  The structs are records with the names of the Go fields,
  \<open>Validate\<close> is \<open>validate\<close> with one constructor of \<open>validate_error\<close> per error, the YAML hooks are
  \<open>unmarshal_...\<close>, \<open>ReloadConfig\<close> is \<open>reload_config\<close>.  \<open>config_ok\<close> is the declarative description
  of a valid configuration.
  Huawei and Huawei_Spec: remote/huawei.go, \<open>BuildCommand\<close>, \<open>CommandDeadline\<close>, \<open>ParseOutput\<close>, and the
  grammar \<open>transcript\<close> of what VRP prints.
  Targets and Targets_Spec: remote/targets.go, \<open>Resolve\<close>, \<open>BuildTargets\<close>, \<open>NewSSHDialer\<close>.  The locale
  \<open>literal_resolver\<close> states what the expansion of literal hosts needs of a resolver.
  Session and Session_Spec: remote/session.go.  A session is a record of its buffer, its prompt,
  whether it is closed and the log of what it wrote; \<open>run\<close>, \<open>wait_prompt\<close>, \<open>drain\<close>, \<open>learn_prompt\<close>,
  \<open>start_shell\<close> and \<open>dial\<close> are functions of the events it receives (a chunk, the end of the channel,
  a timer), and \<open>None\<close> is a call that still waits when the events end.
  \<open>dial\<close> also lists what it does to its connection (\<open>dial_effect\<close>); Dial_Spec runs this list on a
  connection (\<open>conn_after\<close>).
  Runner: the interface \<open>Runner\<close> of remote/scheduler.go as the locale \<open>runner\<close>, and \<open>runJob\<close>.
  Scheduler and Scheduler_Spec: remote/scheduler.go as a labelled step relation over one record.
  Each goroutine is a program counter (\<open>timer\<close>, \<open>worker\<close>), each step one atomic operation, and the
  order of steps is free, so a property of all executions is a property of all interleavings and of
  all behaviours of the clock.  The counters of remote/metrics.go are fields of the state, and every
  series of its vectors that is addressed is logged.  Scheduler_Live: a distance of each target from
  its next ping (\<open>dist\<close>), which some step always shortens.
  Collector and Collector_Spec: collector.go.  Calls on the Prometheus client are logged;
  \<open>log_ok\<close> says which logs the client accepts, from its documentation: a metric is registered only while
  none of its name is, a series is addressed with one value per label name, and the label names of a
  metric are those it was first registered with, for the life of the process and also after \<open>Unregister\<close>
  (collector_test.go, \<open>TestRemoteRecorderKeepsItsOwnVectors\<close>).  The locale \<open>result_recorder\<close> is
  the interface of a recorder.
  Prober, Prober_Spec, Prober_Life, Prober_Theorems: main.go, \<open>prepare\<close>, \<open>start\<close>, \<open>stop\<close>, startup and
  reload as functions that return the new state or the error, with the log of what was started,
  stopped, registered and reset; \<open>None\<close> is the panic of a registration that is refused (\<open>promauto\<close>,
  \<open>MustRegister\<close>), which ends the process.  \<open>serve\<close> answers signals and requests to /-/reload one after the
  other.  \<open>live_step\<close> is the life of a running prober between its reloads.
  Reloading, Reloading_Spec, Reloading_Theorems: the goroutine of main.go that reloads, statement by
  statement (\<open>reload_step\<close>, with the counter \<open>pc\<close>), interleaved with the replies, errors and results
  that arrive meanwhile and with pingers that end on their own (\<open>arrival\<close>); \<open>evolves\<close> is any interleaving of both.
  Scrape_Spec: when the series that the collector delivers to a scrape are distinct.
  Web: the pages of the web server of main.go and what a request gets.
  This theory: what holds across components.

  \<^bold>\<open>What is shown.\<close>
  Configuration: validation accepts exactly \<open>config_ok\<close>; references of validated groups resolve;
  defaults; the shared configuration is always the last good one.
  Targets: when the expansion of a validated group fails, and with which error; literal hosts without DNS.
  Ping: commands are one line of plain words in VRP's order; deadlines; every transcript of the
  grammar is read back; anything without counts is an error and never a loss.
  Session: a call returns exactly when the prompt is shown after the echo, however the text is cut;
  its error says whether the shell is usable; it always returns; a learned prompt is never a question.
  Dial: nothing is left behind by a dial that fails, and a validated router is only talked to with its
  host key checked, unless it waives this, and with a credential of its own.
  Scheduler: one ping per target at a time, no overflow of the queue, skips only for pending
  targets, exact gauge and counters, bounds of pauses and offsets, the refinement of the life of a
  target (\<open>phase_step\<close>), nothing new after \<open>Stop\<close>, \<open>Stop\<close> can return, and until then every target can still get its ping.
  Prober: label names, the exact preparation, the order of a reload, consistency of what is
  registered and what is written to, at startup and through every reload that succeeds or is
  rejected; that a reload which fails in its preparation breaks it, so that replies are no longer seen;
  and that a reload panics exactly if the file has other label names than the running configuration
  (\<open>label_change_panics\<close>).
  Reloads among running pingers: without arrivals the steps of the goroutine are the reload
  function, its panic included (\<open>reload_refined\<close>); in every interleaving no handler and no recorder
  panics, and nothing but a reload into other label names ends the program; replies before the new
  handlers are installed are lost (\<open>early_replies_steps\<close>).
  Scrapes: hosts that are named once give distinct series; two groups that share a literal address do not.
  Web: every path gets its page, and only the reload touches the prober.

  \<^bold>\<open>Loops and bounds.\<close>  There is no fuel: loops over lists are structural, the matcher recurses on the
  text that is left, and the waits of a session are recursive on the events.  Integers have their
  width (\<open>int\<close>, \<open>int64\<close> and \<open>time.Duration\<close> are signed 64-bit words, \<open>uint8\<close> and \<open>uint64\<close> unsigned), and
  division is Go's.

  The state machines (\<open>step\<close>, \<open>reload_step\<close>, \<open>arrival\<close>) are inductive relations with no bound on the
  number of steps; what holds of them holds of every execution.

  \<^bold>\<open>Parameters.\<close>  The file system, the YAML decoder, DNS, the ssh library up to an open shell, what a
  router sends, the clock, the pinger library, floating point and the Prometheus client with its rule for
  single label names (\<open>en_valid_label\<close>).  What is assumed of them is written as a hypothesis (\<open>dns_ok\<close>: an
  answer is not empty and has the asked family; \<open>pinger_ok\<close>: \<open>New\<close> keeps the host, \<open>Resolve\<close> sets only the IP
  address, and that of a literal address is the address itself; a name may resolve differently each time)
  or not at all; the rules of the Prometheus client are the definition \<open>log_ok\<close>.

  \<^bold>\<open>Not modelled.\<close>  Command-line parsing, what the metrics page and the landing page show, the start of
  the web server, and all logging: they only call libraries.  \<open>OnFinish\<close>, which only logs.  The ssh
  handshake, the Prometheus client, the pinger and the YAML decoder are not under src/.  In a reload
  that is interleaved, the end of all old pingers is one step, and so is the installation of the
  handlers by the new collector.  A cancellation in the instant between the last answer of a login and the
  \<open>stop\<close> of \<open>Dial\<close>.  Histograms that the client refuses at their first series: buckets that are not sorted,
  and the label name \<open>le\<close>.  Metrics paths with the wildcards of \<open>ServeMux\<close>.  Tests, dashboards and build
  files.
\<close>

section \<open>Schedulers on router shells\<close>

text \<open>
  A shell that is open and whose prompt has the shape of a VRP prompt: the contract of the scheduler
  holds for it too, so the pool only ever runs jobs on such shells.
\<close>

definition usable :: "session \<Rightarrow> bool" where
  "usable s \<longleftrightarrow> session_open s \<and> prompt_shape (ss_prompt s)"

lemma runs_prompt: "session_open s \<Longrightarrow> session_runs s cmd d a s' \<Longrightarrow> ss_prompt s' = ss_prompt s"
  by (auto simp: session_runs_def session_open_def dest: run_result(3))

interpretation shell: runner session_runs usable is_timeout is_closed
proof
  fix s cmd d out s' assume "usable s" "session_runs s cmd d (Inr out) s'"
  then show "usable s'" using runs_prompt vrp.runs_ok by (metis usable_def)
next
  fix s cmd d e s' assume s: "usable s" "session_runs s cmd d (Inl e) s'" "is_timeout e"
  then show "usable s' \<longleftrightarrow> \<not> is_closed e" using runs_prompt vrp.runs_timeout by (metis usable_def)
next
  fix s cmd d e s' assume "usable s" "session_runs s cmd d (Inl e) s'" "\<not> is_timeout e"
  then show "\<not> usable s'" using vrp.runs_failed by (metis usable_def)
next
  fix s cmd d assume "usable s"
  then show "\<exists>answer s'. session_runs s cmd d answer s'" using vrp.runs_total by (metis usable_def)
qed

lemma opens_usable: "session_opens s \<Longrightarrow> usable s"
  using session_opens_open login_verdict_prompt(1) by (auto simp: usable_def session_opens_def dest: start_shell_prompt)

abbreviation vrp_executes :: "string \<Rightarrow> i64 \<Rightarrow> target list \<Rightarrow> run_error action list \<Rightarrow> session sched \<Rightarrow> bool" where
  "vrp_executes \<equiv> executes session_opens session_runs is_timeout is_closed"

abbreviation vrp_steps :: "session sched \<Rightarrow> run_error action list \<Rightarrow> session sched \<Rightarrow> bool" where
  "vrp_steps \<equiv> steps session_opens session_runs is_timeout is_closed"

lemma executes_shells: "vrp_executes router n ts as s \<Longrightarrow> list_all shell.shell_ok (sd_workers s)"
proof -
  assume "vrp_executes router n ts as s"
  then have st: "vrp_steps (start (new_scheduler router n ts)) as s" by (simp add: executes_def)
  show ?thesis
    by (rule steps_invariant [OF st])
      (auto simp: start_def new_scheduler_def list_all_iff intro: shell.step_shells [unfolded list_all_iff, rule_format] opens_usable)
qed

section \<open>What a router prints\<close>

lemma not_contains_hd: "w \<noteq> [] \<Longrightarrow> hd w \<notin> set s \<Longrightarrow> \<not> contains s w"
  by (cases w) (auto simp: contains_iff)

lemma index_tail_hd:
  "w \<noteq> [] \<Longrightarrow> hd w \<notin> set p \<Longrightarrow> has_prefix u w \<Longrightarrow> index_tail (p @ u) w = Some u"
proof (induction p)
  case Nil
  then show ?case by (simp add: index_tail.simps [of u])
next
  case (Cons x p)
  then have "\<not> has_prefix (x # p @ u) w" by (cases w) (auto simp: has_prefix_def)
  with Cons show ?case by (simp add: index_tail.simps [of "x # p @ u"])
qed

text \<open>
  The answer to a ping job: the echo of the command, blanks, the transcript, blanks and the prompt.
\<close>

lemma ping_answer:
  assumes "job_ok j" and "transcript_ok heading dst evs rule tail"
    and "int sent \<le> i64_max" and "int (length (answers evs)) \<le> i64_max"
    and "heading \<noteq> []" and "plain_char (hd heading)" and "tail \<noteq> []" and "plain_char (last tail)"
    and "set before \<subseteq> {CHR '' '', CHR 0x0A}" and "set after \<subseteq> {CHR '' '', CHR 0x0A}"
    and "body = before @ transcript heading v6 dst n evs rule sent (length (answers evs)) tail @ after"
    and "answer_ok stray (j_target j) body (ss_prompt s)" and "CHR 0x1B \<notin> set (concat cs)"
    and "remove_char (CHR 0x0D) (concat cs) = stray @ answer_screen (j_target j) body (ss_prompt s)"
    and "drop_ready ready evs' = map Chunk cs @ rest"
  shows "\<exists>s' evs1. run True ready (build_command j) (command_deadline j) s evs' =
     Some (Inr (transcript heading v6 dst n evs rule sent (length (answers evs)) tail), s', evs1)"
proof -
  let ?T = "transcript heading v6 dst n evs rule sent (length (answers evs)) tail"
  have lt: "last_token (build_command j) = j_target j" by (rule last_token_command [OF assms(1)])
  have "hd ?T = hd heading" "last ?T = last tail" "?T \<noteq> []"
    using assms(5,7) by (simp_all add: transcript_def)
  then have "trim_space (before @ ?T @ after @ nl) = ?T"
    using assms(6,8-10) by (intro trim_space_blanks) simp_all
  then have "trim_space (body @ nl) = ?T" by (simp add: assms(11))
  then show ?thesis
    using run_answer [of stray "build_command j" body s cs ready evs' rest "command_deadline j"] assms(12-15) lt by simp
qed
section \<open>A sample answer\<close>

definition sample_job :: job where
  "sample_job = \<lparr>j_target = ''8.8.8.8'', j_ipv6 = False, j_source = ''192.0.2.1'', j_count = 3,
     j_packet_interval = 50000000, j_timeout = 500000000, j_size = 56, j_tos = 0, j_vpn_instance = []\<rparr>"

definition sample_stray :: string where
  "sample_stray = ''<R>ping -a 192.0.2.1 -c 3 ''"

lemma not_contains_last: "w \<noteq> [] \<Longrightarrow> last w \<notin> set s \<Longrightarrow> \<not> contains s w"
  by (cases w rule: rev_cases) (auto simp: contains_iff)

lemma sample_output_chars: "c \<in> {CHR ''>'', CHR 0x1B, CHR 0x0D} \<Longrightarrow> c \<notin> set sample_output"
  by (auto simp: sample_output_def transcript_def counts_text_def sample_events_def reply_head_def reply_text_def
      events_text_def char_class_defs
      dest!: show_nat_digits [unfolded list_all_iff, rule_format])

lemma sample_ping_answer_ok: "answer_ok sample_stray ''8.8.8.8'' sample_output ''<R>''"
proof -
  have "\<not> contains (butlast (answer_screen ''8.8.8.8'' sample_output ''<R>'')) ''<R>''"
    using sample_output_chars [of "CHR ''>''"]
    by (intro not_contains_last) (simp_all add: answer_screen_def butlast_append)
  moreover have "index_tail (sample_stray @ answer_screen ''8.8.8.8'' sample_output ''<R>'') ''8.8.8.8'' =
      Some (answer_screen ''8.8.8.8'' sample_output ''<R>'')"
    by (intro index_tail_hd) (simp_all add: sample_stray_def answer_screen_def has_prefix_def)
  ultimately show ?thesis by (simp add: answer_ok_def plain_word_def plain_char_def)
qed

text \<open>The sample target of the scheduler is pinged and answers with the sample transcript.\<close>

lemma sample_delivered:
  obtains s where "sample_executes [TimerFires 0, Claims 0, Sends 0, DialOpens 0, Dequeues 0, Starts 0, Answers 0 0 (Inr sample_output)] s"
proof -
  let ?a = "Inr sample_output :: unit + string"
  have "sd_workers sample_running = [Running () 0]" by (simp add: sample_running_def set_worker_def)
  then have "sample_step sample_running (Answers 0 0 ?a)
     (set_worker 0 (Returning () 0 (jo_reuse (run_job (\<lambda>_. True) (\<lambda>_. False) ?a)))
       (record_outcome 0 (run_job (\<lambda>_. True) (\<lambda>_. False) ?a) sample_running))"
    by (intro job_answers) simp_all
  from that executes_step [OF executes_step [OF sample_dequeued_reached sample_starts] this] show ?thesis by simp
qed

section \<open>Properties\<close>

text \<open>
  C5: A pool can always be stopped.  Whatever the workers, the timers and the routers were doing when
  the context was cancelled, an execution exists in which no timer fires and no work is taken, that
  ends every goroutine within six steps per session and three per target and leaves no session
  connected; so the wait in \<open>Stop\<close> is never blocked for good.
\<close>

theorem stop_returns:
  assumes "vrp_executes router n ts as s" and "sd_ctx s = Cancelled"
  shows "\<exists>bs s'. vrp_steps s bs s' \<and> list_all winding_down bs \<and> stopped s' \<and> sd_up s' = 0 \<and>
    length bs \<le> 6 * nat (sint n) + 3 * length ts"
proof -
  obtain bs s' where bs: "vrp_steps s bs s'" "list_all winding_down bs" "stopped s'" "sd_up s' = 0" "length bs \<le> rank s"
    using shell.can_stop [OF assms(2) executes_shells [OF assms(1)] executes_invariants(3) [OF assms(1)] opens_usable]
    by blast
  have "rank s \<le> 6 * nat (sint n) + 3 * length ts"
    using rank_bound [of s] executes_invariants(5,6) [OF assms(1)] by simp
  with bs show ?thesis using le_trans by blast
qed

lemma stop_returns_witness:
  "\<exists>s bs s'. vrp_executes ''r1'' 2 [sample_ping_target] [Cancels] s \<and> vrp_steps s bs s' \<and> stopped s' \<and> length bs \<le> 15"
proof -
  let ?s0 = "start (new_scheduler ''r1'' 2 [sample_ping_target]) :: session sched"
  have "vrp_executes ''r1'' 2 [sample_ping_target] [Cancels] (cancel ?s0)"
    unfolding executes_def by (rule steps_one) (rule cancelled)
  moreover have "sd_ctx (cancel ?s0) = Cancelled" by (simp add: cancel_def start_def)
  ultimately show ?thesis using stop_returns [of "''r1''" 2 "[sample_ping_target]" "[Cancels]" "cancel ?s0"] by force
qed

text \<open>
  C17: No target is forgotten.  From every state of an execution that was not cancelled, whatever failed or
  is pending, and for every target, there is a continuation of at most six steps per target and
  eleven more, without cancelling, after which a worker pings that target, given one session at
  least: no target can stay marked pending with nobody to release it, and the queue is always served.
\<close>

theorem every_target_served:
  assumes "fresh ts" and "vrp_executes router n ts as s" and "sd_ctx s = Active" and "1 \<le> sint n" and "i < length ts"
  shows "\<exists>bs s' r. vrp_steps s bs s' \<and> Cancels \<notin> set bs \<and> Running r i \<in> set (sd_workers s') \<and>
    length bs \<le> 6 * length ts + 11"
proof -
  note inv = executes_invariants [OF assms(2)]
  have "alive_ok s" using executes_alive [OF assms(2,3)] by (simp add: alive_ok_def)
  moreover have "0 < length (sd_workers s)" "i < length (sd_targets s)" using inv(5,7) assms(4,5) by simp_all
  moreover obtain r0 where "session_opens r0" unfolding session_opens_def using sample_login by metis
  moreover note ok = inv(1) [OF assms(1)]
  ultimately obtain bs s' where bs: "vrp_steps s bs s'" "Cancels \<notin> set bs" "pinging i s'" "length bs \<le> dist i s"
    using shell.can_ping [of s session_opens, OF _ executes_shells [OF assms(2)] assms(3) _ _ _ _ opens_usable] by blast
  have "length (sd_queue s) \<le> length ts" using queue_length [OF ok] inv(7) by simp
  then have "length bs \<le> 6 * length ts + 11" using bs(4) dist_bound [of i s] by linarith
  moreover obtain r where "Running r i \<in> set (sd_workers s')" using bs(3) by (auto simp: pinging_def)
  ultimately show ?thesis using bs(1,2) by blast
qed

lemma every_target_served_witness:
  "\<exists>bs s' r. vrp_steps (start (new_scheduler ''r1'' 1 [sample_ping_target])) bs s' \<and> Running r 0 \<in> set (sd_workers s') \<and>
     length bs \<le> 17"
proof -
  let ?s0 = "start (new_scheduler ''r1'' 1 [sample_ping_target]) :: session sched"
  have "vrp_executes ''r1'' 1 [sample_ping_target] [] ?s0" by (simp add: executes_def steps_Nil)
  moreover have "sd_ctx ?s0 = Active" by (simp add: start_def)
  ultimately show ?thesis using every_target_served [OF sample_fresh, of "''r1''" 1 "[]" ?s0 0] by auto
qed

text \<open>
  C20: Jobs run only on live shells.  In every execution a worker that pings does it on a session
  that is open and whose prompt was learned at login, and the command it sends is the one of a
  target of its scheduler.
\<close>

theorem jobs_on_live_shells:
  assumes "fresh ts" and "vrp_executes router n ts as s"
    and "w < length (sd_workers s)" and "sd_workers s ! w = Running r i"
  shows "\<not> ss_closed r \<and> prompt_shape (ss_prompt r) \<and> i < length ts \<and> t_job (sd_targets s ! i) = t_job (ts ! i)"
proof -
  have "shell.shell_ok (sd_workers s ! w)" using executes_shells [OF assms(2)] assms(3) by (simp add: list_all_length)
  then have "usable r" by (simp add: assms(4))
  moreover have "i < length (sd_targets s)"
    using executes_invariants(1) [OF assms(2,1)] assms(3,4) nth_mem [OF assms(3)]
    by (auto simp: holders_ok_def shape_ok_def)
  moreover note executes_invariants(7,8) [OF assms(2)]
  ultimately show ?thesis by (metis length_map nth_map session_open_def usable_def)
qed

lemma jobs_on_live_shells_witness:
  "\<exists>as s r. vrp_executes ''r1'' 1 [sample_ping_target] as s \<and> sd_workers s = [Running r 0] \<and> \<not> ss_closed r"
proof -
  obtain r where "session_opens r" unfolding session_opens_def using sample_login by metis
  then obtain as s where s: "vrp_executes ''r1'' 1 [sample_ping_target] as s" "sd_workers s = [Running r 0]"
    by (rule pinging_reached)
  with jobs_on_live_shells [OF sample_fresh s(1), of 0 r 0] show ?thesis by auto
qed

text \<open>
  C1: A ping, end to end.  For a job that can be sent, any transcript of the shape VRP prints, cut into
  chunks anywhere and with any leftovers before it, makes \<open>Run\<close> answer, and \<open>runJob\<close> then records
  exactly the replies, the packets sent and the timeouts of the transcript, counts no error and keeps
  the session.
\<close>

theorem ping_end_to_end:
  assumes "job_ok j" and "transcript_ok heading dst evs rule tail"
    and "int sent \<le> i64_max" and "int (length (answers evs)) \<le> i64_max"
    and "heading \<noteq> []" and "plain_char (hd heading)" and "tail \<noteq> []" and "plain_char (last tail)"
    and "set before \<subseteq> {CHR '' '', CHR 0x0A}" and "set after \<subseteq> {CHR '' '', CHR 0x0A}"
    and "body = before @ transcript heading v6 dst n evs rule sent (length (answers evs)) tail @ after"
    and "answer_ok stray (j_target j) body (ss_prompt s)" and "CHR 0x1B \<notin> set (concat cs)"
    and "remove_char (CHR 0x0D) (concat cs) = stray @ answer_screen (j_target j) body (ss_prompt s)"
    and "drop_ready ready evs' = map Chunk cs @ rest"
  shows "\<exists>a s' evs1. run True ready (build_command j) (command_deadline j) s evs' = Some (a, s', evs1) \<and>
     run_job is_timeout is_closed a = \<lparr>jo_error = None,
       jo_result = Some \<lparr>rs_sent = word_of_int (int sent), rs_replies = answers evs, rs_timeouts = lost evs\<rparr>,
       jo_reuse = True\<rparr>"
proof -
  let ?T = "transcript heading v6 dst n evs rule sent (length (answers evs)) tail"
  obtain s' evs1 where r: "run True ready (build_command j) (command_deadline j) s evs' = Some (Inr ?T, s', evs1)"
    using ping_answer [OF assms] by blast
  have "parse_output ?T = Inr \<lparr>rs_sent = word_of_int (int sent), rs_replies = answers evs, rs_timeouts = lost evs\<rparr>"
    using parse_transcript [OF assms(2-4)] by simp
  then have "run_job is_timeout is_closed (Inr ?T) = \<lparr>jo_error = None,
       jo_result = Some \<lparr>rs_sent = word_of_int (int sent), rs_replies = answers evs, rs_timeouts = lost evs\<rparr>,
       jo_reuse = True\<rparr>" by (simp add: run_job_def)
  with r show ?thesis by blast
qed

lemma ping_end_to_end_witness:
  "\<exists>a s' evs'. run True 0 (build_command sample_job) (command_deadline sample_job) sample_session
     [Chunk sample_stray, Chunk (answer_screen ''8.8.8.8'' sample_output ''<R>'')] = Some (a, s', evs') \<and>
     jo_result (run_job is_timeout is_closed a) = Some sample_result"
proof -
  let ?cs = "[sample_stray, answer_screen ''8.8.8.8'' sample_output ''<R>'']"
  have chars: "c \<notin> set (concat ?cs)" if "c \<in> {CHR 0x1B, CHR 0x0D}" for c
    using sample_output_chars [of c] that by (auto simp: sample_stray_def answer_screen_def)
  then have clean: "CHR 0x1B \<notin> set (concat ?cs)" "remove_char (CHR 0x0D) (concat ?cs) = concat ?cs"
    unfolding remove_char_def by (blast, intro filter_True) (use chars [of "CHR 0x0D"] in auto)
  have j: "job_ok sample_job" "j_target sample_job = ''8.8.8.8''" "ss_prompt sample_session = ''<R>''"
    by (simp_all add: sample_job_def sample_session_def job_ok_def plain_word_def plain_char_def)
  have len: "length (answers sample_events) = 2" by (simp add: sample_events_def)
  have body: "sample_output = [] @ transcript (''PING 8.8.8.8: 56  data bytes, press CTRL_C to break'' @ nl) False ''8.8.8.8'' 56
      sample_events (nl @ ''  --- 8.8.8.8 ping statistics ---'') 3 (length (answers sample_events)) (nl @ ''    33.33% packet loss'') @ []"
    by (simp only: sample_output_def len append_Nil append_Nil2)
  have "\<exists>a s' evs1. run True 0 (build_command sample_job) (command_deadline sample_job) sample_session
      [Chunk sample_stray, Chunk (answer_screen ''8.8.8.8'' sample_output ''<R>'')] = Some (a, s', evs1) \<and>
     run_job is_timeout is_closed a = \<lparr>jo_error = None,
       jo_result = Some \<lparr>rs_sent = word_of_int (int 3), rs_replies = answers sample_events, rs_timeouts = lost sample_events\<rparr>,
       jo_reuse = True\<rparr>"
    by (rule ping_end_to_end [OF j(1) sample_transcript_ok _ _ _ _ _ _ _ _ body, of sample_stray _ ?cs _ _ "[]"])
      (simp_all add: j(2,3) sample_ping_answer_ok clean [simplified] plain_char_def sample_events_def)
  moreover have "\<lparr>rs_sent = word_of_int (int 3), rs_replies = answers sample_events, rs_timeouts = lost sample_events\<rparr> = sample_result"
    by (simp add: sample_events_def sample_result_def)
  ultimately show ?thesis by (metis job_outcome.select_convs(2))
qed

text \<open>
  C25: Results end up in their series.  Recording what the routers answered in an execution adds, to
  every series of the histogram, the round trips of the answers of the targets with that series, in
  order, and nothing else; and the collector reports, per target, the packets those answers say were
  sent.
\<close>

theorem results_reach_series:
  assumes "fresh ts" and "executes opens runs tm cl router n ts as s" and "rc_ttl rc \<noteq> None"
  shows "(\<exists>m'. vec_recorder.store_all rc (map (\<lambda>(i, res). (ts ! i, res)) (sd_records s)) m = Some m' \<and>
      observations (rc_hist rc) vals (mt_calls m') = observations (rc_hist rc) vals (mt_calls m) @
        concat (map (\<lambda>(i, res). if remote_label_values (rc_names rc) (ts ! i) = vals then map rp_rtt (rs_replies res) else [])
          (List.map_filter (action_record tm cl) as))) \<and>
    collect stats (\<lambda>i. t_sent (sd_targets s ! i))
        \<lparr>cl_id = cid, cl_names = names, cl_remote = ts, cl_probes = [], cl_hist = h\<rparr> =
      map (\<lambda>(i, t). (recorded_sent i (List.map_filter (action_record tm cl) as), remote_label_values names t)) (enumerate 0 ts)"
proof
  have rec: "sd_records s = List.map_filter (action_record tm cl) as"
    using steps_accounts(2) [OF assms(2) [unfolded executes_def]] by simp
  have sent: "t_sent (sd_targets s ! i) = recorded_sent i (sd_records s)" if "i < length ts" for i
    using executes_invariants(2) [OF assms(2,1)] executes_invariants(7) [OF assms(2)] that by (simp add: sent_ok_def)
  have conv: "concat (map (\<lambda>(t, res). if remote_label_values (rc_names rc) t = vals then map rp_rtt (rs_replies res) else [])
       (map (\<lambda>(i, res). (ts ! i, res)) xs)) =
     concat (map (\<lambda>(i, res). if remote_label_values (rc_names rc) (ts ! i) = vals then map rp_rtt (rs_replies res) else []) xs)"
    for xs by (induction xs) auto
  show "\<exists>m'. vec_recorder.store_all rc (map (\<lambda>(i, res). (ts ! i, res)) (sd_records s)) m = Some m' \<and>
      observations (rc_hist rc) vals (mt_calls m') = observations (rc_hist rc) vals (mt_calls m) @
        concat (map (\<lambda>(i, res). if remote_label_values (rc_names rc) (ts ! i) = vals then map rp_rtt (rs_replies res) else [])
          (List.map_filter (action_record tm cl) as))"
    using vec_recorder.store_all_observed [OF assms(3), of "map (\<lambda>(i, res). (ts ! i, res)) (sd_records s)" m vals]
    unfolding conv unfolding rec .
  show "collect stats (\<lambda>i. t_sent (sd_targets s ! i))
        \<lparr>cl_id = cid, cl_names = names, cl_remote = ts, cl_probes = [], cl_hist = h\<rparr> =
      map (\<lambda>(i, t). (recorded_sent i (List.map_filter (action_record tm cl) as), remote_label_values names t)) (enumerate 0 ts)"
    using sent unfolding rec by (auto simp: collect_def dest: enumerate_set_nth)
qed

lemma results_reach_series_witness:
  "\<exists>s m'. sample_executes [TimerFires 0, Claims 0, Sends 0, DialOpens 0, Dequeues 0, Starts 0, Answers 0 0 (Inr sample_output)] s \<and>
     vec_recorder.store_all \<lparr>rc_names = [''host''], rc_hist = (ResponseDuration, 4), rc_ttl = Some (ResponseTtl, 0)\<rparr>
       (map (\<lambda>(i, res). ([sample_ping_target] ! i, res)) (sd_records s)) (empty_metrics (\<lambda>_. True)) = Some m' \<and>
     observations (ResponseDuration, 4) [''1.1.1.1''] (mt_calls (m' :: nat metrics)) = [55000000, 57000000]"
proof -
  obtain s where s: "sample_executes [TimerFires 0, Claims 0, Sends 0, DialOpens 0, Dequeues 0, Starts 0, Answers 0 0 (Inr sample_output)] s"
    by (rule sample_delivered)
  let ?as = "[TimerFires 0, Claims 0, Sends 0, DialOpens 0, Dequeues 0, Starts 0, Answers 0 0 (Inr sample_output)] :: unit action list"
  have rec: "List.map_filter (action_record (\<lambda>_. True) (\<lambda>_. False)) ?as = [(0, sample_result)]"
    by (simp add: List.map_filter_simps run_job_def parse_sample)
  have calls: "mt_calls (empty_metrics (\<lambda>_. True) :: nat metrics) = []" by (simp add: empty_metrics_def)
  have "remote_label_values [''host''] sample_ping_target = [''1.1.1.1'']"
    by (simp add: remote_label_values_def label_values_def base_labels_def sample_ping_target_def)
  then show ?thesis
    using results_reach_series [OF sample_fresh s,
        of "\<lparr>rc_names = [''host''], rc_hist = (ResponseDuration, 4), rc_ttl = Some (ResponseTtl, 0)\<rparr>" "empty_metrics (\<lambda>_. True) :: nat metrics" "[''1.1.1.1'']",
        THEN conjunct1] s
    unfolding rec by (auto simp: calls sample_result_def)
qed

end
